(* ===== verification/Prelude.thy ===== *)
theory Prelude
  imports
    Main
    "HOL-Library.Char_ord"
    "HOL-Library.List_Lexorder"
    "HOL-Library.Product_Lexorder"
    "HOL-Library.Multiset"
begin

text \<open>
  Shared vocabulary of the development: Go's fixed-width signed integers as
  \<^typ>\<open>int\<close> with the wrap-around written out, Go's built-in map as an association list
  whose order stands for one (arbitrary) iteration order, the string operations of Go's
  \<open>strings\<close> package the program uses, and the generic list lemmas the components share.
  The order on \<^typ>\<open>string\<close> is the byte-lexicographic order of Go's \<open><\<close>.
\<close>

named_theorems go_int \<open>rewriting of wrap-around arithmetic inside its range\<close>
named_theorems go_str \<open>prefix and suffix operations on strings\<close>

section \<open>Fixed-width signed integers\<close>

definition wrap32 :: "int \<Rightarrow> int" where
  "wrap32 x = (x + 2147483648) mod 4294967296 - 2147483648"

definition wrap64 :: "int \<Rightarrow> int" where
  "wrap64 x = (x + 9223372036854775808) mod 18446744073709551616 - 9223372036854775808"

definition int32 :: "int \<Rightarrow> bool" where
  "int32 x \<longleftrightarrow> - 2147483648 \<le> x \<and> x \<le> 2147483647"

definition int64 :: "int \<Rightarrow> bool" where
  "int64 x \<longleftrightarrow> - 9223372036854775808 \<le> x \<and> x \<le> 9223372036854775807"

lemma wrap32_id [go_int]: "int32 x \<Longrightarrow> wrap32 x = x"
  by (simp add: wrap32_def int32_def)

lemma wrap64_id [go_int]: "int64 x \<Longrightarrow> wrap64 x = x"
  by (simp add: wrap64_def int64_def)

lemma wrap32_range [simp, intro]: "int32 (wrap32 x)"
proof -
  have "0 \<le> (x + 2147483648) mod 4294967296" and "(x + 2147483648) mod 4294967296 < 4294967296"
    by simp_all
  then show ?thesis by (simp add: wrap32_def int32_def)
qed

lemma wrap32_add_left [go_int]: "wrap32 (wrap32 a + b) = wrap32 (a + b)"
proof -
  have "(a + 2147483648) mod 4294967296 - 2147483648 + b + 2147483648
      = (a + 2147483648) mod 4294967296 + b" by linarith
  moreover have "a + b + 2147483648 = a + 2147483648 + b" by linarith
  ultimately show ?thesis unfolding wrap32_def by (simp only: mod_add_left_eq)
qed

lemma wrap32_add_right [go_int]: "wrap32 (a + wrap32 b) = wrap32 (a + b)"
  by (metis add.commute wrap32_add_left)

text \<open>Go's integer division truncates towards zero.\<close>

definition quot :: "int \<Rightarrow> int \<Rightarrow> int" where
  "quot a b = sgn a * sgn b * (\<bar>a\<bar> div \<bar>b\<bar>)"

lemma quot_nonneg [go_int]: "0 \<le> a \<Longrightarrow> 0 < b \<Longrightarrow> quot a b = a div b"
  by (cases "a = 0") (auto simp: quot_def)

section \<open>Go's built-in map\<close>

text \<open>
  A Go map is an association list with distinct keys; its list order is the order one
  particular \<open>range\<close> loop happens to visit. Reading is \<^const>\<open>map_of\<close>; writing keeps an
  existing key in place and appends a new one.
\<close>

type_synonym ('k, 'v) gomap = "('k \<times> 'v) list"

definition wf_map :: "('k, 'v) gomap \<Rightarrow> bool" where
  "wf_map m \<longleftrightarrow> distinct (map fst m)"

fun map_put :: "'k \<Rightarrow> 'v \<Rightarrow> ('k, 'v) gomap \<Rightarrow> ('k, 'v) gomap" where
  "map_put k v [] = [(k, v)]"
| "map_put k v ((k', v') # m) = (if k' = k then (k, v) # m else (k', v') # map_put k v m)"

definition map_get :: "('k, 'v) gomap \<Rightarrow> 'k \<Rightarrow> 'v \<Rightarrow> 'v" where
  "map_get m k zero = (case map_of m k of None \<Rightarrow> zero | Some v \<Rightarrow> v)"

definition has_key :: "('k, 'v) gomap \<Rightarrow> 'k \<Rightarrow> bool" where
  "has_key m k \<longleftrightarrow> map_of m k \<noteq> None"

lemma map_of_put [simp]: "map_of (map_put k v m) = (map_of m)(k \<mapsto> v)"
  by (induction k v m rule: map_put.induct) auto

lemma keys_put: "fst ` set (map_put k v m) = insert k (fst ` set m)"
  by (induction k v m rule: map_put.induct) auto

lemma wf_put [intro]: "wf_map m \<Longrightarrow> wf_map (map_put k v m)"
proof (induction k v m rule: map_put.induct)
  case (2 k v k' v' m)
  then show ?case
    by (auto simp: wf_map_def keys_put simp flip: image_set)
qed (simp add: wf_map_def)

lemma map_get_put [simp]: "map_get (map_put k v m) k' zero = (if k' = k then v else map_get m k' zero)"
  by (simp add: map_get_def)

lemma map_get_Nil [simp]: "map_get [] k zero = zero"
  by (simp add: map_get_def)

lemma list_all_gomap:
  "wf_map m \<Longrightarrow> list_all (\<lambda>(k, v). P k v) m \<longleftrightarrow> (\<forall>k v. map_of m k = Some v \<longrightarrow> P k v)"
  by (auto simp: wf_map_def list_all_iff)

definition map_delete :: "'k \<Rightarrow> ('k, 'v) gomap \<Rightarrow> ('k, 'v) gomap" where
  "map_delete k m = filter (\<lambda>e. fst e \<noteq> k) m"

lemma map_of_delete [simp]: "map_of (map_delete k m) = (map_of m)(k := None)"
  by (induction m) (auto simp: map_delete_def)

lemma wf_map_filter [intro]: "wf_map m \<Longrightarrow> wf_map (filter P m)"
  by (simp add: wf_map_def distinct_map_filter)

lemma wf_delete [intro]: "wf_map m \<Longrightarrow> wf_map (map_delete k m)"
  by (simp add: map_delete_def wf_map_filter)

lemma set_map_delete: "set (map_delete k m) = {e \<in> set m. fst e \<noteq> k}"
  by (auto simp: map_delete_def)

lemma wf_map_iff: "wf_map m \<Longrightarrow> (k, v) \<in> set m \<longleftrightarrow> map_of m k = Some v"
  by (simp add: wf_map_def)

section \<open>Strings\<close>

definition HasPrefix :: "string \<Rightarrow> string \<Rightarrow> bool" where
  "HasPrefix s p \<longleftrightarrow> take (length p) s = p"

definition HasSuffix :: "string \<Rightarrow> string \<Rightarrow> bool" where
  "HasSuffix s p \<longleftrightarrow> length p \<le> length s \<and> drop (length s - length p) s = p"

definition CutPrefix :: "string \<Rightarrow> string \<Rightarrow> string option" where
  "CutPrefix s p = (if HasPrefix s p then Some (drop (length p) s) else None)"

definition CutSuffix :: "string \<Rightarrow> string \<Rightarrow> string option" where
  "CutSuffix s p = (if HasSuffix s p then Some (take (length s - length p) s) else None)"

lemma HasPrefix_iff [go_str]: "HasPrefix s p \<longleftrightarrow> (\<exists>r. s = p @ r)"
  by (metis HasPrefix_def append_eq_conv_conj append_take_drop_id)

lemma HasSuffix_iff [go_str]: "HasSuffix s p \<longleftrightarrow> (\<exists>r. s = r @ p)"
proof
  assume "HasSuffix s p"
  then have "s = take (length s - length p) s @ p"
    by (metis HasSuffix_def append_take_drop_id)
  then show "\<exists>r. s = r @ p" ..
qed (auto simp: HasSuffix_def)

lemma CutPrefix_Some [go_str]: "CutPrefix s p = Some r \<longleftrightarrow> s = p @ r"
  by (auto simp: CutPrefix_def HasPrefix_iff)

lemma CutPrefix_None [go_str]: "CutPrefix s p = None \<longleftrightarrow> \<not> HasPrefix s p"
  by (simp add: CutPrefix_def)

lemma CutSuffix_Some [go_str]: "CutSuffix s p = Some r \<longleftrightarrow> s = r @ p"
  by (auto simp: CutSuffix_def HasSuffix_iff)

lemma CutPrefix_append [simp]: "CutPrefix (p @ r) p = Some r"
  by (simp add: CutPrefix_Some)

lemma CutSuffix_append [simp]: "CutSuffix (r @ p) p = Some r"
  by (simp add: CutSuffix_Some)

text \<open>\<open>strings.Cut\<close> at a one-character separator: the part before the first occurrence,
  the part after it, and whether it occurred.\<close>

definition Cut :: "string \<Rightarrow> char \<Rightarrow> string \<times> string \<times> bool" where
  "Cut s c = (let a = takeWhile (\<lambda>x. x \<noteq> c) s; b = dropWhile (\<lambda>x. x \<noteq> c) s
              in case b of [] \<Rightarrow> (s, [], False) | _ # t \<Rightarrow> (a, t, True))"

lemma Cut_append [simp]: "c \<notin> set a \<Longrightarrow> Cut (a @ c # b) c = (a, b, True)"
  by (simp add: Cut_def dropWhile_append takeWhile_append)

lemma Cut_absent [simp]: "c \<notin> set a \<Longrightarrow> Cut a c = (a, [], False)"
proof -
  assume "c \<notin> set a"
  then have "dropWhile (\<lambda>x. x \<noteq> c) a = []" by (metis (mono_tags) dropWhile_eq_Nil_conv)
  then show ?thesis by (simp only: Cut_def Let_def list.case)
qed

text \<open>\<open>strings.Split\<close> at a one-character separator.\<close>

fun Split :: "string \<Rightarrow> char \<Rightarrow> string list" where
  "Split [] c = [[]]"
| "Split (x # xs) c =
     (if x = c then [] # Split xs c
      else (case Split xs c of [] \<Rightarrow> [[x]] | p # ps \<Rightarrow> (x # p) # ps))"

lemma Split_nonempty [simp]: "Split s c \<noteq> []"
  by (induction s c rule: Split.induct) (auto split: list.splits)

lemma Split_absent [simp]: "c \<notin> set s \<Longrightarrow> Split s c = [s]"
  by (induction s c rule: Split.induct) auto

lemma Split_append [simp]: "c \<notin> set a \<Longrightarrow> Split (a @ c # b) c = a # Split b c"
  by (induction a) auto

section \<open>Lists\<close>

lemma sum_list_update_int:
  "i < length (xs :: int list) \<Longrightarrow> sum_list (xs[i := v]) = sum_list xs - xs ! i + v"
proof (induction xs arbitrary: i)
  case (Cons x xs)
  then show ?case by (cases i) auto
qed simp

lemma list_all2_update:
  "list_all2 P xs ys \<Longrightarrow> i < length ys \<Longrightarrow> P (xs ! i) y \<Longrightarrow> list_all2 P xs (ys[i := y])"
  by (auto simp: list_all2_conv_all_nth nth_list_update)

end
