(* ===== verification/Device_Types.thy ===== *)
theory Device_Types
  imports Prelude
begin

text \<open>
  The data model of \<open>api/worker/v1alpha1/devices.go\<close>: the cluster-scoped \<open>Devices\<close> object
  with the hardware inventory (\<open>Spec\<close>) and the per-card allocation ledger (\<open>Status\<close>).
  A struct is a record whose fields carry the source's names behind a short prefix (several
  structs share \<open>ID\<close>, \<open>Name\<close> or \<open>Count\<close>); a Go pointer is an option; signed integers are
  \<^typ>\<open>int\<close>, unsigned ones \<^typ>\<open>nat\<close>. A constant \<open>zero_T\<close> is Go's zero value of \<open>T\<close>, the value
  of every field a composite literal leaves out.
\<close>

section \<open>Allocation modes\<close>

text \<open>The mode is a \<open>uint32\<close> decoded from JSON, so a number outside the vocabulary is a
  value of the type as well.\<close>

datatype DeviceAllocationMode =
    DeviceAllocationModeNone
  | DeviceAllocationModeExclusive
  | DeviceAllocationModeShared
  | DeviceAllocationModeSliced
  | DeviceAllocationModePartitioned
  | DeviceAllocationModeVisibility
  | DeviceAllocationModeOther nat

fun DeviceAllocationMode_String :: "DeviceAllocationMode \<Rightarrow> string" where
  "DeviceAllocationMode_String DeviceAllocationModeExclusive = ''Exclusive''"
| "DeviceAllocationMode_String DeviceAllocationModeShared = ''Shared''"
| "DeviceAllocationMode_String DeviceAllocationModeSliced = ''Sliced''"
| "DeviceAllocationMode_String DeviceAllocationModePartitioned = ''Partitioned''"
| "DeviceAllocationMode_String DeviceAllocationModeVisibility = ''Visibility''"
| "DeviceAllocationMode_String _ = ''None''"

section \<open>Placements, profiles and capabilities\<close>

record AcceleratorPlacement =
  pl_Start :: int
  pl_Length :: int

record AcceleratorPhysicalSlicedProfile =
  pp_Name :: string
  pp_MemoryMib :: int
  pp_ComputeSlices :: int
  pp_MemorySlices :: int
  pp_Count :: int
  pp_Placements :: "AcceleratorPlacement list"

record AcceleratorLogicalSliced =
  ls_CoresPercentageOvercommit :: bool
  ls_Count :: int

record AcceleratorPhysicalSliced =
  ps_Profiles :: "AcceleratorPhysicalSlicedProfile list"
  ps_Count :: int

record AcceleratorStatus =
  as_Unhealthy :: bool
  as_LogicalSliced :: AcceleratorLogicalSliced
  as_PhysicalSliced :: AcceleratorPhysicalSliced

definition zero_AcceleratorStatus :: AcceleratorStatus where
  "zero_AcceleratorStatus = \<lparr>as_Unhealthy = False,
     as_LogicalSliced = \<lparr>ls_CoresPercentageOvercommit = False, ls_Count = 0\<rparr>,
     as_PhysicalSliced = \<lparr>ps_Profiles = [], ps_Count = 0\<rparr>\<rparr>"

section \<open>The group-level slicing detail\<close>

record AcceleratorSlicedLogicalDetail =
  ld_CoresPercentageOvercommit :: bool
  ld_Count :: int

record AcceleratorSlicedPhysicalDetailProfile =
  dp_Name :: string
  dp_Count :: int
  dp_MemoryMib :: int

record AcceleratorSlicedPhysicalDetail =
  pd_Profiles :: "AcceleratorSlicedPhysicalDetailProfile list"
  pd_Count :: int

record AcceleratorSlicedDetail =
  sd_Logical :: AcceleratorSlicedLogicalDetail
  sd_Physical :: AcceleratorSlicedPhysicalDetail

definition zero_AcceleratorSlicedDetail :: AcceleratorSlicedDetail where
  "zero_AcceleratorSlicedDetail =
     \<lparr>sd_Logical = \<lparr>ld_CoresPercentageOvercommit = False, ld_Count = 0\<rparr>,
      sd_Physical = \<lparr>pd_Profiles = [], pd_Count = 0\<rparr>\<rparr>"

section \<open>Topology and network interfaces\<close>

record DeviceEthernet =
  de_IP :: string
  de_SubnetMask :: string
  de_Gateway :: string

record DeviceFabric =
  df_Kind :: string
  df_ID :: string
  df_Type :: string
  df_CliqueID :: string
  df_MemberCount :: nat
  df_NodeIndex :: string
  df_RackID :: string
  df_Endpoints :: "string list"

record DeviceTopology =
  dt_PciBusID :: string
  dt_PciRootID :: string
  dt_PciClass :: string
  dt_NumaAffinity :: string
  dt_CpuAffinity :: string
  dt_RoCE :: "DeviceEthernet option"
  dt_PciSwitches :: "string list"
  dt_Fabric :: "DeviceFabric option"

definition zero_DeviceTopology :: DeviceTopology where
  "zero_DeviceTopology = \<lparr>dt_PciBusID = [], dt_PciRootID = [], dt_PciClass = [],
     dt_NumaAffinity = [], dt_CpuAffinity = [], dt_RoCE = None, dt_PciSwitches = [],
     dt_Fabric = None\<rparr>"

record DeviceInterfaceLink =
  dl_State :: string
  dl_Reason :: string
  dl_FirstSeenTime :: "int option"

record DeviceInterfaceVirtualFunction =
  vf_Name :: string
  vf_PciBusID :: string
  vf_NumaAffinity :: string
  vf_CpuAffinity :: string
  vf_MTU :: int
  vf_Up :: bool
  vf_RDMA :: bool
  vf_RDMADevice :: string
  vf_Link :: "DeviceInterfaceLink option"

record DeviceInterface =
  di_Name :: string
  di_Bus :: string
  di_PciBusID :: string
  di_PciRootID :: string
  di_PciSwitches :: "string list"
  di_PciVendor :: string
  di_PciDevice :: string
  di_NumaAffinity :: string
  di_CpuAffinity :: string
  di_MTU :: int
  di_Up :: bool
  di_Virtual :: bool
  di_RDMA :: bool
  di_RDMADevice :: string
  di_SRIOV :: bool
  di_VirtualFunctions :: "DeviceInterfaceVirtualFunction list"
  di_Link :: "DeviceInterfaceLink option"

definition zero_DeviceInterface :: DeviceInterface where
  "zero_DeviceInterface = \<lparr>di_Name = [], di_Bus = [], di_PciBusID = [], di_PciRootID = [],
     di_PciSwitches = [], di_PciVendor = [], di_PciDevice = [], di_NumaAffinity = [],
     di_CpuAffinity = [], di_MTU = 0, di_Up = False, di_Virtual = False, di_RDMA = False,
     di_RDMADevice = [], di_SRIOV = False, di_VirtualFunctions = [], di_Link = None\<rparr>"

section \<open>The inventory\<close>

record Accelerator =
  ac_ID :: string
  ac_Index :: nat
  ac_PhysicalIndexes :: "nat list"
  ac_Topology :: DeviceTopology
  ac_Status :: AcceleratorStatus

definition zero_Accelerator :: Accelerator where
  "zero_Accelerator = \<lparr>ac_ID = [], ac_Index = 0, ac_PhysicalIndexes = [],
     ac_Topology = zero_DeviceTopology, ac_Status = zero_AcceleratorStatus\<rparr>"

record DevicesGroup =
  dg_ID :: string
  dg_Manufacturer :: string
  dg_Name :: string
  dg_Memory :: nat
  dg_Cores :: nat
  dg_DriverVersion :: string
  dg_RuntimeVersion :: string
  dg_ComputeCapability :: string
  dg_Family :: string
  dg_Accelerators :: "Accelerator list"
  dg_AcceleratorSlicedDetail :: AcceleratorSlicedDetail

definition zero_DevicesGroup :: DevicesGroup where
  "zero_DevicesGroup = \<lparr>dg_ID = [], dg_Manufacturer = [], dg_Name = [], dg_Memory = 0,
     dg_Cores = 0, dg_DriverVersion = [], dg_RuntimeVersion = [], dg_ComputeCapability = [],
     dg_Family = [], dg_Accelerators = [],
     dg_AcceleratorSlicedDetail = zero_AcceleratorSlicedDetail\<rparr>"

record DevicesSpec =
  sp_Groups :: "DevicesGroup list"
  sp_Interfaces :: "DeviceInterface list"

section \<open>The allocation ledger\<close>

record AcceleratorProfileCount =
  pc_Name :: string
  pc_Count :: int

record AcceleratorAllocation =
  aa_ID :: string
  aa_Index :: nat
  aa_Mode :: DeviceAllocationMode
  aa_Allocated :: int
  aa_Remaining :: int
  aa_AllocatedSlices :: int
  aa_AllocatedProfiles :: "AcceleratorProfileCount list"
  aa_RemainingProfiles :: "AcceleratorProfileCount list"
  aa_AllocatedPhysicalProfile :: string
  aa_AllocatedPhysicalPlacements :: "AcceleratorPlacement list"
  aa_AllocatedPhysicalID :: string
  aa_AllocatedLogicalPlacements :: "AcceleratorPlacement list"

definition zero_AcceleratorAllocation :: AcceleratorAllocation where
  "zero_AcceleratorAllocation = \<lparr>aa_ID = [], aa_Index = 0, aa_Mode = DeviceAllocationModeNone,
     aa_Allocated = 0, aa_Remaining = 0, aa_AllocatedSlices = 0, aa_AllocatedProfiles = [],
     aa_RemainingProfiles = [], aa_AllocatedPhysicalProfile = [],
     aa_AllocatedPhysicalPlacements = [], aa_AllocatedPhysicalID = [],
     aa_AllocatedLogicalPlacements = []\<rparr>"

record DevicesAllocationGroup =
  ag_ID :: string
  ag_Manufacturer :: string
  ag_Accelerators :: "AcceleratorAllocation list"

record DevicesRDMASelectionPolicyReference =
  pr_Name :: string
  pr_UID :: string
  pr_Generation :: int

record DevicesRDMAExclusion =
  ex_Name :: string
  ex_Reason :: string

record DevicesRDMASelectionPolicyStatus =
  rs_PolicyRef :: "DevicesRDMASelectionPolicyReference option"
  rs_Excluded :: "DevicesRDMAExclusion list"

record DevicesInterfacesStatus =
  is_RDMASelectionPolicy :: "DevicesRDMASelectionPolicyStatus option"

record Condition =
  cn_Type :: string
  cn_Status :: string
  cn_LastTransitionTime :: int
  cn_ObservedGeneration :: int
  cn_Reason :: string
  cn_Message :: string

record DevicesStatus =
  st_Groups :: "DevicesAllocationGroup list"
  st_Interfaces :: "DevicesInterfacesStatus option"
  st_Conditions :: "Condition list"

definition zero_DevicesStatus :: DevicesStatus where
  "zero_DevicesStatus = \<lparr>st_Groups = [], st_Interfaces = None, st_Conditions = []\<rparr>"

text \<open>Of the object metadata the program reads the name (the Node's name) and the labels.\<close>

record Devices =
  dv_Name :: string
  dv_Labels :: "(string, string) gomap"
  dv_Spec :: DevicesSpec
  dv_Status :: DevicesStatus

lemmas zero_defs = zero_Accelerator_def zero_DevicesGroup_def zero_AcceleratorStatus_def zero_AcceleratorSlicedDetail_def
  zero_DeviceTopology_def zero_DeviceInterface_def zero_AcceleratorAllocation_def
  zero_DevicesStatus_def

end
