(* ===== verification/Device_Placement.thy ===== *)
theory Device_Placement
  imports Device_Types
begin

text \<open>
  The pure decisions of \<open>pkg/device\<close>: which family an accelerator can serve
  (\<open>population.go\<close>), the interval arithmetic of hardware partitions
  (\<open>physical_placement.go\<close>), the group-level slicing detail (\<open>sliced.go\<close>) and the bus
  distance between an accelerator and a network interface (\<open>topology_distance.go\<close>).
\<close>

section \<open>Which family an accelerator serves\<close>

definition IsPartitioned :: "AcceleratorStatus \<Rightarrow> bool" where
  "IsPartitioned status \<longleftrightarrow> ps_Count (as_PhysicalSliced status) > 0"

definition IsLogicallySliceable :: "AcceleratorStatus \<Rightarrow> bool" where
  "IsLogicallySliceable status \<longleftrightarrow>
     ls_Count (as_LogicalSliced status) > 0 \<and> \<not> IsPartitioned status"

definition IsWholeAcceleratorCapable :: "AcceleratorStatus \<Rightarrow> bool" where
  "IsWholeAcceleratorCapable status \<longleftrightarrow> \<not> IsPartitioned status"

definition LogicalSlotsFree :: "AcceleratorStatus \<Rightarrow> int \<Rightarrow> int" where
  "LogicalSlotsFree status allocatedSlices =
     (if \<not> IsLogicallySliceable status then 0
      else wrap32 (ls_Count (as_LogicalSliced status) - allocatedSlices))"

section \<open>Placement intervals\<close>

definition placement_end :: "AcceleratorPlacement \<Rightarrow> int" where
  "placement_end p = wrap32 (pl_Start p + pl_Length p)"

definition placementOverlapsAny :: "AcceleratorPlacement \<Rightarrow> AcceleratorPlacement list \<Rightarrow> bool" where
  "placementOverlapsAny slot occupied =
     (let slotEnd = placement_end slot
      in \<exists>occ \<in> set occupied. pl_Start slot < placement_end occ \<and> pl_Start occ < slotEnd)"

fun lowestFreePlacement ::
    "AcceleratorPlacement list \<Rightarrow> AcceleratorPlacement list \<Rightarrow> AcceleratorPlacement option" where
  "lowestFreePlacement [] occupied = None"
| "lowestFreePlacement (p # possible) occupied =
     (if \<not> placementOverlapsAny p occupied then Some p
      else lowestFreePlacement possible occupied)"

definition occupiedLength :: "AcceleratorPlacement list \<Rightarrow> int" where
  "occupiedLength occupied = foldl (\<lambda>n occ. wrap32 (n + pl_Length occ)) 0 occupied"

definition ComputeRemainingProfiles ::
    "AcceleratorPlacement list \<Rightarrow> (string, AcceleratorPlacement list) gomap
      \<Rightarrow> (string, int) gomap" where
  "ComputeRemainingProfiles occupied possible =
     filter (\<lambda>(name, n). n > 0)
       (map (\<lambda>(name, slots).
          (name, wrap32 (int (length (filter (\<lambda>s. \<not> placementOverlapsAny s occupied) slots)))))
        possible)"

definition ProfileCountSlice :: "(string, int) gomap \<Rightarrow> AcceleratorProfileCount list" where
  "ProfileCountSlice counts =
     sort_key pc_Name (map (\<lambda>(name, c). \<lparr>pc_Name = name, pc_Count = c\<rparr>) counts)"

definition PartitionLedgerReady :: "AcceleratorAllocation option \<Rightarrow> bool" where
  "PartitionLedgerReady alloc =
     (case alloc of None \<Rightarrow> False
      | Some a \<Rightarrow> aa_AllocatedProfiles a \<noteq> [] \<or> aa_RemainingProfiles a \<noteq> [])"

section \<open>Choosing where partitions are built\<close>

record PartitionCandidate =
  cand_ID :: string
  cand_Possible :: "AcceleratorPlacement list"
  cand_Occupied :: "AcceleratorPlacement list"

record PartitionSelection =
  sel_ID :: string
  sel_Placement :: AcceleratorPlacement

definition PartitionCandidateFull :: "PartitionCandidate \<Rightarrow> bool" where
  "PartitionCandidateFull c \<longleftrightarrow> lowestFreePlacement (cand_Possible c) (cand_Occupied c) = None"

text \<open>The inner loop: the unused candidate with a free placement and the most occupied
  length, the first one among equals; \<open>best\<close> is \<open>None\<close> while the Go variable is \<open>-1\<close>.\<close>

definition consider_candidate ::
    "nat \<Rightarrow> PartitionCandidate \<Rightarrow> bool \<Rightarrow> (nat \<times> AcceleratorPlacement \<times> int) option
      \<Rightarrow> (nat \<times> AcceleratorPlacement \<times> int) option" where
  "consider_candidate i c used best =
     (if used then best
      else case lowestFreePlacement (cand_Possible c) (cand_Occupied c) of
        None \<Rightarrow> best
      | Some slot \<Rightarrow>
          (case best of
             None \<Rightarrow> Some (i, slot, occupiedLength (cand_Occupied c))
           | Some (_, _, bestRoom) \<Rightarrow>
               if occupiedLength (cand_Occupied c) > bestRoom
               then Some (i, slot, occupiedLength (cand_Occupied c)) else best))"

fun best_candidate ::
    "PartitionCandidate list \<Rightarrow> bool list \<Rightarrow> nat \<Rightarrow> (nat \<times> AcceleratorPlacement \<times> int) option
      \<Rightarrow> (nat \<times> AcceleratorPlacement \<times> int) option" where
  "best_candidate (c # cs) (u # us) i best =
     best_candidate cs us (Suc i) (consider_candidate i c u best)"
| "best_candidate _ _ _ best = best"

fun select_loop ::
    "PartitionCandidate list \<Rightarrow> nat \<Rightarrow> bool list \<Rightarrow> PartitionSelection list
      \<Rightarrow> PartitionSelection list option" where
  "select_loop candidates 0 used selections = Some selections"
| "select_loop candidates (Suc n) used selections =
     (case best_candidate candidates used 0 None of
        None \<Rightarrow> None
      | Some (i, slot, _) \<Rightarrow>
          select_loop candidates n (used[i := True])
            (selections @ [\<lparr>sel_ID = cand_ID (candidates ! i), sel_Placement = slot\<rparr>]))"

definition SelectPartitionPlacements ::
    "PartitionCandidate list \<Rightarrow> int \<Rightarrow> PartitionSelection list option" where
  "SelectPartitionPlacements candidates wanted =
     (if wanted \<le> 0 then Some []
      else select_loop candidates (nat wanted) (replicate (length candidates) False) [])"

section \<open>The group-level slicing detail\<close>

fun add_profile ::
    "AcceleratorPhysicalSlicedProfile
      \<Rightarrow> AcceleratorSlicedPhysicalDetailProfile list \<times> (string, nat) gomap
      \<Rightarrow> AcceleratorSlicedPhysicalDetailProfile list \<times> (string, nat) gomap" where
  "add_profile p (profiles, profileIndex) =
     (case map_of profileIndex (pp_Name p) of
        Some idx \<Rightarrow>
          (profiles[idx := (profiles ! idx)\<lparr>dp_Count :=
              wrap32 (dp_Count (profiles ! idx) + pp_Count p)\<rparr>], profileIndex)
      | None \<Rightarrow>
          (profiles @ [\<lparr>dp_Name = pp_Name p, dp_Count = pp_Count p, dp_MemoryMib = pp_MemoryMib p\<rparr>],
           map_put (pp_Name p) (length profiles) profileIndex))"

fun add_accelerator ::
    "Accelerator \<Rightarrow> AcceleratorSlicedDetail \<times> (string, nat) gomap
      \<Rightarrow> AcceleratorSlicedDetail \<times> (string, nat) gomap" where
  "add_accelerator acc (detail, profileIndex) =
     (let st = ac_Status acc;
          lg = sd_Logical detail;
          lg = lg\<lparr>ld_Count := wrap32 (ld_Count lg + ls_Count (as_LogicalSliced st))\<rparr>;
          lg = (if ls_Count (as_LogicalSliced st) > 0
                   \<and> ls_CoresPercentageOvercommit (as_LogicalSliced st)
                then lg\<lparr>ld_CoresPercentageOvercommit := True\<rparr> else lg);
          ph = sd_Physical detail;
          ph = ph\<lparr>pd_Count := wrap32 (pd_Count ph + ps_Count (as_PhysicalSliced st))\<rparr>;
          (profiles, profileIndex') =
             fold add_profile (ps_Profiles (as_PhysicalSliced st)) (pd_Profiles ph, profileIndex)
      in (\<lparr>sd_Logical = lg, sd_Physical = ph\<lparr>pd_Profiles := profiles\<rparr>\<rparr>, profileIndex'))"

definition AggregateAcceleratorSlicedDetail :: "Accelerator list \<Rightarrow> AcceleratorSlicedDetail" where
  "AggregateAcceleratorSlicedDetail accelerators =
     fst (fold add_accelerator accelerators (zero_AcceleratorSlicedDetail, []))"

definition SetGroupSlicedDetails :: "DevicesGroup list \<Rightarrow> DevicesGroup list" where
  "SetGroupSlicedDetails groups =
     map (\<lambda>g. g\<lparr>dg_AcceleratorSlicedDetail :=
                 AggregateAcceleratorSlicedDetail (dg_Accelerators g)\<rparr>) groups"

section \<open>Bus distance\<close>

type_synonym TopologyDistance = int

definition TopologyDistanceSelf :: TopologyDistance where "TopologyDistanceSelf = 0"
definition TopologyDistanceLink :: TopologyDistance where "TopologyDistanceLink = 5"
definition TopologyDistancePIX :: TopologyDistance where "TopologyDistancePIX = 10"
definition TopologyDistancePXB :: TopologyDistance where "TopologyDistancePXB = 20"
definition TopologyDistancePHB :: TopologyDistance where "TopologyDistancePHB = 30"
definition TopologyDistanceNode :: TopologyDistance where "TopologyDistanceNode = 40"
definition TopologyDistanceSys :: TopologyDistance where "TopologyDistanceSys = 50"
definition TopologyDistanceUnknown :: TopologyDistance where "TopologyDistanceUnknown = 100"

lemmas distance_defs = TopologyDistanceSelf_def TopologyDistanceLink_def
  TopologyDistancePIX_def TopologyDistancePXB_def TopologyDistancePHB_def
  TopologyDistanceNode_def TopologyDistanceSys_def TopologyDistanceUnknown_def

definition TopologyDistance_String :: "TopologyDistance \<Rightarrow> string" where
  "TopologyDistance_String d =
     (if d = TopologyDistanceSelf then ''SELF''
      else if d = TopologyDistanceLink then ''LINK''
      else if d = TopologyDistancePIX then ''PIX''
      else if d = TopologyDistancePXB then ''PXB''
      else if d = TopologyDistancePHB then ''PHB''
      else if d = TopologyDistanceNode then ''NODE''
      else if d = TopologyDistanceSys then ''SYS''
      else ''UNK'')"

definition BusDistance :: "DeviceTopology \<Rightarrow> DeviceInterface \<Rightarrow> TopologyDistance" where
  "BusDistance accelerator iface =
     (if dt_PciBusID accelerator = [] \<or> di_PciBusID iface = []
         \<or> dt_PciRootID accelerator = [] \<or> di_PciRootID iface = []
      then TopologyDistanceUnknown
      else if dt_PciSwitches accelerator \<noteq> [] \<and> di_PciSwitches iface \<noteq> []
         \<and> hd (dt_PciSwitches accelerator) = hd (di_PciSwitches iface)
      then TopologyDistancePIX
      else if dt_PciRootID accelerator = di_PciRootID iface then TopologyDistancePXB
      else if dt_NumaAffinity accelerator = [] \<or> di_NumaAffinity iface = []
      then TopologyDistanceUnknown
      else if dt_NumaAffinity accelerator = di_NumaAffinity iface then TopologyDistanceNode
      else TopologyDistanceSys)"

section \<open>Facts about capabilities\<close>

lemma family_populations_disjoint:
  "\<not> (IsLogicallySliceable st \<and> IsPartitioned st)"
  "\<not> (IsWholeAcceleratorCapable st \<and> IsPartitioned st)"
  "IsLogicallySliceable st \<Longrightarrow> IsWholeAcceleratorCapable st"
  by (auto simp: IsLogicallySliceable_def IsWholeAcceleratorCapable_def)

lemma LogicalSlotsFree_eq [go_int]:
  "IsLogicallySliceable st \<Longrightarrow> int32 (ls_Count (as_LogicalSliced st) - n)
     \<Longrightarrow> LogicalSlotsFree st n = ls_Count (as_LogicalSliced st) - n"
  by (simp add: LogicalSlotsFree_def wrap32_id)

section \<open>Facts about intervals\<close>

definition interval :: "AcceleratorPlacement \<Rightarrow> int set" where
  "interval p = {pl_Start p ..< pl_Start p + pl_Length p}"

definition valid_placement :: "AcceleratorPlacement \<Rightarrow> bool" where
  "valid_placement p \<longleftrightarrow> 0 \<le> pl_Start p \<and> 0 < pl_Length p \<and> int32 (pl_Start p + pl_Length p)"

lemma placement_end_valid [simp]:
  "valid_placement p \<Longrightarrow> placement_end p = pl_Start p + pl_Length p"
  by (simp add: placement_end_def valid_placement_def wrap32_id)

lemma interval_meets_iff:
  assumes "valid_placement p" and "valid_placement q"
  shows "interval p \<inter> interval q \<noteq> {} \<longleftrightarrow>
         pl_Start p < pl_Start q + pl_Length q \<and> pl_Start q < pl_Start p + pl_Length p"
proof
  assume "pl_Start p < pl_Start q + pl_Length q \<and> pl_Start q < pl_Start p + pl_Length p"
  with assms have "max (pl_Start p) (pl_Start q) \<in> interval p \<inter> interval q"
    by (auto simp: interval_def valid_placement_def)
  then show "interval p \<inter> interval q \<noteq> {}" by blast
qed (auto simp: interval_def)

lemma overlap_iff_interval:
  assumes "valid_placement slot" and "\<forall>q \<in> set occupied. valid_placement q"
  shows "placementOverlapsAny slot occupied \<longleftrightarrow>
         interval slot \<inter> (\<Union>q \<in> set occupied. interval q) \<noteq> {}"
proof -
  have "placementOverlapsAny slot occupied \<longleftrightarrow>
        (\<exists>q \<in> set occupied. interval slot \<inter> interval q \<noteq> {})"
    unfolding placementOverlapsAny_def Let_def
    by (rule bex_cong [OF refl]) (use assms in \<open>simp add: interval_meets_iff\<close>)
  then show ?thesis by blast
qed

lemma placementOverlapsAny_append:
  "placementOverlapsAny s (xs @ ys) \<longleftrightarrow> placementOverlapsAny s xs \<or> placementOverlapsAny s ys"
  by (auto simp: placementOverlapsAny_def Let_def)

lemma lowestFreePlacement_find:
  "lowestFreePlacement possible occupied = find (\<lambda>p. \<not> placementOverlapsAny p occupied) possible"
  by (induction possible) auto

lemma lowestFreePlacement_None:
  "lowestFreePlacement possible occupied = None \<longleftrightarrow>
   (\<forall>p \<in> set possible. placementOverlapsAny p occupied)"
  by (induction possible) auto

lemma lowestFreePlacement_free:
  "lowestFreePlacement possible occupied = Some p
     \<Longrightarrow> p \<in> set possible \<and> \<not> placementOverlapsAny p occupied"
  by (induction possible) (auto split: if_splits)

section \<open>Facts about the selection of partitions\<close>

definition free_indices :: "PartitionCandidate list \<Rightarrow> bool list \<Rightarrow> nat set" where
  "free_indices cs us = {k. k < length cs \<and> \<not> us ! k \<and> \<not> PartitionCandidateFull (cs ! k)}"

abbreviation room :: "PartitionCandidate \<Rightarrow> int" where
  "room c \<equiv> occupiedLength (cand_Occupied c)"

abbreviation slot_of :: "PartitionCandidate \<Rightarrow> AcceleratorPlacement option" where
  "slot_of c \<equiv> lowestFreePlacement (cand_Possible c) (cand_Occupied c)"

lemma finite_free_indices [simp]: "finite (free_indices cs us)"
  by (simp add: free_indices_def)

lemma free_indices_Cons:
  "free_indices (c # cs) (u # us) =
     (if u \<or> PartitionCandidateFull c then {} else {0}) \<union> Suc ` free_indices cs us"
proof -
  have "k \<in> free_indices (c # cs) (u # us) \<longleftrightarrow>
        k \<in> (if u \<or> PartitionCandidateFull c then {} else {0}) \<union> Suc ` free_indices cs us" for k
    by (cases k) (auto simp: free_indices_def)
  then show ?thesis by blast
qed

lemma consider_Some:
  "consider_candidate i c u best = Some (j, s, r) \<Longrightarrow>
     best = Some (j, s, r) \<or> (\<not> u \<and> j = i \<and> slot_of c = Some s \<and> r = room c)"
  by (auto simp: consider_candidate_def split: if_splits option.splits)

lemma consider_max:
  "consider_candidate i c u best = Some (j, s, r) \<Longrightarrow>
     (\<not> u \<longrightarrow> \<not> PartitionCandidateFull c \<longrightarrow> room c \<le> r)
     \<and> (\<forall>j' s' r'. best = Some (j', s', r') \<longrightarrow> r' \<le> r)"
  by (auto simp: consider_candidate_def PartitionCandidateFull_def split: if_splits option.splits)

lemma consider_None:
  "consider_candidate i c u best = None \<longleftrightarrow> best = None \<and> (u \<or> PartitionCandidateFull c)"
  by (auto simp: consider_candidate_def PartitionCandidateFull_def split: if_splits option.splits)

lemma best_candidate_None:
  "length us = length cs \<Longrightarrow>
     best_candidate cs us i best = None \<longleftrightarrow> best = None \<and> free_indices cs us = {}"
  by (induction cs us i best rule: best_candidate.induct)
    (auto simp: free_indices_Cons consider_None, auto simp: free_indices_def)

lemma best_candidate_source:
  "best_candidate cs us i best = Some (j, s, r) \<Longrightarrow> length us = length cs \<Longrightarrow>
     best = Some (j, s, r) \<or>
     (\<exists>k \<in> free_indices cs us. j = i + k \<and> slot_of (cs ! k) = Some s \<and> r = room (cs ! k))"
proof (induction cs us i best rule: best_candidate.induct)
  case (1 c cs u us i best)
  then consider "consider_candidate i c u best = Some (j, s, r)"
    | k where "k \<in> free_indices cs us" "j = Suc i + k" "slot_of (cs ! k) = Some s" "r = room (cs ! k)"
    by auto
  then show ?case
  proof cases
    case 1
    then show ?thesis
      by (auto dest!: consider_Some simp: free_indices_Cons PartitionCandidateFull_def)
  next
    case 2
    then show ?thesis
      by (intro disjI2 bexI [of _ "Suc k"]) (auto simp: free_indices_Cons)
  qed
qed auto

lemma best_candidate_max:
  "best_candidate cs us i best = Some (j, s, r) \<Longrightarrow> length us = length cs \<Longrightarrow>
     (\<forall>k \<in> free_indices cs us. room (cs ! k) \<le> r)
     \<and> (\<forall>j' s' r'. best = Some (j', s', r') \<longrightarrow> r' \<le> r)"
proof (induction cs us i best rule: best_candidate.induct)
  case (1 c cs u us i best)
  have run: "best_candidate cs us (Suc i) (consider_candidate i c u best) = Some (j, s, r)"
    and len: "length us = length cs" using "1.prems" by simp_all
  note IH = "1.IH" [OF run len]
  have rest: "\<forall>k \<in> free_indices cs us. room (cs ! k) \<le> r" by (rule conjunct1 [OF IH])
  show ?case
  proof (cases "consider_candidate i c u best")
    case None
    then have "best = None" and "u \<or> PartitionCandidateFull c" by (simp_all add: consider_None)
    with rest show ?thesis by (simp add: free_indices_Cons)
  next
    case (Some b)
    obtain j1 s1 r1 where b: "consider_candidate i c u best = Some (j1, s1, r1)"
      using Some by (cases b) simp
    have le: "r1 \<le> r" by (rule conjunct2 [OF IH, rule_format, OF b])
    note cm = consider_max [OF b]
    have "room c \<le> r" if "\<not> u" "\<not> PartitionCandidateFull c"
      using conjunct1 [OF cm] that le by simp
    moreover have "r' \<le> r" if "best = Some (j', s', r')" for j' s' r'
      using conjunct2 [OF cm, rule_format, OF that] le by simp
    ultimately show ?thesis using rest by (simp add: free_indices_Cons)
  qed
qed (auto simp: free_indices_def)

lemma best_candidate_pick:
  assumes "best_candidate cs us 0 None = Some (j, s, r)" and "length us = length cs"
  shows "j \<in> free_indices cs us" and "slot_of (cs ! j) = Some s" and "r = room (cs ! j)"
    and "\<forall>k \<in> free_indices cs us. room (cs ! k) \<le> room (cs ! j)"
  using best_candidate_source [OF assms] best_candidate_max [OF assms] by auto

lemma free_indices_use:
  "j \<in> free_indices cs us \<Longrightarrow> length us = length cs \<Longrightarrow>
     free_indices cs (us[j := True]) = free_indices cs us - {j}"
  by (auto simp: free_indices_def nth_list_update split: if_splits)

text \<open>What one run of the selection promises about the indices it chose.\<close>

definition selected ::
    "PartitionCandidate list \<Rightarrow> nat set \<Rightarrow> nat list \<Rightarrow> PartitionSelection list \<Rightarrow> bool" where
  "selected cs free idxs sels \<longleftrightarrow>
     distinct idxs \<and> set idxs \<subseteq> free
     \<and> sels = map (\<lambda>i. \<lparr>sel_ID = cand_ID (cs ! i), sel_Placement = the (slot_of (cs ! i))\<rparr>) idxs
     \<and> sorted_wrt (\<lambda>i j. room (cs ! j) \<le> room (cs ! i)) idxs
     \<and> (\<forall>i \<in> set idxs. \<forall>k \<in> free - set idxs. room (cs ! k) \<le> room (cs ! i))"

lemma select_loop_sound:
  "select_loop cs n used acc = Some sels \<Longrightarrow> length used = length cs \<Longrightarrow>
     \<exists>idxs. length idxs = n \<and> (\<exists>new. sels = acc @ new \<and> selected cs (free_indices cs used) idxs new)"
proof (induction cs n used acc rule: select_loop.induct)
  case (1 cs used acc)
  then show ?case by (auto simp: selected_def)
next
  case (2 cs n used acc)
  then obtain i s r where pick: "best_candidate cs used 0 None = Some (i, s, r)"
    by (auto split: option.splits)
  note facts = best_candidate_pick [OF pick "2.prems"(2)]
  let ?sel = "\<lparr>sel_ID = cand_ID (cs ! i), sel_Placement = s\<rparr>"
  obtain idxs new where idxs: "length idxs = n" "sels = (acc @ [?sel]) @ new"
      "selected cs (free_indices cs (used[i := True])) idxs new"
    using "2.IH" [OF pick refl refl] "2.prems" pick by auto
  have "selected cs (free_indices cs used) (i # idxs) (?sel # new)"
    using idxs(3) facts free_indices_use [OF facts(1) "2.prems"(2)]
    by (auto simp: selected_def)
  with idxs(1,2) show ?case by (intro exI [of _ "i # idxs"]) auto
qed

lemma select_loop_None:
  "length used = length cs \<Longrightarrow>
     select_loop cs n used acc = None \<longleftrightarrow> card (free_indices cs used) < n"
proof (induction cs n used acc rule: select_loop.induct)
  case (2 cs n used acc)
  show ?case
  proof (cases "best_candidate cs used 0 None")
    case None
    then have "free_indices cs used = {}"
      using "2.prems" by (simp add: best_candidate_None)
    with None show ?thesis by simp
  next
    case (Some p)
    obtain i s r where p: "p = (i, s, r)" by (cases p)
    note facts = best_candidate_pick [OF Some [unfolded p] "2.prems"]
    have "card (free_indices cs used) = Suc (card (free_indices cs (used[i := True])))"
      using facts(1) by (simp add: free_indices_use [OF facts(1) "2.prems"] card.remove [of _ i] del: card_Diff_insert)
    then show ?thesis using "2.IH" [OF Some p [symmetric] refl] "2.prems" Some p by simp
  qed
qed simp

lemma selection_indices:
  assumes "SelectPartitionPlacements candidates wanted = Some sels"
  shows "\<exists>idxs. length idxs = nat wanted
    \<and> selected candidates {k. k < length candidates \<and> \<not> PartitionCandidateFull (candidates ! k)} idxs sels"
proof (cases "wanted \<le> 0")
  case True
  with assms show ?thesis by (auto simp: SelectPartitionPlacements_def selected_def)
next
  case False
  let ?used = "replicate (length candidates) False"
  have "free_indices candidates ?used = {k. k < length candidates \<and> \<not> PartitionCandidateFull (candidates ! k)}"
    by (auto simp: free_indices_def)
  then show ?thesis
    using assms False select_loop_sound [of candidates "nat wanted" ?used "[]" sels]
    by (auto simp: SelectPartitionPlacements_def)
qed

text \<open>C11: A successful selection places exactly the requested number of instances, at most one
  per accelerator; each goes to the first legal placement of its accelerator that is free;
  accelerators are taken most-occupied first, and none that was passed over is fuller than one
  that was taken.\<close>

theorem SelectPartitionPlacements_sound:
  assumes "SelectPartitionPlacements candidates wanted = Some sels"
  shows "\<exists>idxs. length idxs = nat wanted \<and> distinct idxs \<and> set idxs \<subseteq> {..<length candidates}
    \<and> sels = map (\<lambda>i. \<lparr>sel_ID = cand_ID (candidates ! i),
         sel_Placement = the (lowestFreePlacement (cand_Possible (candidates ! i))
                                                  (cand_Occupied (candidates ! i)))\<rparr>) idxs
    \<and> (\<forall>i \<in> set idxs. \<exists>slot \<in> set (cand_Possible (candidates ! i)).
         lowestFreePlacement (cand_Possible (candidates ! i)) (cand_Occupied (candidates ! i)) = Some slot
         \<and> \<not> placementOverlapsAny slot (cand_Occupied (candidates ! i)))
    \<and> sorted_wrt (\<lambda>i j. occupiedLength (cand_Occupied (candidates ! j))
                        \<le> occupiedLength (cand_Occupied (candidates ! i))) idxs
    \<and> (\<forall>i \<in> set idxs. \<forall>k < length candidates. k \<notin> set idxs
         \<longrightarrow> \<not> PartitionCandidateFull (candidates ! k)
         \<longrightarrow> occupiedLength (cand_Occupied (candidates ! k))
             \<le> occupiedLength (cand_Occupied (candidates ! i)))"
proof -
  obtain idxs where idxs: "length idxs = nat wanted"
      "selected candidates {k. k < length candidates \<and> \<not> PartitionCandidateFull (candidates ! k)} idxs sels"
    using selection_indices [OF assms] by blast
  have legal: "\<exists>slot \<in> set (cand_Possible (candidates ! i)). slot_of (candidates ! i) = Some slot
         \<and> \<not> placementOverlapsAny slot (cand_Occupied (candidates ! i))"
    if "i \<in> set idxs" for i
  proof -
    have "\<not> PartitionCandidateFull (candidates ! i)"
      using idxs(2) that by (auto simp: selected_def)
    then obtain slot where "slot_of (candidates ! i) = Some slot"
      by (auto simp: PartitionCandidateFull_def)
    then show ?thesis using lowestFreePlacement_free by blast
  qed
  have bound: "set idxs \<subseteq> {..<length candidates}"
    using idxs(2) by (auto simp: selected_def)
  show ?thesis
    by (rule exI [of _ idxs]) (use idxs legal bound in \<open>simp add: selected_def\<close>)
qed

definition example_candidates :: "PartitionCandidate list" where
  "example_candidates =
     [\<lparr>cand_ID = ''a'', cand_Possible = [\<lparr>pl_Start = 0, pl_Length = 2\<rparr>, \<lparr>pl_Start = 2, pl_Length = 2\<rparr>],
       cand_Occupied = []\<rparr>,
      \<lparr>cand_ID = ''b'', cand_Possible = [\<lparr>pl_Start = 0, pl_Length = 2\<rparr>, \<lparr>pl_Start = 2, pl_Length = 2\<rparr>],
       cand_Occupied = [\<lparr>pl_Start = 0, pl_Length = 1\<rparr>]\<rparr>]"

theorem SelectPartitionPlacements_sound_witness:
  "SelectPartitionPlacements example_candidates 1
      = Some [\<lparr>sel_ID = ''b'', sel_Placement = \<lparr>pl_Start = 2, pl_Length = 2\<rparr>\<rparr>]
   \<and> (\<exists>idxs. length idxs = 1 \<and> distinct idxs \<and> set idxs \<subseteq> {..<length example_candidates}
     \<and> (\<forall>i \<in> set idxs. \<forall>k < length example_candidates. k \<notin> set idxs
         \<longrightarrow> \<not> PartitionCandidateFull (example_candidates ! k)
         \<longrightarrow> occupiedLength (cand_Occupied (example_candidates ! k))
             \<le> occupiedLength (cand_Occupied (example_candidates ! i))))"
proof -
  have h: "SelectPartitionPlacements example_candidates 1
      = Some [\<lparr>sel_ID = ''b'', sel_Placement = \<lparr>pl_Start = 2, pl_Length = 2\<rparr>\<rparr>]" by code_simp
  obtain idxs where "length idxs = nat 1" "distinct idxs" "set idxs \<subseteq> {..<length example_candidates}"
    "\<forall>i \<in> set idxs. \<forall>k < length example_candidates. k \<notin> set idxs
         \<longrightarrow> \<not> PartitionCandidateFull (example_candidates ! k)
         \<longrightarrow> occupiedLength (cand_Occupied (example_candidates ! k))
             \<le> occupiedLength (cand_Occupied (example_candidates ! i))"
    using SelectPartitionPlacements_sound [OF h] by blast
  with h show ?thesis by (intro conjI exI [of _ idxs]) simp_all
qed

text \<open>C12: The selection fails exactly when fewer accelerators than requested still have a free
  legal placement; it never refuses a request the candidates could host.\<close>

theorem SelectPartitionPlacements_complete:
  "SelectPartitionPlacements candidates wanted = None \<longleftrightarrow>
     int (length (filter (\<lambda>c. \<not> PartitionCandidateFull c) candidates)) < wanted \<and> 0 < wanted"
proof -
  let ?used = "replicate (length candidates) False"
  have "free_indices candidates ?used
      = {k. k < length candidates \<and> \<not> PartitionCandidateFull (candidates ! k)}"
    by (auto simp: free_indices_def)
  then have "card (free_indices candidates ?used)
      = length (filter (\<lambda>c. \<not> PartitionCandidateFull c) candidates)"
    by (simp add: length_filter_conv_card)
  then show ?thesis
    using select_loop_None [of ?used candidates "nat wanted" "[]"]
    by (auto simp: SelectPartitionPlacements_def)
qed

section \<open>Facts about the profile ledger\<close>

lemma map_of_filter_values:
  "wf_map m \<Longrightarrow> map_of (filter (\<lambda>(k, v). P v) m) k =
     (case map_of m k of None \<Rightarrow> None | Some v \<Rightarrow> if P v then Some v else None)"
  by (induction m) (auto simp: wf_map_def map_of_eq_None_iff split: option.splits)

lemma wf_map_map_values [simp]: "wf_map (map (\<lambda>(k, v). (k, f v)) m) = wf_map m"
  by (simp add: wf_map_def case_prod_beta' comp_def)

lemma map_of_map_values: "map_of (map (\<lambda>(k, v). (k, f v)) m) k = map_option f (map_of m k)"
  by (induction m) auto

definition free_slots :: "AcceleratorPlacement list \<Rightarrow> AcceleratorPlacement list \<Rightarrow> nat" where
  "free_slots occupied slots = length (filter (\<lambda>s. \<not> placementOverlapsAny s occupied) slots)"

lemma ComputeRemainingProfiles_lookup:
  assumes "wf_map possible"
  shows "map_of (ComputeRemainingProfiles occupied possible) name =
     (case map_of possible name of None \<Rightarrow> None
      | Some slots \<Rightarrow> if wrap32 (int (free_slots occupied slots)) > 0
                      then Some (wrap32 (int (free_slots occupied slots))) else None)"
proof -
  have "map_of (ComputeRemainingProfiles occupied possible) name =
     (case map_of (map (\<lambda>(k, slots). (k, wrap32 (int (free_slots occupied slots)))) possible) name of
        None \<Rightarrow> None | Some v \<Rightarrow> if 0 < v then Some v else None)"
    unfolding ComputeRemainingProfiles_def free_slots_def [symmetric]
    by (rule map_of_filter_values) (simp add: assms)
  then show ?thesis by (auto simp: map_of_map_values split: option.splits)
qed

lemma remaining_profiles_intervals:
  assumes "wf_map possible" and "map_of possible name = Some slots"
    and "\<forall>s \<in> set slots. valid_placement s" and "\<forall>q \<in> set occupied. valid_placement q"
    and "length slots < 2147483648"
  shows "map_get (ComputeRemainingProfiles occupied possible) name 0 =
      int (length (filter (\<lambda>s. interval s \<inter> (\<Union>q \<in> set occupied. interval q) = {}) slots))
    \<and> (has_key (ComputeRemainingProfiles occupied possible) name \<longleftrightarrow>
      \<not> PartitionCandidateFull \<lparr>cand_ID = i, cand_Possible = slots, cand_Occupied = occupied\<rparr>)"
proof (rule conjI)
  have flt: "filter (\<lambda>s. \<not> placementOverlapsAny s occupied) slots =
      filter (\<lambda>s. interval s \<inter> (\<Union>q \<in> set occupied. interval q) = {}) slots"
    by (rule filter_cong [OF refl]) (use assms overlap_iff_interval in auto)
  have "free_slots occupied slots \<le> length slots" by (simp add: free_slots_def)
  with assms(5) have nowrap: "wrap32 (int (free_slots occupied slots)) = int (free_slots occupied slots)"
    by (intro wrap32_id) (simp add: int32_def)
  show "map_get (ComputeRemainingProfiles occupied possible) name 0 =
      int (length (filter (\<lambda>s. interval s \<inter> (\<Union>q \<in> set occupied. interval q) = {}) slots))"
    by (simp add: map_get_def ComputeRemainingProfiles_lookup [OF assms(1)] assms(2) nowrap)
      (simp add: free_slots_def flt)
  show "has_key (ComputeRemainingProfiles occupied possible) name \<longleftrightarrow>
      \<not> PartitionCandidateFull \<lparr>cand_ID = i, cand_Possible = slots, cand_Occupied = occupied\<rparr>"
    by (simp add: has_key_def ComputeRemainingProfiles_lookup [OF assms(1)] assms(2) nowrap
        PartitionCandidateFull_def lowestFreePlacement_None)
      (auto simp: free_slots_def filter_empty_conv)
qed

text \<open>C13: On an accelerator whose recorded intervals are well-formed, the remaining count of a
  profile is the number of its legal placements whose interval is disjoint from every occupied
  interval, and the profile is omitted exactly when that number is zero, which is exactly when
  the selection would pass the accelerator over.\<close>

theorem ComputeRemainingProfiles_intervals:
  assumes "wf_map possible" and "map_of possible name = Some slots"
    and "\<forall>s \<in> set slots. valid_placement s" and "\<forall>q \<in> set occupied. valid_placement q"
    and "length slots < 2147483648"
  shows "map_get (ComputeRemainingProfiles occupied possible) name 0 =
      int (length (filter (\<lambda>s. interval s \<inter> (\<Union>q \<in> set occupied. interval q) = {}) slots))
    \<and> (has_key (ComputeRemainingProfiles occupied possible) name \<longleftrightarrow>
      \<not> PartitionCandidateFull \<lparr>cand_ID = i, cand_Possible = slots, cand_Occupied = occupied\<rparr>)"
  using assms by (rule remaining_profiles_intervals)

theorem ComputeRemainingProfiles_intervals_witness:
  "map_get (ComputeRemainingProfiles [\<lparr>pl_Start = 0, pl_Length = 1\<rparr>]
      [(''1g'', [\<lparr>pl_Start = 0, pl_Length = 1\<rparr>, \<lparr>pl_Start = 1, pl_Length = 1\<rparr>])]) ''1g'' 0 = 1"
  using ComputeRemainingProfiles_intervals [of
      "[(''1g'', [\<lparr>pl_Start = 0, pl_Length = 1\<rparr>, \<lparr>pl_Start = 1, pl_Length = 1\<rparr>])]" "''1g''"
      "[\<lparr>pl_Start = 0, pl_Length = 1\<rparr>, \<lparr>pl_Start = 1, pl_Length = 1\<rparr>]"
      "[\<lparr>pl_Start = 0, pl_Length = 1\<rparr>]"]
  by (simp add: wf_map_def valid_placement_def int32_def interval_def)

lemma ProfileCountSlice_set:
  "set (ProfileCountSlice counts) = (\<lambda>(n, c). \<lparr>pc_Name = n, pc_Count = c\<rparr>) ` set counts"
  by (auto simp: ProfileCountSlice_def)

lemma ProfileCountSlice_names: "mset (map pc_Name (ProfileCountSlice counts)) = mset (map fst counts)"
  by (simp add: ProfileCountSlice_def case_prod_beta' multiset.map_comp comp_def)

lemma ProfileCountSlice_sorted: "sorted (map pc_Name (ProfileCountSlice counts))"
  by (simp add: ProfileCountSlice_def)

lemma ProfileCountSlice_distinct:
  "wf_map counts \<Longrightarrow> distinct (map pc_Name (ProfileCountSlice counts))"
  by (metis ProfileCountSlice_names mset_eq_imp_distinct_iff wf_map_def)

lemma ProfileCountSlice_order_free:
  assumes "wf_map counts" and "mset counts = mset counts'"
  shows "ProfileCountSlice counts = ProfileCountSlice counts'"
  unfolding ProfileCountSlice_def
proof (rule sort_key_inj_key_eq)
  show "mset (map (\<lambda>(n, c). \<lparr>pc_Name = n, pc_Count = c\<rparr>) counts) =
        mset (sort_key pc_Name (map (\<lambda>(n, c). \<lparr>pc_Name = n, pc_Count = c\<rparr>) counts'))"
    by (simp add: assms(2))
  show "inj_on pc_Name (set (map (\<lambda>(n, c). \<lparr>pc_Name = n, pc_Count = c\<rparr>) counts))"
    using assms(1) by (force simp: wf_map_def inj_on_def distinct_map)
qed simp

section \<open>Facts about the slicing detail\<close>

definition profile_total :: "AcceleratorPhysicalSlicedProfile list \<Rightarrow> string \<Rightarrow> int" where
  "profile_total xs n = sum_list (map pp_Count (filter (\<lambda>x. pp_Name x = n) xs))"

definition indexed ::
    "AcceleratorSlicedPhysicalDetailProfile list \<Rightarrow> (string, nat) gomap \<Rightarrow> bool" where
  "indexed ps ix \<longleftrightarrow> (\<forall>n k. map_of ix n = Some k \<longleftrightarrow> k < length ps \<and> dp_Name (ps ! k) = n)"

lemma indexed_lookup:
  "indexed ps ix \<Longrightarrow> k < length ps \<Longrightarrow> map_of ix (dp_Name (ps ! k)) = Some k"
  by (simp add: indexed_def)

lemma indexed_distinct: "indexed ps ix \<Longrightarrow> distinct (map dp_Name ps)"
  unfolding distinct_conv_nth
proof (intro allI impI)
  fix i j
  assume ix: "indexed ps ix" and i: "i < length (map dp_Name ps)" and j: "j < length (map dp_Name ps)"
    and "i \<noteq> j"
  then have "map_of ix (dp_Name (ps ! i)) = Some i" and "map_of ix (dp_Name (ps ! j)) = Some j"
    by (simp_all add: indexed_lookup)
  with \<open>i \<noteq> j\<close> i j show "map dp_Name ps ! i \<noteq> map dp_Name ps ! j" by auto
qed

lemma indexed_None: "indexed ps ix \<Longrightarrow> map_of ix n = None \<Longrightarrow> n \<notin> dp_Name ` set ps"
  by (auto simp: in_set_conv_nth indexed_lookup)

lemma indexed_iff: "indexed ps ix \<Longrightarrow>
    map_of ix n = Some k \<longleftrightarrow> k < length ps \<and> dp_Name (ps ! k) = n"
  by (simp add: indexed_def)

lemma indexed_append:
  assumes ix: "indexed ps ix" and new: "dp_Name p \<notin> dp_Name ` set ps"
  shows "indexed (ps @ [p]) (map_put (dp_Name p) (length ps) ix)"
  unfolding indexed_def
proof (intro allI)
  fix n k
  have old: "dp_Name (ps ! k) \<noteq> dp_Name p" if "k < length ps"
    using new nth_mem [OF that] by (metis image_eqI)
  consider "k < length ps" | "k = length ps" | "k > length ps" by linarith
  then show "map_of (map_put (dp_Name p) (length ps) ix) n = Some k \<longleftrightarrow>
      k < length (ps @ [p]) \<and> dp_Name ((ps @ [p]) ! k) = n"
    by cases (use old in \<open>simp_all add: map_of_put indexed_iff [OF ix] nth_append\<close>, (blast | auto)?)
qed

definition aggregated ::
    "AcceleratorPhysicalSlicedProfile list
      \<Rightarrow> AcceleratorSlicedPhysicalDetailProfile list \<times> (string, nat) gomap \<Rightarrow> bool" where
  "aggregated xs r \<longleftrightarrow> indexed (fst r) (snd r) \<and> dp_Name ` set (fst r) = pp_Name ` set xs
     \<and> (\<forall>p \<in> set (fst r). dp_Count p = wrap32 (profile_total xs (dp_Name p)))"

lemma add_profile_aggregated:
  assumes "aggregated xs (ps, ix)" and "int32 (pp_Count x)"
  shows "aggregated (xs @ [x]) (add_profile x (ps, ix))"
proof (cases "map_of ix (pp_Name x)")
  case None
  then have new: "pp_Name x \<notin> dp_Name ` set ps"
    using assms(1) by (intro indexed_None [of ps ix]) (simp_all add: aggregated_def)
  then have "pp_Name x \<notin> pp_Name ` set xs" using assms by (simp add: aggregated_def)
  then have "profile_total xs (pp_Name x) = 0"
    unfolding profile_total_def by (subst filter_False) (metis image_eqI, simp)
  then have tot: "profile_total (xs @ [x]) (pp_Name x) = pp_Count x"
    by (simp add: profile_total_def)
  have old: "profile_total (xs @ [x]) (dp_Name p) = profile_total xs (dp_Name p)" if "p \<in> set ps" for p
    using new that by (auto simp: profile_total_def)
  let ?p = "\<lparr>dp_Name = pp_Name x, dp_Count = pp_Count x, dp_MemoryMib = pp_MemoryMib x\<rparr>"
  have "indexed (ps @ [?p]) (map_put (pp_Name x) (length ps) ix)"
    using indexed_append [of ps ix ?p] assms(1) new by (simp add: aggregated_def)
  with None assms tot old show ?thesis
    by (simp add: aggregated_def wrap32_id)
next
  case (Some k)
  let ?p = "(ps ! k)\<lparr>dp_Count := wrap32 (dp_Count (ps ! k) + pp_Count x)\<rparr>"
  have ixd: "indexed ps ix" using assms(1) by (simp add: aggregated_def)
  have k: "k < length ps" "dp_Name (ps ! k) = pp_Name x"
    using Some by (simp_all add: indexed_iff [OF ixd])
  have uniq: "j = k" if "j < length ps" "dp_Name (ps ! j) = pp_Name x" for j
    using that Some indexed_lookup [OF ixd that(1)] by simp
  have names: "dp_Name (ps[k := ?p] ! j) = dp_Name (ps ! j)" if "j < length ps" for j
    using that k by (simp add: nth_list_update)
  have "indexed (ps[k := ?p]) ix"
    unfolding indexed_def using names by (auto simp: indexed_iff [OF ixd])
  moreover have "dp_Name ` set (ps[k := ?p]) = pp_Name ` set (xs @ [x])"
  proof -
    have "map dp_Name (ps[k := ?p]) = map dp_Name ps"
      using k by (intro nth_equalityI) (simp_all add: nth_list_update)
    then have "dp_Name ` set (ps[k := ?p]) = dp_Name ` set ps" by (metis image_set)
    moreover have "pp_Name x \<in> dp_Name ` set ps"
      using k by (metis image_eqI nth_mem)
    ultimately show ?thesis using assms(1) by (simp add: aggregated_def insert_absorb)
  qed
  moreover have "dp_Count (ps[k := ?p] ! j) = wrap32 (profile_total (xs @ [x]) (dp_Name (ps[k := ?p] ! j)))"
    if "j < length ps" for j
  proof (cases "j = k")
    case True
    have "dp_Count (ps ! k) = wrap32 (profile_total xs (pp_Name x))"
      using assms(1) k by (metis aggregated_def fst_conv nth_mem)
    with True k show ?thesis by (simp add: profile_total_def wrap32_add_left)
  next
    case False
    then have "dp_Name (ps ! j) \<noteq> pp_Name x" using uniq that by blast
    with False that assms(1) show ?thesis
      by (auto simp: aggregated_def profile_total_def)
  qed
  ultimately show ?thesis
    using Some by (auto simp: aggregated_def in_set_conv_nth)
qed

lemma fold_add_profile_aggregated:
  "\<forall>x \<in> set xs. int32 (pp_Count x) \<Longrightarrow> aggregated xs (fold add_profile xs ([], []))"
proof (induction xs rule: rev_induct)
  case Nil
  then show ?case by (simp add: aggregated_def indexed_def)
next
  case (snoc x xs)
  then show ?case
    using add_profile_aggregated [of xs "fst (fold add_profile xs ([], []))"
        "snd (fold add_profile xs ([], []))" x] by simp
qed

definition all_profiles :: "Accelerator list \<Rightarrow> AcceleratorPhysicalSlicedProfile list" where
  "all_profiles accs = concat (map (\<lambda>a. ps_Profiles (as_PhysicalSliced (ac_Status a))) accs)"

lemma fold_add_accelerator:
  "fold add_accelerator accs (zero_AcceleratorSlicedDetail, []) = (d, ix) \<Longrightarrow>
     (pd_Profiles (sd_Physical d), ix) = fold add_profile (all_profiles accs) ([], [])
     \<and> ld_Count (sd_Logical d)
         = wrap32 (\<Sum>a\<leftarrow>accs. ls_Count (as_LogicalSliced (ac_Status a)))
     \<and> pd_Count (sd_Physical d)
         = wrap32 (\<Sum>a\<leftarrow>accs. ps_Count (as_PhysicalSliced (ac_Status a)))
     \<and> (ld_CoresPercentageOvercommit (sd_Logical d) \<longleftrightarrow>
         (\<exists>a \<in> set accs. ls_Count (as_LogicalSliced (ac_Status a)) > 0
            \<and> ls_CoresPercentageOvercommit (as_LogicalSliced (ac_Status a))))"
proof (induction accs arbitrary: d ix rule: rev_induct)
  case Nil
  then show ?case by (auto simp: zero_AcceleratorSlicedDetail_def all_profiles_def wrap32_def)
next
  case (snoc a accs)
  obtain d0 ix0 where d0: "fold add_accelerator accs (zero_AcceleratorSlicedDetail, []) = (d0, ix0)"
    by fastforce
  obtain ps1 ix1 where ps1: "fold add_profile (ps_Profiles (as_PhysicalSliced (ac_Status a)))
      (pd_Profiles (sd_Physical d0), ix0) = (ps1, ix1)" by fastforce
  from snoc.IH [OF d0] snoc.prems ps1 show ?case
    by (auto simp: d0 all_profiles_def wrap32_add_left Let_def split: if_splits)
qed

text \<open>A group's slicing detail is the sum over its accelerators: the logical and physical
  ceilings are the (32-bit) sums of the per-accelerator ceilings, overcommit is set exactly when
  some logically sliceable accelerator sets it, and the profile list has one row per profile name
  occurring on any accelerator whose count is the sum of that name's counts.\<close>

theorem AggregateAcceleratorSlicedDetail_sums:
  assumes "\<forall>p \<in> set (all_profiles accs). int32 (pp_Count p)"
  shows "let d = AggregateAcceleratorSlicedDetail accs; ps = pd_Profiles (sd_Physical d) in
      ld_Count (sd_Logical d) = wrap32 (\<Sum>a\<leftarrow>accs. ls_Count (as_LogicalSliced (ac_Status a)))
    \<and> pd_Count (sd_Physical d) = wrap32 (\<Sum>a\<leftarrow>accs. ps_Count (as_PhysicalSliced (ac_Status a)))
    \<and> (ld_CoresPercentageOvercommit (sd_Logical d) \<longleftrightarrow>
         (\<exists>a \<in> set accs. ls_Count (as_LogicalSliced (ac_Status a)) > 0
            \<and> ls_CoresPercentageOvercommit (as_LogicalSliced (ac_Status a))))
    \<and> distinct (map dp_Name ps)
    \<and> dp_Name ` set ps = pp_Name ` set (all_profiles accs)
    \<and> (\<forall>p \<in> set ps. dp_Count p = wrap32 (profile_total (all_profiles accs) (dp_Name p)))"
proof -
  obtain d ix where d: "fold add_accelerator accs (zero_AcceleratorSlicedDetail, []) = (d, ix)"
    by fastforce
  note sums = fold_add_accelerator [OF d]
  have "aggregated (all_profiles accs) (pd_Profiles (sd_Physical d), ix)"
    using fold_add_profile_aggregated [OF assms] sums by simp
  then have "indexed (pd_Profiles (sd_Physical d)) ix"
    and "dp_Name ` set (pd_Profiles (sd_Physical d)) = pp_Name ` set (all_profiles accs)"
    and "\<forall>p \<in> set (pd_Profiles (sd_Physical d)).
           dp_Count p = wrap32 (profile_total (all_profiles accs) (dp_Name p))"
    unfolding aggregated_def fst_conv snd_conv by blast+
  with sums indexed_distinct show ?thesis
    unfolding AggregateAcceleratorSlicedDetail_def d fst_conv Let_def by blast
qed

definition example_sliced :: Accelerator where
  "example_sliced = zero_Accelerator\<lparr>ac_ID := ''gpu0'', ac_Status := zero_AcceleratorStatus
     \<lparr>as_PhysicalSliced := \<lparr>ps_Profiles = [\<lparr>pp_Name = ''1g'', pp_MemoryMib = 10, pp_ComputeSlices = 1,
        pp_MemorySlices = 1, pp_Count = 7, pp_Placements = []\<rparr>], ps_Count = 7\<rparr>\<rparr>\<rparr>"

theorem AggregateAcceleratorSlicedDetail_sums_witness:
  "pd_Count (sd_Physical (AggregateAcceleratorSlicedDetail [example_sliced, example_sliced])) = 14
   \<and> dp_Name ` set (pd_Profiles (sd_Physical
        (AggregateAcceleratorSlicedDetail [example_sliced, example_sliced]))) = {''1g''}"
  using AggregateAcceleratorSlicedDetail_sums [of "[example_sliced, example_sliced]"]
  by (simp add: example_sliced_def all_profiles_def int32_def wrap32_def Let_def)

section \<open>Facts about bus distance\<close>

text \<open>The bus distance takes one of five values and never claims more proximity than the
  coordinates support: it is a link, self or host-bridge distance never, closer than \<open>SYS\<close> only
  if the two devices share the innermost bridge, the outermost bridge or a known NUMA node, and
  unknown whenever a PCI coordinate is missing.\<close>

theorem BusDistance_never_overclaims:
  "BusDistance a i \<in> {TopologyDistancePIX, TopologyDistancePXB, TopologyDistanceNode,
                       TopologyDistanceSys, TopologyDistanceUnknown}
   \<and> (BusDistance a i < TopologyDistanceSys \<longleftrightarrow>
        dt_PciBusID a \<noteq> [] \<and> di_PciBusID i \<noteq> [] \<and> dt_PciRootID a \<noteq> [] \<and> di_PciRootID i \<noteq> []
        \<and> ((dt_PciSwitches a \<noteq> [] \<and> di_PciSwitches i \<noteq> []
             \<and> hd (dt_PciSwitches a) = hd (di_PciSwitches i))
           \<or> dt_PciRootID a = di_PciRootID i
           \<or> (dt_NumaAffinity a \<noteq> [] \<and> dt_NumaAffinity a = di_NumaAffinity i)))
   \<and> TopologyDistance_String (BusDistance a i) \<in> {''PIX'', ''PXB'', ''NODE'', ''SYS'', ''UNK''}"
  by (simp add: BusDistance_def TopologyDistance_String_def distance_defs)

end
