(* ===== verification/Resource_Names.thy ===== *)
theory Resource_Names
  imports Device_Types
begin

unbundle bit_operations_syntax

text \<open>
  The vocabulary of resource keys, \<open>pkg/nodefeature/knowns.go\<close>, with the label-key grammar it
  validates against (\<open>staging/k8s.io/apimachinery\<close>), the credits names of
  \<open>pkg/nodefeature/helper.go\<close> and the fit labels of \<open>pkg/nodefeature/fit.go\<close>. The package
  variables filled by \<open>init\<close> are the fields of a record \<open>Knowns\<close>; \<open>knowns_init\<close> builds it from the
  process environment (\<open>osx.Getenv\<close>, where an unset variable reads as the empty string), and
  \<open>default_knowns\<close> is the one of an environment without overrides. Strings are treated byte-wise,
  which is exact for the ASCII keys the program builds.
\<close>

section \<open>Label-key grammar\<close>

definition is_digit :: "char \<Rightarrow> bool" where "is_digit c \<longleftrightarrow> CHR ''0'' \<le> c \<and> c \<le> CHR ''9''"
definition is_lower :: "char \<Rightarrow> bool" where "is_lower c \<longleftrightarrow> CHR ''a'' \<le> c \<and> c \<le> CHR ''z''"
definition is_upper :: "char \<Rightarrow> bool" where "is_upper c \<longleftrightarrow> CHR ''A'' \<le> c \<and> c \<le> CHR ''Z''"

definition ToUpper :: "string \<Rightarrow> string" where
  "ToUpper = map (\<lambda>c. if is_lower c then char_of (of_char c - 32 :: nat) else c)"

definition ToLower :: "string \<Rightarrow> string" where
  "ToLower = map (\<lambda>c. if is_upper c then char_of (of_char c + 32 :: nat) else c)"

definition is_space :: "char \<Rightarrow> bool" where
  "is_space c \<longleftrightarrow> c \<in> set [CHR '' '', CHR 0x09, CHR 0x0A, CHR 0x0B, CHR 0x0C, CHR 0x0D]"

text \<open>\<open>strings.Fields\<close>: the maximal runs of non-space characters.\<close>

function Fields :: "string \<Rightarrow> string list" where
  "Fields s = (let t = dropWhile is_space s in
     if t = [] then []
     else takeWhile (\<lambda>c. \<not> is_space c) t # Fields (dropWhile (\<lambda>c. \<not> is_space c) t))"
  by pat_completeness auto
termination
proof (relation "measure length")
  fix s t :: string
  assume t: "t = dropWhile is_space s" "t \<noteq> []"
  then have "\<not> is_space (hd t)" by (metis hd_dropWhile)
  with t(2) have "length (dropWhile (\<lambda>c. \<not> is_space c) t) < length t"
    by (cases t) (simp_all add: le_imp_less_Suc length_dropWhile_le)
  with t show "(dropWhile (\<lambda>c. \<not> is_space c) t, s) \<in> measure length"
    by (simp add: less_le_trans [OF _ length_dropWhile_le])
qed simp

declare Fields.simps [simp del]

text \<open>A non-empty run of \<open>ext\<close> characters that starts and ends with an \<open>edge\<close> character:
  the shape of both regular expressions below.\<close>

definition bounded_run :: "(char \<Rightarrow> bool) \<Rightarrow> (char \<Rightarrow> bool) \<Rightarrow> string \<Rightarrow> bool" where
  "bounded_run edge ext s \<longleftrightarrow>
     s \<noteq> [] \<and> edge (hd s) \<and> edge (last s) \<and> list_all ext s"

definition IsDNS1123Subdomain :: "string \<Rightarrow> bool" where
  "IsDNS1123Subdomain value \<longleftrightarrow> length value \<le> 253
     \<and> list_all (bounded_run (\<lambda>c. is_lower c \<or> is_digit c)
                             (\<lambda>c. is_lower c \<or> is_digit c \<or> c = CHR ''-''))
         (Split value CHR ''.'')"

definition labelKeyRegexp :: "string \<Rightarrow> bool" where
  "labelKeyRegexp = bounded_run (\<lambda>c. is_lower c \<or> is_upper c \<or> is_digit c)
     (\<lambda>c. is_lower c \<or> is_upper c \<or> is_digit c \<or> c \<in> set ''-_.'')"

text \<open>Whether the list of errors \<open>IsLabelKey\<close> (alias \<open>IsQualifiedName\<close>) returns is empty.\<close>

definition IsQualifiedName :: "string \<Rightarrow> bool" where
  "IsQualifiedName value =
     (case Split value CHR ''/'' of
        [name] \<Rightarrow> name \<noteq> [] \<and> length name \<le> 63 \<and> labelKeyRegexp name
      | [prefix, name] \<Rightarrow> prefix \<noteq> [] \<and> IsDNS1123Subdomain prefix
          \<and> name \<noteq> [] \<and> length name \<le> 63 \<and> labelKeyRegexp name
      | _ \<Rightarrow> False)"

section \<open>The package variables\<close>

abbreviation "ManufacturerAMD \<equiv> ''amd''"
abbreviation "ManufacturerAscend \<equiv> ''ascend''"
abbreviation "ManufacturerCambricon \<equiv> ''cambricon''"
abbreviation "ManufacturerHygon \<equiv> ''hygon''"
abbreviation "ManufacturerIluvatar \<equiv> ''iluvatar''"
abbreviation "ManufacturerMetaX \<equiv> ''metax''"
abbreviation "ManufacturerMThreads \<equiv> ''mthreads''"
abbreviation "ManufacturerNVIDIA \<equiv> ''nvidia''"
abbreviation "ManufacturerTHead \<equiv> ''thead''"

abbreviation "SharedResourceNameSuffix \<equiv> ''.shared''"
abbreviation "SlicedResourceNameSuffix \<equiv> ''.sliced''"
abbreviation "SlicedUnitsResourceNameSuffix \<equiv> ''.sliced.units''"
abbreviation "SlicedCoresPercentageResourceNameSuffix \<equiv> ''.sliced.cores-percentage''"
abbreviation "SlicedMemoryPercentageResourceNameSuffix \<equiv> ''.sliced.memory-percentage''"
abbreviation "SlicedMemoryMibResourceNameSuffix \<equiv> ''.sliced.memory-mib''"
abbreviation "PartitionedResourceNameSuffix \<equiv> ''.partitioned''"
abbreviation "PartitionedUnitsResourceNameSuffix \<equiv> ''.partitioned.units''"
abbreviation "VisibilityResourceNamePrefix \<equiv> ''device.gpustack.ai/''"
abbreviation "VisibilityResourceNameSuffix \<equiv> ''.visibility''"

abbreviation ResourceMaxUnits :: int where "ResourceMaxUnits \<equiv> 1600000"
abbreviation SharedResourceMaxSize :: int where "SharedResourceMaxSize \<equiv> 10"
abbreviation SlicedResourceMaxSize :: int where "SlicedResourceMaxSize \<equiv> 512"

record Knowns =
  kn_PciVendorID :: "(string, string) gomap"
  kn_ResourceName :: "(string, string) gomap"
  kn_RuntimeName :: "(string, string) gomap"
  kn_PartitionKind :: "(string, string) gomap"
  kn_ProfilePrefix :: "(string, string) gomap"

definition env_override ::
    "(string \<Rightarrow> string) \<Rightarrow> string \<Rightarrow> string list \<Rightarrow> (string, string) gomap \<Rightarrow> (string, string) gomap" where
  "env_override getenv suffix manufacturers table =
     fold (\<lambda>m t. let v = getenv (''GPUSTACK_'' @ ToUpper m @ suffix)
                 in if v \<noteq> [] then map_put m v t else t) manufacturers table"

definition profile_prefixes ::
    "(string, string) gomap \<Rightarrow> (string, string) gomap \<Rightarrow> (string, string) gomap" where
  "profile_prefixes resNames kinds =
     fold (\<lambda>(m, kind) t. let resName = map_get resNames m [] in
             if resName = [] \<or> kind = [] then t
             else map_put m (resName @ PartitionedResourceNameSuffix @ ''.'' @ kind @ ''-'') t)
       kinds []"

definition knowns_init :: "(string \<Rightarrow> string) \<Rightarrow> Knowns" where
  "knowns_init getenv =
     (let pci = [(ManufacturerAMD, ''1002''), (ManufacturerAscend, ''19e5''),
                 (ManufacturerCambricon, ''cabc''), (ManufacturerHygon, ''1d94''),
                 (ManufacturerIluvatar, ''1e3e''), (ManufacturerMetaX, ''9999''),
                 (ManufacturerMThreads, ''1ed5''), (ManufacturerNVIDIA, ''10de''),
                 (ManufacturerTHead, ''1ded'')];
          pci = env_override getenv ''_PCI_VENDOR_ID'' (map fst pci) pci;
          names = [(ManufacturerAMD, ''amd.com/gpu''), (ManufacturerAscend, ''huawei.com/npu''),
                 (ManufacturerCambricon, ''cambricon.com/mlu''), (ManufacturerHygon, ''hygon.com/dcu''),
                 (ManufacturerIluvatar, ''iluvatar.com/gpu''), (ManufacturerMetaX, ''metax-tech.com/gpu''),
                 (ManufacturerMThreads, ''mthreads.com/gpu''), (ManufacturerNVIDIA, ''nvidia.com/gpu''),
                 (ManufacturerTHead, ''alibabacloud.com/ppu'')];
          names = env_override getenv ''_ACCELERATABLE_RESOURCE_NAME'' (map fst names) names;
          runtimes = [(ManufacturerAMD, ''amd''), (ManufacturerAscend, ''ascend''),
                 (ManufacturerCambricon, ''cambricon''), (ManufacturerHygon, ''hygon''),
                 (ManufacturerIluvatar, ''iluvatar''), (ManufacturerMetaX, ''metax''),
                 (ManufacturerMThreads, ''mthreads''), (ManufacturerNVIDIA, ''nvidia'')];
          runtimes = env_override getenv ''_ACCELERATABLE_RUNTIME_NAME'' (map fst names) runtimes;
          kinds = [(ManufacturerNVIDIA, ''mig''), (ManufacturerTHead, ''mig''),
                 (ManufacturerHygon, ''mig'')];
          kinds = env_override getenv ''_PARTITION_KIND'' (map fst kinds) kinds
      in \<lparr>kn_PciVendorID = pci, kn_ResourceName = names, kn_RuntimeName = runtimes,
          kn_PartitionKind = kinds, kn_ProfilePrefix = profile_prefixes names kinds\<rparr>)"

definition default_knowns :: Knowns where
  "default_knowns = knowns_init (\<lambda>_. [])"

definition AcceleratableResourceNameSet :: "Knowns \<Rightarrow> string set" where
  "AcceleratableResourceNameSet kn = set (map snd (kn_ResourceName kn))"

function slicedSizes :: "int \<Rightarrow> int list" where
  "slicedSizes val = (if 0 < val \<and> val \<le> SlicedResourceMaxSize
     then val # slicedSizes (2 * val) else [])"
  by pat_completeness auto
termination by (relation "measure (\<lambda>v. nat (513 - v))") auto

declare slicedSizes.simps [simp del]

definition SlicedResourceUnitsPerSlice :: "(int, int) gomap" where
  "SlicedResourceUnitsPerSlice = map (\<lambda>size. (size, quot ResourceMaxUnits size)) (slicedSizes 1)"

section \<open>Keys by manufacturer\<close>

definition GetPartitionKind :: "Knowns \<Rightarrow> string \<Rightarrow> string" where
  "GetPartitionKind kn manufacturer =
     (if map_get (kn_ProfilePrefix kn) manufacturer [] = [] then []
      else map_get (kn_PartitionKind kn) manufacturer [])"

definition GetPciVendorID :: "Knowns \<Rightarrow> string \<Rightarrow> string" where
  "GetPciVendorID kn manufacturer = map_get (kn_PciVendorID kn) manufacturer []"

definition GetKnownAcceleratableManufacturers :: "Knowns \<Rightarrow> string list" where
  "GetKnownAcceleratableManufacturers kn = sort (map fst (kn_ResourceName kn))"

definition IsKnownAcceleratableManufacturer :: "Knowns \<Rightarrow> string \<Rightarrow> bool" where
  "IsKnownAcceleratableManufacturer kn manufacturer \<longleftrightarrow>
     map_get (kn_ResourceName kn) manufacturer [] \<noteq> []"

definition GetAcceleratablePciVendorIDs :: "Knowns \<Rightarrow> string list" where
  "GetAcceleratablePciVendorIDs kn =
     sort (map (\<lambda>(m, _). map_get (kn_PciVendorID kn) m []) (kn_ResourceName kn))"

definition GetAcceleratablePciClassPrefixes :: "string list" where
  "GetAcceleratablePciClassPrefixes = [''02'', ''03'', ''0b'', ''12'']"

definition GetAcceleratableResourceName :: "Knowns \<Rightarrow> string \<Rightarrow> DeviceAllocationMode \<Rightarrow> string" where
  "GetAcceleratableResourceName kn manufacturer mode =
     (let resName = map_get (kn_ResourceName kn) manufacturer [] in
      case mode of
        DeviceAllocationModeShared \<Rightarrow> resName @ SharedResourceNameSuffix
      | DeviceAllocationModeSliced \<Rightarrow> resName @ SlicedResourceNameSuffix
      | DeviceAllocationModePartitioned \<Rightarrow>
          if GetPartitionKind kn manufacturer = [] then []
          else resName @ PartitionedResourceNameSuffix
      | DeviceAllocationModeVisibility \<Rightarrow>
          VisibilityResourceNamePrefix @ manufacturer @ VisibilityResourceNameSuffix
      | _ \<Rightarrow> resName)"

definition GetAcceleratableSlicedUnitsResourceName :: "Knowns \<Rightarrow> string \<Rightarrow> string" where
  "GetAcceleratableSlicedUnitsResourceName kn manufacturer =
     map_get (kn_ResourceName kn) manufacturer [] @ SlicedUnitsResourceNameSuffix"

definition GetAcceleratableSlicedCoresPercentageResourceName :: "Knowns \<Rightarrow> string \<Rightarrow> string" where
  "GetAcceleratableSlicedCoresPercentageResourceName kn manufacturer =
     map_get (kn_ResourceName kn) manufacturer [] @ SlicedCoresPercentageResourceNameSuffix"

definition GetAcceleratableSlicedMemoryPercentageResourceName :: "Knowns \<Rightarrow> string \<Rightarrow> string" where
  "GetAcceleratableSlicedMemoryPercentageResourceName kn manufacturer =
     map_get (kn_ResourceName kn) manufacturer [] @ SlicedMemoryPercentageResourceNameSuffix"

definition GetAcceleratableSlicedMemoryMibResourceName :: "Knowns \<Rightarrow> string \<Rightarrow> string" where
  "GetAcceleratableSlicedMemoryMibResourceName kn manufacturer =
     map_get (kn_ResourceName kn) manufacturer [] @ SlicedMemoryMibResourceNameSuffix"

definition GetAcceleratablePartitionedUnitsResourceName :: "Knowns \<Rightarrow> string \<Rightarrow> string" where
  "GetAcceleratablePartitionedUnitsResourceName kn manufacturer =
     (if GetPartitionKind kn manufacturer = [] then []
      else map_get (kn_ResourceName kn) manufacturer [] @ PartitionedUnitsResourceNameSuffix)"

section \<open>Profile names and profile keys\<close>

definition NormalizePartitionedProfileName :: "string \<Rightarrow> string" where
  "NormalizePartitionedProfileName raw =
     (let fields = Fields (ToLower raw) in if fields = [] then [] else last fields)"

text \<open>The two regular expressions \<open>^([0-9]+)g([0-9]+)gb$\<close> and \<open>^([0-9]+)g\.([0-9]+)gb$\<close>:
  \<open>sep\<close> is what stands between the two numbers.\<close>

definition geometry :: "string \<Rightarrow> string \<Rightarrow> (string \<times> string) option" where
  "geometry sep p =
     (let a = takeWhile is_digit p; r = dropWhile is_digit p in
      if a = [] then None
      else case CutPrefix r (''g'' @ sep) of
        None \<Rightarrow> None
      | Some r' \<Rightarrow>
          (let b = takeWhile is_digit r' in
           if b = [] \<or> dropWhile is_digit r' \<noteq> ''gb'' then None else Some (a, b)))"

definition SeparatorlessPartitionedProfileManufacturerSet :: "string set" where
  "SeparatorlessPartitionedProfileManufacturerSet = {ManufacturerTHead}"

definition PublishPartitionedProfileName :: "string \<Rightarrow> string \<Rightarrow> string" where
  "PublishPartitionedProfileName manufacturer profile =
     (if manufacturer \<notin> SeparatorlessPartitionedProfileManufacturerSet then profile
      else case geometry [] profile of
        None \<Rightarrow> profile
      | Some (a, b) \<Rightarrow> a @ ''g.'' @ b @ ''gb'')"

definition VendorPartitionedProfileName :: "string \<Rightarrow> string \<Rightarrow> string" where
  "VendorPartitionedProfileName manufacturer profile =
     (if manufacturer \<notin> SeparatorlessPartitionedProfileManufacturerSet then profile
      else case geometry ''.'' profile of
        None \<Rightarrow> profile
      | Some (a, b) \<Rightarrow> a @ ''g'' @ b @ ''gb'')"

definition GetAcceleratablePartitionedProfileResourceName :: "Knowns \<Rightarrow> string \<Rightarrow> string \<Rightarrow> string" where
  "GetAcceleratablePartitionedProfileResourceName kn manufacturer profile =
     (let prefix = map_get (kn_ProfilePrefix kn) manufacturer [] in
      if prefix = [] \<or> profile = [] then []
      else let name = prefix @ PublishPartitionedProfileName manufacturer profile in
        if \<not> IsQualifiedName name then [] else name)"

text \<open>The loop over the prefix map; its order is Go's iteration order.\<close>

fun find_profile :: "(string, string) gomap \<Rightarrow> string \<Rightarrow> (string \<times> string) option" where
  "find_profile [] s = None"
| "find_profile ((m, prefix) # t) s =
     (case CutPrefix s prefix of
        Some p \<Rightarrow> if p \<noteq> [] then Some (m, p) else find_profile t s
      | None \<Rightarrow> find_profile t s)"

definition partitionedProfileOf :: "Knowns \<Rightarrow> string \<Rightarrow> (string \<times> string) option" where
  "partitionedProfileOf kn name = find_profile (kn_ProfilePrefix kn) name"

definition PartitionedProfileOf :: "Knowns \<Rightarrow> string \<Rightarrow> string option" where
  "PartitionedProfileOf kn name = map_option snd (partitionedProfileOf kn name)"

definition VendorPartitionedProfileOf :: "Knowns \<Rightarrow> string \<Rightarrow> string option" where
  "VendorPartitionedProfileOf kn name =
     map_option (\<lambda>(m, p). VendorPartitionedProfileName m p) (partitionedProfileOf kn name)"

section \<open>Families\<close>

datatype ResourceFamily =
    ResourceFamilyNone
  | ResourceFamilyExclusive
  | ResourceFamilyShared
  | ResourceFamilySliced
  | ResourceFamilyPartitioned
  | ResourceFamilyVisibility

definition ResourceFamilyFixedSuffixes :: "(string \<times> ResourceFamily) list" where
  "ResourceFamilyFixedSuffixes =
     [(SlicedMemoryPercentageResourceNameSuffix, ResourceFamilySliced),
      (SlicedCoresPercentageResourceNameSuffix, ResourceFamilySliced),
      (SlicedMemoryMibResourceNameSuffix, ResourceFamilySliced),
      (PartitionedUnitsResourceNameSuffix, ResourceFamilyPartitioned),
      (SlicedUnitsResourceNameSuffix, ResourceFamilySliced),
      (PartitionedResourceNameSuffix, ResourceFamilyPartitioned),
      (SlicedResourceNameSuffix, ResourceFamilySliced),
      (SharedResourceNameSuffix, ResourceFamilyShared)]"

fun suffix_family :: "string set \<Rightarrow> (string \<times> ResourceFamily) list \<Rightarrow> string \<Rightarrow> ResourceFamily option" where
  "suffix_family bases [] s = None"
| "suffix_family bases ((suffix, family) # t) s =
     (case CutSuffix s suffix of
        Some base \<Rightarrow> if base \<in> bases then Some family else suffix_family bases t s
      | None \<Rightarrow> suffix_family bases t s)"

definition ResourceFamilyOf :: "Knowns \<Rightarrow> string \<Rightarrow> ResourceFamily" where
  "ResourceFamilyOf kn s =
     (case CutPrefix s VisibilityResourceNamePrefix of
        Some rest \<Rightarrow>
          (case CutSuffix rest VisibilityResourceNameSuffix of
             Some manufacturer \<Rightarrow>
               if IsKnownAcceleratableManufacturer kn manufacturer
               then ResourceFamilyVisibility else ResourceFamilyNone
           | None \<Rightarrow> ResourceFamilyNone)
      | None \<Rightarrow>
          if PartitionedProfileOf kn s \<noteq> None then ResourceFamilyPartitioned
          else case suffix_family (AcceleratableResourceNameSet kn) ResourceFamilyFixedSuffixes s of
            Some family \<Rightarrow> family
          | None \<Rightarrow> if s \<in> AcceleratableResourceNameSet kn
                    then ResourceFamilyExclusive else ResourceFamilyNone)"

definition IsKnownAcceleratableResourceName :: "Knowns \<Rightarrow> string \<Rightarrow> bool" where
  "IsKnownAcceleratableResourceName kn name \<longleftrightarrow>
     ResourceFamilyOf kn name \<in> {ResourceFamilyExclusive, ResourceFamilyShared,
       ResourceFamilySliced, ResourceFamilyPartitioned}"

definition GetAcceleratableRuntimeName :: "Knowns \<Rightarrow> string \<Rightarrow> string" where
  "GetAcceleratableRuntimeName kn manufacturer = map_get (kn_RuntimeName kn) manufacturer []"

section \<open>Units and credits\<close>

definition IsValidSlicedPartitions :: "int \<Rightarrow> bool" where
  "IsValidSlicedPartitions n \<longleftrightarrow> n \<ge> 2 \<and> n \<le> SlicedResourceMaxSize \<and> n AND (n - 1) = 0"

definition MemoryMibToUnits :: "int \<Rightarrow> int \<Rightarrow> int" where
  "MemoryMibToUnits mib cardVRAMMib =
     (if cardVRAMMib \<le> 0 then 0 else quot (wrap64 (mib * ResourceMaxUnits)) cardVRAMMib)"

abbreviation "CreditsLabelPrefix \<equiv> ''credits.gpustack.ai/''"

definition GetAcceleratableCreditsResourceName :: "string \<Rightarrow> string" where
  "GetAcceleratableCreditsResourceName manufacturer = CreditsLabelPrefix @ manufacturer"

definition IsAcceleratableCreditsResourceName :: "Knowns \<Rightarrow> string \<Rightarrow> bool" where
  "IsAcceleratableCreditsResourceName kn name =
     (case CutPrefix name CreditsLabelPrefix of
        None \<Rightarrow> False
      | Some manufacturer \<Rightarrow> IsKnownAcceleratableManufacturer kn manufacturer)"

section \<open>Fit labels\<close>

abbreviation "FitSlicedMaxFreeUnitsLabelPrefix \<equiv> ''sliced-max-free-units.fit.gpustack.ai/''"
abbreviation "FitSharedFreeCardsLabelPrefix \<equiv> ''shared-free-cards.fit.gpustack.ai/''"

definition FitSlicedMaxFreeUnitsLabelKey :: "string \<Rightarrow> string" where
  "FitSlicedMaxFreeUnitsLabelKey aKey = FitSlicedMaxFreeUnitsLabelPrefix @ aKey"

definition FitSharedFreeCardsLabelKey :: "string \<Rightarrow> string" where
  "FitSharedFreeCardsLabelKey aKey = FitSharedFreeCardsLabelPrefix @ aKey"

fun fit_key_loop :: "string list \<Rightarrow> string \<Rightarrow> bool" where
  "fit_key_loop [] key = False"
| "fit_key_loop (prefix # t) key =
     (case CutPrefix key prefix of
        Some aKey \<Rightarrow> if aKey \<noteq> [] then IsQualifiedName key else fit_key_loop t key
      | None \<Rightarrow> fit_key_loop t key)"

definition IsFitLabelKey :: "string \<Rightarrow> bool" where
  "IsFitLabelKey key =
     fit_key_loop [FitSlicedMaxFreeUnitsLabelPrefix, FitSharedFreeCardsLabelPrefix] key"

definition EqualIgnoringFitLabels :: "(string, string) gomap \<Rightarrow> (string, string) gomap \<Rightarrow> bool" where
  "EqualIgnoringFitLabels a b \<longleftrightarrow>
     list_all (\<lambda>(k, av). IsFitLabelKey k \<or> map_of b k = Some av) a
     \<and> list_all (\<lambda>(k, _). IsFitLabelKey k \<or> has_key a k) b"

definition FilterFitLabels :: "(string, string) gomap \<Rightarrow> (string, string) gomap" where
  "FilterFitLabels labels = filter (\<lambda>(k, _). IsFitLabelKey k) labels"

section \<open>Pool labels\<close>

abbreviation "FeatureLabelPrefix \<equiv> ''feature.gpustack.ai/''"
abbreviation "NodeAcceleratableLabelKey \<equiv> ''feature.gpustack.ai/acceleratable''"
abbreviation "AcceleratableFeatureLabelPrefix \<equiv> ''acceleratable.feature.gpustack.ai/''"
abbreviation "GeneralFeatureLabelPrefix \<equiv> ''general.feature.gpustack.ai/''"
abbreviation "GeneralGroupGeneric \<equiv> ''generic''"
abbreviation "LabelOSStable \<equiv> ''kubernetes.io/os''"
abbreviation "LabelArchStable \<equiv> ''kubernetes.io/arch''"

definition acceleratable_key :: "Knowns \<Rightarrow> string \<times> string \<Rightarrow> string option" where
  "acceleratable_key kn kv = (case kv of (k, v) \<Rightarrow>
     (case CutPrefix k AcceleratableFeatureLabelPrefix of
        None \<Rightarrow> None
      | Some key \<Rightarrow>
          if v = ''true'' then
            (case Cut key CHR ''-'' of (manufacturer, _, found) \<Rightarrow>
               if found \<and> IsKnownAcceleratableManufacturer kn manufacturer then Some key else None)
          else None))"

definition ExtractAcceleratableKeys :: "Knowns \<Rightarrow> (string, string) gomap \<Rightarrow> string list" where
  "ExtractAcceleratableKeys kn labels = List.map_filter (acceleratable_key kn) labels"

definition FormatBool :: "bool \<Rightarrow> string" where
  "FormatBool b = (if b then ''true'' else ''false'')"

definition PoolScheduleLabels ::
    "bool \<Rightarrow> bool \<Rightarrow> string \<Rightarrow> string \<Rightarrow> string \<Rightarrow> string \<Rightarrow> (string, string) gomap" where
  "PoolScheduleLabels acceleratable cpuAware generalGroup acceleratorGroup os arch =
     (let lbs = [(NodeAcceleratableLabelKey, FormatBool acceleratable)];
          lbs = (if os \<noteq> [] then map_put LabelOSStable os lbs else lbs);
          lbs = (if arch \<noteq> [] then map_put LabelArchStable arch lbs else lbs);
          lbs = (if acceleratable \<and> acceleratorGroup \<noteq> []
                 then map_put (AcceleratableFeatureLabelPrefix @ acceleratorGroup) ''true'' lbs else lbs)
      in if cpuAware \<and> generalGroup \<noteq> [] \<and> generalGroup \<noteq> GeneralGroupGeneric
         then map_put (GeneralFeatureLabelPrefix @ generalGroup) ''true'' lbs else lbs)"

definition pool_discriminator :: "string \<times> string \<Rightarrow> bool" where
  "pool_discriminator kv = (case kv of (k, v) \<Rightarrow>
     k = NodeAcceleratableLabelKey
     \<or> (v = ''true'' \<and> (HasPrefix k GeneralFeatureLabelPrefix
                          \<or> HasPrefix k AcceleratableFeatureLabelPrefix)))"

definition PoolFlavorSelector :: "(string, string) gomap \<Rightarrow> (string, string) gomap option" where
  "PoolFlavorSelector labels =
     (if \<exists>(k, v) \<in> set labels. k \<noteq> LabelOSStable \<and> k \<noteq> LabelArchStable \<and> pool_discriminator (k, v)
      then Some (filter (\<lambda>(k, v). k = LabelOSStable \<or> k = LabelArchStable \<or> pool_discriminator (k, v)) labels)
      else None)"

section \<open>The default tables\<close>

lemma default_knowns_table [code]: "default_knowns =
  \<lparr>kn_PciVendorID = [(''amd'', ''1002''), (''ascend'', ''19e5''), (''cambricon'', ''cabc''),
     (''hygon'', ''1d94''), (''iluvatar'', ''1e3e''), (''metax'', ''9999''), (''mthreads'', ''1ed5''),
     (''nvidia'', ''10de''), (''thead'', ''1ded'')],
   kn_ResourceName = [(''amd'', ''amd.com/gpu''), (''ascend'', ''huawei.com/npu''),
     (''cambricon'', ''cambricon.com/mlu''), (''hygon'', ''hygon.com/dcu''),
     (''iluvatar'', ''iluvatar.com/gpu''), (''metax'', ''metax-tech.com/gpu''),
     (''mthreads'', ''mthreads.com/gpu''), (''nvidia'', ''nvidia.com/gpu''),
     (''thead'', ''alibabacloud.com/ppu'')],
   kn_RuntimeName = [(''amd'', ''amd''), (''ascend'', ''ascend''), (''cambricon'', ''cambricon''),
     (''hygon'', ''hygon''), (''iluvatar'', ''iluvatar''), (''metax'', ''metax''),
     (''mthreads'', ''mthreads''), (''nvidia'', ''nvidia'')],
   kn_PartitionKind = [(''nvidia'', ''mig''), (''thead'', ''mig''), (''hygon'', ''mig'')],
   kn_ProfilePrefix = [(''nvidia'', ''nvidia.com/gpu.partitioned.mig-''),
     (''thead'', ''alibabacloud.com/ppu.partitioned.mig-''),
     (''hygon'', ''hygon.com/dcu.partitioned.mig-'')]\<rparr>"
  by (simp add: default_knowns_def knowns_init_def env_override_def profile_prefixes_def Let_def map_get_def)

section \<open>Facts about profile names\<close>

lemma not_digit_g [simp]: "\<not> is_digit CHR ''g''" and not_digit_dot [simp]: "\<not> is_digit CHR ''.''"
  by (simp_all add: is_digit_def less_eq_char_def)

lemma takeWhile_digits:
  "list_all is_digit a \<Longrightarrow> \<not> is_digit c \<Longrightarrow>
     takeWhile is_digit (a @ c # r) = a \<and> dropWhile is_digit (a @ c # r) = c # r"
  by (induction a) auto

lemma geometry_iff:
  "geometry sep p = Some (a, b) \<longleftrightarrow>
     a \<noteq> [] \<and> b \<noteq> [] \<and> list_all is_digit a \<and> list_all is_digit b
     \<and> p = a @ ''g'' @ sep @ b @ ''gb''" (is "?l \<longleftrightarrow> ?r")
proof
  assume ?l
  then obtain r' where a: "a = takeWhile is_digit p" "a \<noteq> []"
    and r: "dropWhile is_digit p = ''g'' @ sep @ r'"
    and b: "b = takeWhile is_digit r'" "b \<noteq> []" "dropWhile is_digit r' = ''gb''"
    by (auto simp: geometry_def Let_def CutPrefix_Some split: if_splits option.splits)
  have "a @ ''g'' @ sep @ r' = p" using takeWhile_dropWhile_id [of is_digit p] by (simp only: a(1) r)
  moreover have "b @ ''gb'' = r'" using takeWhile_dropWhile_id [of is_digit r'] by (simp only: b(1,3))
  ultimately have "p = a @ ''g'' @ sep @ b @ ''gb''" by metis
  moreover have "list_all is_digit a" "list_all is_digit b"
    unfolding a(1) b(1) list_all_iff by (metis set_takeWhileD)+
  ultimately show ?r using a(2) b(2) by blast
next
  assume r: ?r
  then have a: "takeWhile is_digit p = a" "dropWhile is_digit p = ''g'' @ sep @ b @ ''gb''"
    and b: "takeWhile is_digit (b @ ''gb'') = b" "dropWhile is_digit (b @ ''gb'') = ''gb''"
    using takeWhile_digits [of a "CHR ''g''" "sep @ b @ ''gb''"]
      takeWhile_digits [of b "CHR ''g''" "''b''"] by simp_all
  have "CutPrefix (''g'' @ sep @ b @ ''gb'') (''g'' @ sep) = Some (b @ ''gb'')"
    by (simp add: CutPrefix_Some)
  with r show ?l unfolding geometry_def Let_def a by (simp add: b del: append.simps)
qed

definition numbers :: "string \<Rightarrow> string \<Rightarrow> bool" where
  "numbers a b \<longleftrightarrow> a \<noteq> [] \<and> b \<noteq> [] \<and> list_all is_digit a \<and> list_all is_digit b"

lemma geometry_forms:
  assumes "numbers a b"
  shows "geometry [] (a @ CHR ''g'' # b @ ''gb'') = Some (a, b)"
    and "geometry ''.'' (a @ CHR ''g'' # CHR ''.'' # b @ ''gb'') = Some (a, b)"
    and "geometry ''.'' (a @ CHR ''g'' # b @ ''gb'') = None"
    and "geometry [] (a @ CHR ''g'' # CHR ''.'' # b @ ''gb'') = None"
proof -
  from assms show "geometry [] (a @ CHR ''g'' # b @ ''gb'') = Some (a, b)"
    and "geometry ''.'' (a @ CHR ''g'' # CHR ''.'' # b @ ''gb'') = Some (a, b)"
    by (simp_all add: geometry_iff numbers_def)
  have a: "list_all is_digit a" "a \<noteq> []" and b: "b \<noteq> []" "is_digit (hd b)"
    using assms by (auto simp: numbers_def list_all_iff)
  from b show "geometry ''.'' (a @ CHR ''g'' # b @ ''gb'') = None"
    by (cases b) (auto simp: geometry_def Let_def takeWhile_digits [OF a(1)] CutPrefix_def HasPrefix_def)
  show "geometry [] (a @ CHR ''g'' # CHR ''.'' # b @ ''gb'') = None"
    by (simp add: geometry_def Let_def takeWhile_digits [OF a(1)] CutPrefix_def HasPrefix_def)
qed

lemma geometry_cases:
  obtains (vendor) a b where "numbers a b" "p = a @ CHR ''g'' # b @ ''gb''"
  | (published) a b where "numbers a b" "p = a @ CHR ''g'' # CHR ''.'' # b @ ''gb''"
  | (other) "geometry [] p = None" "geometry ''.'' p = None"
proof (cases "geometry [] p")
  case (Some ab)
  obtain a b where "ab = (a, b)" by (cases ab)
  with Some have "numbers a b" "p = a @ CHR ''g'' # b @ ''gb''"
    by (simp_all add: geometry_iff numbers_def)
  then show thesis by (rule vendor)
next
  case None
  show thesis
  proof (cases "geometry ''.'' p")
    case (Some ab)
    obtain a b where "ab = (a, b)" by (cases ab)
    with Some have "numbers a b" "p = a @ CHR ''g'' # CHR ''.'' # b @ ''gb''"
      by (simp_all add: geometry_iff numbers_def)
    then show thesis by (rule published)
  qed (rule other [OF None])
qed

lemmas profile_name_defs = PublishPartitionedProfileName_def VendorPartitionedProfileName_def

lemma profile_spelling_boundary:
  "VendorPartitionedProfileName m (PublishPartitionedProfileName m p) = VendorPartitionedProfileName m p"
  by (cases p rule: geometry_cases) (simp_all add: profile_name_defs geometry_forms)

text \<open>C14: The two spellings of a partition profile form a lossless naming boundary for every
  manufacturer and every name: each conversion is idempotent, publishing ignores a previous
  vendor conversion and the vendor conversion ignores a previous publication.\<close>

theorem profile_spelling_roundtrip:
  "VendorPartitionedProfileName m (PublishPartitionedProfileName m p) = VendorPartitionedProfileName m p
   \<and> PublishPartitionedProfileName m (VendorPartitionedProfileName m p) = PublishPartitionedProfileName m p
   \<and> PublishPartitionedProfileName m (PublishPartitionedProfileName m p) = PublishPartitionedProfileName m p
   \<and> VendorPartitionedProfileName m (VendorPartitionedProfileName m p) = VendorPartitionedProfileName m p"
  by (cases p rule: geometry_cases) (simp_all add: profile_name_defs geometry_forms)

section \<open>Facts about profile keys\<close>

text \<open>What the prefix table has to satisfy for a key to name one profile: no prefix of the
  table starts another, and none lies in the visibility namespace. The default table does.\<close>

definition prefix_free :: "string list \<Rightarrow> bool" where
  "prefix_free ps \<longleftrightarrow> (\<forall>p \<in> set ps. \<forall>q \<in> set ps. HasPrefix p q \<longrightarrow> p = q)"

definition wf_knowns :: "Knowns \<Rightarrow> bool" where
  "wf_knowns kn \<longleftrightarrow> wf_map (kn_ProfilePrefix kn) \<and> distinct (map snd (kn_ProfilePrefix kn))
     \<and> prefix_free (VisibilityResourceNamePrefix # map snd (kn_ProfilePrefix kn))
     \<and> VisibilityResourceNamePrefix \<notin> set (map snd (kn_ProfilePrefix kn))"

lemma append_prefixes: "p @ a = q @ b \<Longrightarrow> HasPrefix p q \<or> HasPrefix q p"
  by (metis HasPrefix_iff append_eq_append_conv2)

lemma prefix_free_unique:
  "prefix_free ps \<Longrightarrow> p \<in> set ps \<Longrightarrow> q \<in> set ps \<Longrightarrow> p @ a = q @ b \<Longrightarrow> p = q"
  using append_prefixes [of p a q b] unfolding prefix_free_def by metis

lemma find_profile_Some:
  "find_profile t s = Some (m, p) \<Longrightarrow> \<exists>prefix. (m, prefix) \<in> set t \<and> s = prefix @ p \<and> p \<noteq> []"
  by (induction t s rule: find_profile.induct) (auto simp: CutPrefix_Some split: option.splits if_splits)

lemma find_profile_finds:
  "(m, prefix) \<in> set t \<Longrightarrow> p \<noteq> [] \<Longrightarrow> \<exists>m' p'. find_profile t (prefix @ p) = Some (m', p')"
  by (induction t "prefix @ p" rule: find_profile.induct) (auto split: option.splits)

lemma find_profile_unique:
  assumes "distinct (map snd t)" and "prefix_free (map snd t)" and "(m, prefix) \<in> set t" and "p \<noteq> []"
  shows "find_profile t (prefix @ p) = Some (m, p)"
proof -
  obtain m' p' where f: "find_profile t (prefix @ p) = Some (m', p')"
    using find_profile_finds [OF assms(3,4)] by blast
  then obtain prefix' where t: "(m', prefix') \<in> set t" and eq: "prefix @ p = prefix' @ p'"
    using find_profile_Some by blast
  have "prefix \<in> set (map snd t)" "prefix' \<in> set (map snd t)"
    using assms(3) t by force+
  then have "prefix = prefix'" using prefix_free_unique [OF assms(2)] eq by metis
  moreover from this have "m = m'"
    using assms(1,3) t inj_onD [of snd "set t" "(m, prefix)" "(m', prefix')"]
    by (simp add: distinct_map)
  ultimately show ?thesis using f eq by simp
qed

lemma wf_default_knowns: "wf_knowns default_knowns" by code_simp

text \<open>A profile key that is built is read back: it names exactly the manufacturer's profile
  in its published spelling, its vendor reading is the vendor spelling of the profile that was
  given, and the key is classified as a key of the partitioned family.\<close>

theorem partitioned_key_roundtrip:
  assumes "wf_knowns kn" and "GetAcceleratablePartitionedProfileResourceName kn m profile = key" and "key \<noteq> []"
  shows "PartitionedProfileOf kn key = Some (PublishPartitionedProfileName m profile)
    \<and> VendorPartitionedProfileOf kn key = Some (VendorPartitionedProfileName m profile)
    \<and> ResourceFamilyOf kn key = ResourceFamilyPartitioned
    \<and> IsQualifiedName key"
proof -
  let ?t = "kn_ProfilePrefix kn"
  obtain prefix where prefix: "map_of ?t m = Some prefix" and profile: "profile \<noteq> []"
    and key: "key = prefix @ PublishPartitionedProfileName m profile" and valid: "IsQualifiedName key"
    using assms(2,3) by (auto simp: GetAcceleratablePartitionedProfileResourceName_def Let_def
        map_get_def split: if_splits option.splits)
  have pub: "PublishPartitionedProfileName m profile \<noteq> []"
    using profile by (auto simp: profile_name_defs split: option.splits)
  have "partitionedProfileOf kn key = Some (m, PublishPartitionedProfileName m profile)"
    unfolding partitionedProfileOf_def key
    using assms(1) pub map_of_SomeD [OF prefix]
    by (intro find_profile_unique) (auto simp: wf_knowns_def prefix_free_def)
  moreover have "CutPrefix key VisibilityResourceNamePrefix = None"
  proof (rule ccontr)
    assume "CutPrefix key VisibilityResourceNamePrefix \<noteq> None"
    then obtain r where "prefix @ PublishPartitionedProfileName m profile = VisibilityResourceNamePrefix @ r"
      using key by (auto simp: CutPrefix_Some)
    moreover have "prefix \<in> set (map snd ?t)" using map_of_SomeD [OF prefix] by force
    ultimately show False
      using assms(1) prefix_free_unique
        [of "VisibilityResourceNamePrefix # map snd ?t" prefix VisibilityResourceNamePrefix]
      by (auto simp: wf_knowns_def)
  qed
  ultimately show ?thesis
    using valid by (simp add: PartitionedProfileOf_def VendorPartitionedProfileOf_def
        ResourceFamilyOf_def profile_spelling_boundary)
qed

theorem partitioned_key_roundtrip_witness:
  "GetAcceleratablePartitionedProfileResourceName default_knowns ''thead'' ''4g48gb''
     = ''alibabacloud.com/ppu.partitioned.mig-4g.48gb''
   \<and> VendorPartitionedProfileOf default_knowns ''alibabacloud.com/ppu.partitioned.mig-4g.48gb''
     = Some ''4g48gb''"
proof -
  have key: "GetAcceleratablePartitionedProfileResourceName default_knowns ''thead'' ''4g48gb''
     = ''alibabacloud.com/ppu.partitioned.mig-4g.48gb''" by code_simp
  have "VendorPartitionedProfileName ''thead'' ''4g48gb'' = ''4g48gb''" by code_simp
  with partitioned_key_roundtrip [OF wf_default_knowns key] key show ?thesis by simp
qed

section \<open>Facts about families\<close>

text \<open>With the default tables every key the operator builds for a known manufacturer is
  classified as a key of the family it was built for, the visibility key apart from the four
  accelerator families, and no key is built for the partitioned family of a manufacturer that
  has no partition kind.\<close>

theorem family_of_built_keys:
  "list_all (\<lambda>m.
      ResourceFamilyOf default_knowns (GetAcceleratableResourceName default_knowns m DeviceAllocationModeExclusive)
        = ResourceFamilyExclusive
    \<and> ResourceFamilyOf default_knowns (GetAcceleratableResourceName default_knowns m DeviceAllocationModeShared)
        = ResourceFamilyShared
    \<and> list_all (\<lambda>key. ResourceFamilyOf default_knowns key = ResourceFamilySliced)
        [GetAcceleratableResourceName default_knowns m DeviceAllocationModeSliced,
         GetAcceleratableSlicedUnitsResourceName default_knowns m,
         GetAcceleratableSlicedCoresPercentageResourceName default_knowns m,
         GetAcceleratableSlicedMemoryPercentageResourceName default_knowns m,
         GetAcceleratableSlicedMemoryMibResourceName default_knowns m]
    \<and> list_all (\<lambda>key. if GetPartitionKind default_knowns m = [] then key = []
                        else ResourceFamilyOf default_knowns key = ResourceFamilyPartitioned)
        [GetAcceleratableResourceName default_knowns m DeviceAllocationModePartitioned,
         GetAcceleratablePartitionedUnitsResourceName default_knowns m]
    \<and> ResourceFamilyOf default_knowns (GetAcceleratableResourceName default_knowns m DeviceAllocationModeVisibility)
        = ResourceFamilyVisibility
    \<and> ResourceFamilyOf default_knowns (GetAcceleratableCreditsResourceName m) = ResourceFamilyNone
    \<and> IsAcceleratableCreditsResourceName default_knowns (GetAcceleratableCreditsResourceName m))
   (GetKnownAcceleratableManufacturers default_knowns)
   \<and> length (GetKnownAcceleratableManufacturers default_knowns) = 9"
  by code_simp

lemma suffix_family_Some:
  "suffix_family bases t s = Some f \<Longrightarrow> \<exists>base suffix. base \<in> bases \<and> (suffix, f) \<in> set t \<and> s = base @ suffix"
  by (induction bases t s rule: suffix_family.induct)
    (auto simp: CutSuffix_Some split: option.splits if_splits)

lemma suffix_family_None:
  "suffix_family bases t s = None \<longleftrightarrow> \<not> (\<exists>base \<in> bases. \<exists>x \<in> fst ` set t. s = base @ x)"
proof (induction bases t s rule: suffix_family.induct)
  case (2 bases suffix family t s)
  have "(\<exists>base \<in> bases. s = base @ suffix) \<longleftrightarrow> (\<exists>base. CutSuffix s suffix = Some base \<and> base \<in> bases)"
    by (auto simp: CutSuffix_Some)
  with 2 show ?case by (cases "CutSuffix s suffix") auto
qed simp

lemma default_suffix_read_back:
  "\<forall>b \<in> AcceleratableResourceNameSet default_knowns. \<forall>(x, f) \<in> set ResourceFamilyFixedSuffixes.
     dropWhile (\<lambda>c. c \<noteq> CHR ''.'') (dropWhile (\<lambda>c. c \<noteq> CHR ''/'') (b @ x)) = x"
  by code_simp

lemma suffix_table_functional: "distinct (map fst ResourceFamilyFixedSuffixes)"
  by code_simp

lemma default_suffix_unambiguous:
  assumes "b \<in> AcceleratableResourceNameSet default_knowns" and "b' \<in> AcceleratableResourceNameSet default_knowns"
    and "(x, f) \<in> set ResourceFamilyFixedSuffixes" and "(x', f') \<in> set ResourceFamilyFixedSuffixes"
    and "b @ x = b' @ x'"
  shows "f = f'"
proof -
  have "x = x'"
    using default_suffix_read_back [THEN bspec, OF assms(1), THEN bspec, OF assms(3)]
      default_suffix_read_back [THEN bspec, OF assms(2), THEN bspec, OF assms(4)] assms(5) by simp
  with assms(3,4) suffix_table_functional show ?thesis by (metis eq_key_imp_eq_value)
qed

text \<open>With the default tables the order of the suffix table does not matter: the family
  found by any reordering of the table is the same.\<close>

theorem suffix_table_order_free:
  assumes "mset t = mset ResourceFamilyFixedSuffixes"
  shows "suffix_family (AcceleratableResourceNameSet default_knowns) t s
       = suffix_family (AcceleratableResourceNameSet default_knowns) ResourceFamilyFixedSuffixes s"
proof -
  let ?B = "AcceleratableResourceNameSet default_knowns" and ?F = ResourceFamilyFixedSuffixes
  have set: "set t = set ?F" using mset_eq_setD [OF assms] .
  have agree: "f = g" if f: "suffix_family ?B t s = Some f" and g: "suffix_family ?B ?F s = Some g" for f g
  proof -
    obtain b x where "b \<in> ?B" "(x, f) \<in> set t" "s = b @ x"
      using suffix_family_Some [OF f] by blast
    moreover obtain b' x' where "b' \<in> ?B" "(x', g) \<in> set ?F" "s = b' @ x'"
      using suffix_family_Some [OF g] by blast
    ultimately show "f = g" using default_suffix_unambiguous [of b b' x f x' g] set by simp
  qed
  have none: "suffix_family ?B t s = None \<longleftrightarrow> suffix_family ?B ?F s = None"
    unfolding suffix_family_None set ..
  show ?thesis
  proof (cases "suffix_family ?B t s")
    case (Some f)
    then obtain g where g: "suffix_family ?B ?F s = Some g" using none by auto
    with agree [OF Some g] Some show ?thesis by simp
  qed (simp add: none)
qed

theorem suffix_table_order_free_witness:
  "suffix_family (AcceleratableResourceNameSet default_knowns) (rev ResourceFamilyFixedSuffixes)
     ''nvidia.com/gpu.sliced.units'' = Some ResourceFamilySliced"
proof -
  have "suffix_family (AcceleratableResourceNameSet default_knowns) ResourceFamilyFixedSuffixes
     ''nvidia.com/gpu.sliced.units'' = Some ResourceFamilySliced" by code_simp
  with suffix_table_order_free [OF mset_rev] show ?thesis by (rule trans)
qed

section \<open>Facts about units\<close>

lemma and_pred_zero:
  "1 \<le> n \<Longrightarrow> n \<le> 2 ^ k \<Longrightarrow> n AND (n - 1) = 0 \<longleftrightarrow> n \<in> (\<lambda>j. 2 ^ j) ` {..k}" for n :: int
proof (induction k arbitrary: n)
  case 0
  then show ?case by simp
next
  case (Suc k)
  have split: "(\<lambda>j. 2 ^ j :: int) ` {..Suc k} = insert 1 ((\<lambda>x. 2 * x) ` (\<lambda>j. 2 ^ j) ` {..k})"
    by (simp add: atMost_Suc_eq_insert_0 image_image)
  show ?case
  proof (cases "even n")
    case True
    then obtain m where m: "n = 2 * m" by blast
    have "(2 * m - 1) div 2 = m - 1" by presburger
    then have "n AND (n - 1) = 2 * (m AND (m - 1))"
      unfolding m by (subst and_rec) simp
    moreover have "m AND (m - 1) = 0 \<longleftrightarrow> m \<in> (\<lambda>j. 2 ^ j) ` {..k}"
      using Suc.prems m by (intro Suc.IH) simp_all
    ultimately show ?thesis unfolding split using m by auto
  next
    case False
    then obtain m where m: "n = 2 * m + 1" using oddE by blast
    have "n AND (n - 1) = 2 * (m AND m)"
      unfolding m by (subst and_rec) simp
    then have "n AND (n - 1) = 0 \<longleftrightarrow> n = 1" using m by simp
    moreover have "n \<in> (\<lambda>x. 2 * x) ` (\<lambda>j. 2 ^ j) ` {..k} \<Longrightarrow> even n" by auto
    ultimately show ?thesis unfolding split using False by blast
  qed
qed

text \<open>A usable partition count is a power of two between 2 and 512, and for each of them the
  unit value of one slice divides the whole accelerator exactly.\<close>

theorem IsValidSlicedPartitions_exact:
  "IsValidSlicedPartitions n \<longleftrightarrow> (\<exists>u. 2 \<le> n \<and> (n, u) \<in> set SlicedResourceUnitsPerSlice \<and> n * u = ResourceMaxUnits)"
proof -
  have table: "SlicedResourceUnitsPerSlice = [(1, 1600000), (2, 800000), (4, 400000), (8, 200000),
      (16, 100000), (32, 50000), (64, 25000), (128, 12500), (256, 6250), (512, 3125)]"
    by code_simp
  have "2 \<le> n \<Longrightarrow> n \<le> 512 \<Longrightarrow> n AND (n - 1) = 0 \<longleftrightarrow> n \<in> (\<lambda>j. 2 ^ j) ` {..9}"
    using and_pred_zero [of n 9] by simp
  moreover have "(\<lambda>j. 2 ^ j :: int) ` {..9} = {1, 2, 4, 8, 16, 32, 64, 128, 256, 512}"
    by (simp add: atMost_nat_numeral atMost_Suc insert_commute)
  ultimately show ?thesis unfolding IsValidSlicedPartitions_def table by auto
qed

text \<open>The unit value of an absolute memory request is the floor of its share of the card, so it
  never over-allocates: within the 64-bit range it is the exact quotient, never above the card's
  total for a request that fits the card, and monotone in the request.\<close>

theorem MemoryMibToUnits_floor:
  assumes "0 \<le> mib" and "mib * ResourceMaxUnits \<le> 9223372036854775807" and "0 < vram"
  shows "MemoryMibToUnits mib vram = mib * ResourceMaxUnits div vram
    \<and> MemoryMibToUnits mib vram * vram \<le> mib * ResourceMaxUnits
    \<and> (mib \<le> vram \<longrightarrow> MemoryMibToUnits mib vram \<le> ResourceMaxUnits)
    \<and> (0 \<le> mib' \<and> mib' \<le> mib \<longrightarrow> MemoryMibToUnits mib' vram \<le> MemoryMibToUnits mib vram)"
proof -
  have eq: "MemoryMibToUnits m vram = m * ResourceMaxUnits div vram" if "0 \<le> m" "m \<le> mib" for m
    using that assms by (simp add: MemoryMibToUnits_def wrap64_id int64_def quot_nonneg)
  have "mib * ResourceMaxUnits div vram * vram \<le> mib * ResourceMaxUnits"
    using assms(3) by (simp add: div_mod_decomp_int mult.commute minus_mod_eq_mult_div [symmetric])
  moreover have "mib * ResourceMaxUnits div vram \<le> ResourceMaxUnits" if "mib \<le> vram"
    using zdiv_mono1 [of "mib * ResourceMaxUnits" "vram * ResourceMaxUnits" vram] that assms(3) by simp
  moreover have "m * ResourceMaxUnits div vram \<le> mib * ResourceMaxUnits div vram" if "m \<le> mib" for m
    using that assms(3) by (intro zdiv_mono1) simp_all
  ultimately show ?thesis using eq assms(1) by auto
qed

theorem MemoryMibToUnits_floor_witness:
  "MemoryMibToUnits 8192 24576 = 533333 \<and> MemoryMibToUnits 4096 24576 \<le> MemoryMibToUnits 8192 24576"
  using MemoryMibToUnits_floor [of 8192 24576 4096] by simp

section \<open>Facts about labels\<close>

text \<open>Comparing labels while ignoring the fit labels is agreement on every other key, so it is
  an equivalence on label maps and two maps that differ only in fit labels compare equal.\<close>

theorem EqualIgnoringFitLabels_iff:
  assumes "wf_map a" and "wf_map b"
  shows "EqualIgnoringFitLabels a b \<longleftrightarrow> (\<forall>k. \<not> IsFitLabelKey k \<longrightarrow> map_of a k = map_of b k)"
proof -
  have "EqualIgnoringFitLabels a b \<longleftrightarrow>
      (\<forall>k v. map_of a k = Some v \<longrightarrow> IsFitLabelKey k \<or> map_of b k = Some v)
      \<and> (\<forall>k v. map_of b k = Some v \<longrightarrow> IsFitLabelKey k \<or> map_of a k \<noteq> None)"
    unfolding EqualIgnoringFitLabels_def list_all_gomap [OF assms(1)] list_all_gomap [OF assms(2)]
      has_key_def ..
  also have "\<dots> \<longleftrightarrow> (\<forall>k. \<not> IsFitLabelKey k \<longrightarrow> map_of a k = map_of b k)"
    by (metis option.exhaust option.distinct(1))
  finally show ?thesis .
qed

theorem EqualIgnoringFitLabels_iff_witness:
  "EqualIgnoringFitLabels
     [(''a'', ''1''), (FitSharedFreeCardsLabelKey ''nvidia-t4'', ''3'')] [(''a'', ''1'')]"
proof -
  have "IsFitLabelKey (FitSharedFreeCardsLabelKey ''nvidia-t4'')" by code_simp
  then show ?thesis
    using EqualIgnoringFitLabels_iff [of "[(''a'', ''1''), (FitSharedFreeCardsLabelKey ''nvidia-t4'', ''3'')]"
        "[(''a'', ''1'')]"]
    by (auto simp: wf_map_def FitSharedFreeCardsLabelKey_def)
qed

lemma pool_labels_kept:
  "list_all (\<lambda>(k, v). k = LabelOSStable \<or> k = LabelArchStable \<or> pool_discriminator (k, v))
     (PoolScheduleLabels acceleratable cpuAware generalGroup acceleratorGroup os arch)"
proof -
  have put: "list_all P (map_put k v m)" if "list_all P m" "P (k, v)" for P k v and m :: "(string, string) gomap"
    using that by (induction k v m rule: map_put.induct) auto
  show ?thesis
    unfolding PoolScheduleLabels_def Let_def
    by (auto intro!: put simp: pool_discriminator_def HasPrefix_def)
qed

lemma pool_labels_boolean:
  "map_of (PoolScheduleLabels acceleratable cpuAware generalGroup acceleratorGroup os arch)
     NodeAcceleratableLabelKey = Some (FormatBool acceleratable)"
  by (simp add: PoolScheduleLabels_def Let_def)

text \<open>The flavor selector read from a pool's schedule labels is exactly those labels, whatever
  the pool's identity and setting; reading it from its own result changes nothing.\<close>

theorem PoolFlavorSelector_inverse:
  "PoolFlavorSelector (PoolScheduleLabels acceleratable cpuAware generalGroup acceleratorGroup os arch)
     = Some (PoolScheduleLabels acceleratable cpuAware generalGroup acceleratorGroup os arch)"
proof -
  let ?l = "PoolScheduleLabels acceleratable cpuAware generalGroup acceleratorGroup os arch"
  have "(NodeAcceleratableLabelKey, FormatBool acceleratable) \<in> set ?l"
    using pool_labels_boolean by (rule map_of_SomeD)
  then have "\<exists>(k, v) \<in> set ?l. k \<noteq> LabelOSStable \<and> k \<noteq> LabelArchStable \<and> pool_discriminator (k, v)"
    by (intro bexI [of _ "(NodeAcceleratableLabelKey, FormatBool acceleratable)"])
      (simp_all add: pool_discriminator_def)
  then show ?thesis
    unfolding PoolFlavorSelector_def using pool_labels_kept by (simp add: filter_id_conv list_all_iff)
qed

end
