(* ===== verification/Resource_Tokens.thy ===== *)
theory Resource_Tokens
  imports Resource_Names
begin

text \<open>
  \<open>pkg/deviceplugin/resource.go\<close>: how a device is named towards the kubelet. A \<open>Resource\<close> is a
  device of a group, a \<open>ResourceToken\<close> one allocatable token on it; \<open>DeviceIDs\<close> lists the tokens
  advertised per allocation mode and \<open>ParseResourceToken\<close> reads a device ID back. The decimal
  conversions are those of Go's \<open>strconv\<close> and of \<open>pkg/utils/strconvx\<close>.
\<close>

section \<open>Decimal numbers\<close>

definition digit_char :: "nat \<Rightarrow> char" where
  "digit_char d = char_of (48 + d)"

definition digit_val :: "char \<Rightarrow> nat" where
  "digit_val c = of_char c - 48"

fun FormatUint :: "nat \<Rightarrow> string" where
  "FormatUint n = (if n < 10 then [digit_char n] else FormatUint (n div 10) @ [digit_char (n mod 10)])"

declare FormatUint.simps [simp del]

definition PadZeroUint :: "nat \<Rightarrow> nat \<Rightarrow> string" where
  "PadZeroUint i width = (let s = FormatUint i in
     if length s \<ge> width then s else replicate (width - length s) CHR ''0'' @ s)"

definition decimal :: "string \<Rightarrow> nat" where
  "decimal s = foldl (\<lambda>n c. 10 * n + digit_val c) 0 s"

text \<open>\<open>strconv.ParseUint(s, 10, 64)\<close>: digits only, at least one, and within 64 bits.\<close>

definition ParseUint :: "string \<Rightarrow> nat option" where
  "ParseUint s = (if s = [] \<or> \<not> list_all is_digit s then None
     else if decimal s < 18446744073709551616 then Some (decimal s) else None)"

section \<open>Resources and tokens\<close>

record Resource =
  rs_Group :: string
  rs_Device :: string

record ResourceToken =
  rt_Resource :: Resource
  rt_Index :: nat

datatype token_error =
    InvalidDeviceIDFormat string
  | EmptyGroupOrDevice string
  | InvalidIndex string

definition Resource_String :: "Resource \<Rightarrow> string" where
  "Resource_String r = rs_Group r @ '':'' @ rs_Device r"

definition padIndex :: "nat \<Rightarrow> string" where
  "padIndex idx = PadZeroUint idx 4"

function shared_ids :: "string \<Rightarrow> nat \<Rightarrow> string list" where
  "shared_ids str i = (if i < 1600000 then (str @ padIndex i) # shared_ids str (i + 160000) else [])"
  by pat_completeness auto
termination by (relation "measure (\<lambda>(_, i). 1600000 - i)") auto

declare shared_ids.simps [simp del]

definition DeviceIDs :: "Resource \<Rightarrow> DeviceAllocationMode \<Rightarrow> int \<Rightarrow> string list" where
  "DeviceIDs r mode poolSize =
     (let str = Resource_String r @ '':'' in
      case mode of
        DeviceAllocationModeExclusive \<Rightarrow> [str @ ''0000'']
      | DeviceAllocationModeShared \<Rightarrow> shared_ids str 0
      | DeviceAllocationModeVisibility \<Rightarrow>
          map (\<lambda>i. str @ padIndex i) [0..<nat SlicedResourceMaxSize]
      | DeviceAllocationModeSliced \<Rightarrow>
          if poolSize \<le> 0 then [] else map (\<lambda>i. str @ padIndex i) [0..<nat poolSize]
      | DeviceAllocationModePartitioned \<Rightarrow>
          if poolSize \<le> 0 then [] else map (\<lambda>i. str @ padIndex i) [0..<nat poolSize]
      | _ \<Rightarrow> [])"

definition ResourceToken_String :: "ResourceToken \<Rightarrow> string" where
  "ResourceToken_String t = Resource_String (rt_Resource t) @ '':'' @ padIndex (rt_Index t)"

definition ParseResourceToken :: "string \<Rightarrow> token_error + ResourceToken" where
  "ParseResourceToken devID =
     (case Split devID CHR '':'' of
        [grp, device, index] \<Rightarrow>
          if grp = [] \<or> device = [] then Inl (EmptyGroupOrDevice devID)
          else (case ParseUint index of
                  None \<Rightarrow> Inl (InvalidIndex index)
                | Some idx \<Rightarrow>
                    Inr \<lparr>rt_Resource = \<lparr>rs_Group = grp, rs_Device = device\<rparr>, rt_Index = idx\<rparr>)
      | _ \<Rightarrow> Inl (InvalidDeviceIDFormat devID))"

section \<open>Facts about decimal numbers\<close>

lemma digit_char_val [simp]: "d < 10 \<Longrightarrow> digit_val (digit_char d) = d"
  by (simp add: digit_val_def digit_char_def)

lemma digit_char_is_digit [simp]: "d < 10 \<Longrightarrow> is_digit (digit_char d)"
  by (simp add: is_digit_def digit_char_def less_eq_char_def)

lemma decimal_snoc [simp]: "decimal (s @ [c]) = 10 * decimal s + digit_val c"
  by (simp add: decimal_def)

lemma decimal_Nil [simp]: "decimal [] = 0" by (simp add: decimal_def)

lemma decimal_FormatUint [simp]: "decimal (FormatUint n) = n"
proof (induction n rule: FormatUint.induct)
  case (1 n)
  have "n < 10 \<Longrightarrow> decimal [digit_char n] = n" by (simp add: decimal_def)
  with 1 show ?case by (subst FormatUint.simps) simp
qed

lemma FormatUint_digits: "list_all is_digit (FormatUint n) \<and> FormatUint n \<noteq> []"
proof (induction n rule: FormatUint.induct)
  case (1 n)
  then show ?case by (subst (1 2) FormatUint.simps) auto
qed

lemma decimal_zeros: "decimal (replicate k CHR ''0'' @ s) = decimal s"
proof -
  have "foldl (\<lambda>n c. 10 * n + digit_val c) 0 (replicate k CHR ''0'') = 0"
    by (induction k) (simp_all add: digit_val_def)
  then show ?thesis by (simp add: decimal_def)
qed

lemma ParseUint_padIndex [simp]: "n < 18446744073709551616 \<Longrightarrow> ParseUint (padIndex n) = Some n"
  using FormatUint_digits [of n]
  by (simp add: ParseUint_def padIndex_def PadZeroUint_def Let_def decimal_zeros list_all_iff is_digit_def
      less_eq_char_def)

lemma padIndex_no_colon: "CHR '':'' \<notin> set (padIndex n)"
  using FormatUint_digits [of n]
  by (auto simp: padIndex_def PadZeroUint_def Let_def list_all_iff is_digit_def less_eq_char_def)

lemma padIndex_zero: "padIndex 0 = ''0000''" by code_simp

lemma padIndex_inj: "padIndex i = padIndex j \<longleftrightarrow> i = j"
proof
  assume "padIndex i = padIndex j"
  then have "decimal (padIndex i) = decimal (padIndex j)" by simp
  then show "i = j" by (simp add: padIndex_def PadZeroUint_def Let_def decimal_zeros split: if_splits)
qed simp

section \<open>Facts about tokens\<close>

definition wf_resource :: "Resource \<Rightarrow> bool" where
  "wf_resource r \<longleftrightarrow> rs_Group r \<noteq> [] \<and> rs_Device r \<noteq> []
     \<and> CHR '':'' \<notin> set (rs_Group r) \<and> CHR '':'' \<notin> set (rs_Device r)"

lemma Split_token:
  "wf_resource r \<Longrightarrow> Split (Resource_String r @ '':'' @ padIndex i) CHR '':''
     = [rs_Group r, rs_Device r, padIndex i]"
  by (simp add: wf_resource_def Resource_String_def padIndex_no_colon)

lemma ParseResourceToken_token:
  "wf_resource r \<Longrightarrow> i < 18446744073709551616 \<Longrightarrow>
     ParseResourceToken (ResourceToken_String \<lparr>rt_Resource = r, rt_Index = i\<rparr>)
       = Inr \<lparr>rt_Resource = r, rt_Index = i\<rparr>"
  unfolding ParseResourceToken_def ResourceToken_String_def
  using Split_token [of r i] by (simp add: wf_resource_def)

lemma Split_parts: "p \<in> set (Split s c) \<Longrightarrow> c \<notin> set p"
  by (induction s c arbitrary: p rule: Split.induct) (auto split: if_splits list.splits)

lemma ParseResourceToken_Inr:
  assumes "ParseResourceToken devID = Inr t"
  shows "wf_resource (rt_Resource t) \<and> rt_Index t < 18446744073709551616"
proof -
  obtain g d i idx where split: "Split devID CHR '':'' = [g, d, i]" and "g \<noteq> []" "d \<noteq> []"
    and "ParseUint i = Some idx"
    and "t = \<lparr>rt_Resource = \<lparr>rs_Group = g, rs_Device = d\<rparr>, rt_Index = idx\<rparr>"
    using assms by (auto simp: ParseResourceToken_def split: list.splits if_splits option.splits)
  moreover have "CHR '':'' \<notin> set g" "CHR '':'' \<notin> set d"
    using Split_parts [of _ devID "CHR '':''"] split by auto
  ultimately show ?thesis by (auto simp: wf_resource_def ParseUint_def split: if_splits)
qed

text \<open>C15: A device ID and the token it names convert into each other: every token with non-empty,
  colon-free group and device and a 64-bit index is recovered from its device ID; and whatever ID
  is accepted, the accepted token is well-formed and its own ID reads back as the same token.\<close>

theorem ResourceToken_roundtrip:
  "(wf_resource (rt_Resource t) \<and> rt_Index t < 18446744073709551616
      \<longleftrightarrow> ParseResourceToken (ResourceToken_String t) = Inr t)
   \<and> (\<forall>devID. ParseResourceToken devID = Inr t \<longrightarrow> ParseResourceToken (ResourceToken_String t) = Inr t)"
proof -
  have "wf_resource (rt_Resource t) \<and> rt_Index t < 18446744073709551616
      \<Longrightarrow> ParseResourceToken (ResourceToken_String t) = Inr t"
    using ParseResourceToken_token [of "rt_Resource t" "rt_Index t"] by (cases t) simp
  then show ?thesis using ParseResourceToken_Inr by blast
qed

theorem ResourceToken_roundtrip_witness:
  "ParseResourceToken (ResourceToken_String
     \<lparr>rt_Resource = \<lparr>rs_Group = ''t4'', rs_Device = ''GPU-1''\<rparr>, rt_Index = 7\<rparr>)
   = Inr \<lparr>rt_Resource = \<lparr>rs_Group = ''t4'', rs_Device = ''GPU-1''\<rparr>, rt_Index = 7\<rparr>"
  using ResourceToken_roundtrip [of "\<lparr>rt_Resource = \<lparr>rs_Group = ''t4'', rs_Device = ''GPU-1''\<rparr>, rt_Index = 7\<rparr>"]
  by (simp add: wf_resource_def)

text \<open>The indices advertised per mode.\<close>

fun token_indices :: "DeviceAllocationMode \<Rightarrow> int \<Rightarrow> nat list" where
  "token_indices DeviceAllocationModeExclusive poolSize = [0]"
| "token_indices DeviceAllocationModeShared poolSize = map (\<lambda>k. 160000 * k) [0..<10]"
| "token_indices DeviceAllocationModeVisibility poolSize = [0..<512]"
| "token_indices DeviceAllocationModeSliced poolSize = [0..<nat poolSize]"
| "token_indices DeviceAllocationModePartitioned poolSize = [0..<nat poolSize]"
| "token_indices _ poolSize = []"

lemma token_indices_distinct: "distinct (token_indices mode poolSize)"
  by (cases "(mode, poolSize)" rule: token_indices.cases) (auto simp: distinct_map inj_on_def)

lemma token_indices_bound:
  "int32 poolSize \<Longrightarrow> i \<in> set (token_indices mode poolSize) \<Longrightarrow> i < 18446744073709551616"
  by (cases "(mode, poolSize)" rule: token_indices.cases) (auto simp: int32_def)

lemma shared_ids_eq: "shared_ids str 0 = map (\<lambda>i. str @ padIndex i) (map (\<lambda>k. 160000 * k) [0..<10])"
  by (simp add: shared_ids.simps upt_rec)

lemma DeviceIDs_tokens:
  "DeviceIDs r mode poolSize
     = map (\<lambda>i. ResourceToken_String \<lparr>rt_Resource = r, rt_Index = i\<rparr>) (token_indices mode poolSize)"
  by (cases mode) (simp_all add: DeviceIDs_def Let_def shared_ids_eq ResourceToken_String_def padIndex_zero)

text \<open>The device IDs advertised for an accelerator are pairwise distinct, as many as the mode
  calls for (1 exclusive, 10 shared, 512 visibility, the pool size for the pooled modes, none
  otherwise), and each is parsed back to a token on that same accelerator.\<close>

theorem DeviceIDs_parse_back:
  assumes "wf_resource r" and "int32 poolSize"
  shows "distinct (DeviceIDs r mode poolSize)
    \<and> length (DeviceIDs r mode poolSize) = length (token_indices mode poolSize)
    \<and> map ParseResourceToken (DeviceIDs r mode poolSize)
        = map (\<lambda>i. Inr \<lparr>rt_Resource = r, rt_Index = i\<rparr>) (token_indices mode poolSize)"
proof -
  have "map ParseResourceToken (DeviceIDs r mode poolSize)
      = map (\<lambda>i. Inr \<lparr>rt_Resource = r, rt_Index = i\<rparr>) (token_indices mode poolSize)"
    using assms token_indices_bound
    by (simp add: DeviceIDs_tokens ParseResourceToken_token)
  moreover have "inj_on (\<lambda>i. ResourceToken_String \<lparr>rt_Resource = r, rt_Index = i\<rparr>) A" for A
    by (simp add: inj_on_def ResourceToken_String_def padIndex_inj)
  ultimately show ?thesis
    by (simp add: DeviceIDs_tokens distinct_map token_indices_distinct)
qed

theorem DeviceIDs_parse_back_witness:
  "distinct (DeviceIDs \<lparr>rs_Group = ''t4'', rs_Device = ''GPU-1''\<rparr> DeviceAllocationModeShared 0)
   \<and> length (DeviceIDs \<lparr>rs_Group = ''t4'', rs_Device = ''GPU-1''\<rparr> DeviceAllocationModeShared 0) = 10"
  using DeviceIDs_parse_back [of "\<lparr>rs_Group = ''t4'', rs_Device = ''GPU-1''\<rparr>" 0 DeviceAllocationModeShared]
  by (simp add: wf_resource_def int32_def)

end
