(* ===== verification/Kube_Objects.thy ===== *)
theory Kube_Objects
  imports Prelude
begin

text \<open>
  The parts of the Kubernetes objects the program reads. A \<open>resource.Quantity\<close> is its exact value
  in units of \<open>10^-9\<close>, the finest scale the API keeps; \<open>Quantity.Value\<close> rounds it up to an
  integer. A Pod carries the metadata, containers and phase the ledger and the admission check
  look at.
\<close>

type_synonym Quantity = int

definition Value :: "Quantity \<Rightarrow> int" where
  "Value q = - ((- q) div 1000000000)"

definition quantity :: "int \<Rightarrow> Quantity" where
  "quantity n = n * 1000000000"

lemma Value_quantity [simp]: "Value (quantity n) = n"
  by (simp add: Value_def quantity_def minus_mult_left del: mult_minus_left)

lemma Value_nonneg: "0 \<le> q \<Longrightarrow> 0 \<le> Value q"
  by (simp add: Value_def div_nonpos_pos_le0)

record Container =
  ct_Name :: string
  ct_Requests :: "(string, Quantity) gomap"
  ct_Limits :: "(string, Quantity) gomap"
  ct_Env :: "(string \<times> string) list"

definition zero_Container :: Container where
  "zero_Container = \<lparr>ct_Name = [], ct_Requests = [], ct_Limits = [], ct_Env = []\<rparr>"

datatype PodPhase = PodPending | PodRunning | PodSucceeded | PodFailed | PodUnknown | PodPhaseUnset

record Pod =
  pod_Namespace :: string
  pod_Name :: string
  pod_UID :: string
  pod_Labels :: "(string, string) gomap"
  pod_Annotations :: "(string, string) gomap"
  pod_DeletionTimestamp :: "int option"
  pod_InitContainers :: "Container list"
  pod_Containers :: "Container list"
  pod_NodeName :: string
  pod_Phase :: PodPhase
  pod_CreationTimestamp :: int

definition zero_Pod :: Pod where
  "zero_Pod = \<lparr>pod_Namespace = [], pod_Name = [], pod_UID = [], pod_Labels = [],
     pod_Annotations = [], pod_DeletionTimestamp = None, pod_InitContainers = [],
     pod_Containers = [], pod_NodeName = [], pod_Phase = PodPhaseUnset,
     pod_CreationTimestamp = 0\<rparr>"

end
