(* ===== verification/Allocation_Ledger.thy ===== *)
theory Allocation_Ledger
  imports Device_Placement Resource_Tokens Kube_Objects
begin

text \<open>
  The rebuild of a node's allocation ledger, \<open>pkg/deviceplugin/controller.go\<close> with
  \<open>terminated.go\<close>: the record each Pod carries in an annotation, the part of it the Pod still
  holds, the reducer that charges it to the cards, and the fold over all Pods with its strict
  and its best-effort entry point. Decoding the annotation is the parameter \<open>unmarshal\<close> (an
  error text, or the decoded record, \<open>None\<close> for a nil map); logging is left out. The reducer writes through pointers
  into the ledger it is given, so it returns the written ledger together with its error.
\<close>

section \<open>Allocation records\<close>

record ContainerAllocation =
  ca_Devices :: DevicesStatus
  ca_DeviceIDs :: "string list"

definition zero_ContainerAllocation :: ContainerAllocation where
  "zero_ContainerAllocation = \<lparr>ca_Devices = zero_DevicesStatus, ca_DeviceIDs = []\<rparr>"

type_synonym PodAllocations = "(string, ContainerAllocation) gomap"

type_synonym decoder = "string \<Rightarrow> string + PodAllocations option"

abbreviation "AllocatedAcceleratorAnnoKey \<equiv> ''device.gpustack.ai/accelerator.allocated''"

fun add_group ::
    "DevicesAllocationGroup \<Rightarrow> DevicesAllocationGroup list \<times> (string, nat) gomap
      \<Rightarrow> DevicesAllocationGroup list \<times> (string, nat) gomap" where
  "add_group src (groups, groupIndex) =
     (let (idx, groups, groupIndex) =
            (case map_of groupIndex (ag_ID src) of
               Some idx \<Rightarrow> (idx, groups, groupIndex)
             | None \<Rightarrow>
                 (length groups,
                  groups @ [\<lparr>ag_ID = ag_ID src, ag_Manufacturer = ag_Manufacturer src, ag_Accelerators = []\<rparr>],
                  map_put (ag_ID src) (length groups) groupIndex))
      in (groups[idx := (groups ! idx)\<lparr>ag_Accelerators :=
                          ag_Accelerators (groups ! idx) @ ag_Accelerators src\<rparr>], groupIndex))"

definition Aggregate :: "PodAllocations \<Rightarrow> DevicesStatus" where
  "Aggregate pa =
     (let names = sort (map fst pa);
          srcs = concat (map (\<lambda>name. st_Groups (ca_Devices (map_get pa name zero_ContainerAllocation))) names)
      in zero_DevicesStatus\<lparr>st_Groups := fst (fold add_group srcs ([], []))\<rparr>)"

definition AllocatedAcceleratorsOf :: "decoder \<Rightarrow> Pod \<Rightarrow> string + PodAllocations option" where
  "AllocatedAcceleratorsOf unmarshal pod =
     (let str = map_get (pod_Annotations pod) AllocatedAcceleratorAnnoKey [] in
      if str = [] then Inr None else unmarshal str)"

text \<open>Ranging over a nil map visits nothing, so a nil record aggregates like an empty one.\<close>

definition entries :: "PodAllocations option \<Rightarrow> PodAllocations" where
  "entries allocations = (case allocations of None \<Rightarrow> [] | Some pa \<Rightarrow> pa)"

definition AllocatedAcceleratorGroupsOf :: "decoder \<Rightarrow> Pod \<Rightarrow> DevicesAllocationGroup list" where
  "AllocatedAcceleratorGroupsOf unmarshal pod =
     (case AllocatedAcceleratorsOf unmarshal pod of
        Inl _ \<Rightarrow> [] | Inr allocations \<Rightarrow> st_Groups (Aggregate (entries allocations)))"

definition allocatedStatusOf :: "decoder \<Rightarrow> Pod \<Rightarrow> string + DevicesStatus" where
  "allocatedStatusOf unmarshal pod =
     (case AllocatedAcceleratorsOf unmarshal pod of
        Inl err \<Rightarrow> Inl err | Inr allocations \<Rightarrow> Inr (Aggregate (entries allocations)))"

definition containerRequests :: "Container \<Rightarrow> string \<Rightarrow> Quantity \<Rightarrow> bool" where
  "containerRequests ctr resName resQuantity \<longleftrightarrow> map_of (ct_Limits ctr) resName = Some resQuantity"

section \<open>What a Pod still holds\<close>

definition statefulSlicedManufacturers :: "string set" where
  "statefulSlicedManufacturers = {ManufacturerMetaX, ManufacturerCambricon}"

definition podTerminated :: "Pod \<Rightarrow> bool" where
  "podTerminated pod \<longleftrightarrow> pod_Phase pod = PodSucceeded \<or> pod_Phase pod = PodFailed"

definition heldAfterTermination :: "string \<Rightarrow> AcceleratorAllocation \<Rightarrow> bool" where
  "heldAfterTermination manufacturer acc =
     (if aa_AllocatedPhysicalProfile acc \<noteq> [] \<or> aa_AllocatedPhysicalPlacements acc \<noteq> [] then True
      else case aa_Mode acc of
        DeviceAllocationModeExclusive \<Rightarrow> False
      | DeviceAllocationModeShared \<Rightarrow> False
      | DeviceAllocationModeSliced \<Rightarrow> manufacturer \<in> statefulSlicedManufacturers
      | _ \<Rightarrow> True)"

text \<open>\<open>released\<close> is \<open>terminatedPodsReleased()\<close>, read once from the environment at startup.\<close>

definition heldAllocation :: "bool \<Rightarrow> Pod \<Rightarrow> DevicesStatus \<Rightarrow> DevicesStatus" where
  "heldAllocation released pod status =
     (if \<not> podTerminated pod \<or> \<not> released then status
      else zero_DevicesStatus\<lparr>st_Groups :=
        filter (\<lambda>g. ag_Accelerators g \<noteq> [])
          (map (\<lambda>g. g\<lparr>ag_Accelerators :=
                        filter (heldAfterTermination (ag_Manufacturer g)) (ag_Accelerators g)\<rparr>)
             (st_Groups status))\<rparr>)"

definition podUpdateChangesLedger :: "Pod \<Rightarrow> Pod \<Rightarrow> bool" where
  "podUpdateChangesLedger oldPod newPod =
     (if has_key (pod_Annotations newPod) AllocatedAcceleratorAnnoKey
         \<and> podTerminated newPod \<and> \<not> podTerminated oldPod then True
      else if pod_DeletionTimestamp newPod = None
      then map_of (pod_Annotations oldPod) AllocatedAcceleratorAnnoKey
           \<noteq> map_of (pod_Annotations newPod) AllocatedAcceleratorAnnoKey
      else if has_key (pod_Annotations oldPod) AllocatedAcceleratorAnnoKey
      then pod_DeletionTimestamp oldPod = None
           \<or> pod_DeletionTimestamp oldPod \<noteq> pod_DeletionTimestamp newPod
      else False)"

section \<open>The seed\<close>

definition initDesiredStatus :: "Devices \<Rightarrow> DevicesStatus" where
  "initDesiredStatus devs =
     zero_DevicesStatus\<lparr>st_Groups :=
       map (\<lambda>specGrp. \<lparr>ag_ID = dg_ID specGrp, ag_Manufacturer = dg_Manufacturer specGrp,
              ag_Accelerators =
                map (\<lambda>acc. zero_AcceleratorAllocation\<lparr>aa_ID := ac_ID acc, aa_Index := ac_Index acc,
                        aa_Mode := DeviceAllocationModeNone, aa_Remaining := ResourceMaxUnits\<rparr>)
                  (dg_Accelerators specGrp)\<rparr>)
         (sp_Groups (dv_Spec devs))\<rparr>"

section \<open>The reducer\<close>

text \<open>A claim is one accelerator entry of a Pod's record, with the device it names. A position is
  the pair of indices a pointer into the ledger stands for.\<close>

type_synonym claim = "Resource \<times> AcceleratorAllocation"
type_synonym position = "nat \<times> nat"

datatype conflict = ConflictingMode Resource DeviceAllocationMode DeviceAllocationMode

definition claims_of :: "DevicesStatus \<Rightarrow> claim list" where
  "claims_of status =
     concat (map (\<lambda>g. map (\<lambda>a. (\<lparr>rs_Group = ag_ID g, rs_Device = aa_ID a\<rparr>, a)) (ag_Accelerators g))
               (st_Groups status))"

fun get_acc :: "DevicesStatus \<Rightarrow> position \<Rightarrow> AcceleratorAllocation" where
  "get_acc st (i, j) = ag_Accelerators (st_Groups st ! i) ! j"

fun upd_acc :: "position \<Rightarrow> (AcceleratorAllocation \<Rightarrow> AcceleratorAllocation) \<Rightarrow> DevicesStatus \<Rightarrow> DevicesStatus" where
  "upd_acc (i, j) f st =
     st\<lparr>st_Groups := (st_Groups st)[i := (st_Groups st ! i)\<lparr>ag_Accelerators :=
         (ag_Accelerators (st_Groups st ! i))[j := f (get_acc st (i, j))]\<rparr>]\<rparr>"

fun resource_at :: "DevicesStatus \<Rightarrow> position \<Rightarrow> Resource" where
  "resource_at st (i, j) = \<lparr>rs_Group = ag_ID (st_Groups st ! i), rs_Device = aa_ID (get_acc st (i, j))\<rparr>"

definition positions :: "DevicesStatus \<Rightarrow> position list" where
  "positions st = concat (map (\<lambda>i. map (\<lambda>j. (i, j)) [0..<length (ag_Accelerators (st_Groups st ! i))])
                            [0..<length (st_Groups st)])"

text \<open>\<open>dstAcceleratorIndex\<close>: filled in ledger order, so a repeated device keeps its last entry.\<close>

definition dstAcceleratorIndex :: "DevicesStatus \<Rightarrow> Resource \<Rightarrow> position option" where
  "dstAcceleratorIndex st = map_of (rev (map (\<lambda>p. (resource_at st p, p)) (positions st)))"

definition charge :: "AcceleratorAllocation \<Rightarrow> AcceleratorAllocation \<Rightarrow> AcceleratorAllocation" where
  "charge src dst = dst\<lparr>
     aa_Mode := aa_Mode src,
     aa_Remaining := max (wrap32 (aa_Remaining dst - aa_Allocated src)) 0,
     aa_AllocatedSlices := (if aa_Mode src = DeviceAllocationModeSliced
                            then wrap32 (aa_AllocatedSlices dst + 1) else aa_AllocatedSlices dst)\<rparr>"

text \<open>The charging loop, over any store of cards.\<close>

fun charge_claims ::
    "('s \<Rightarrow> 'p \<Rightarrow> AcceleratorAllocation)
      \<Rightarrow> ('p \<Rightarrow> (AcceleratorAllocation \<Rightarrow> AcceleratorAllocation) \<Rightarrow> 's \<Rightarrow> 's)
      \<Rightarrow> (Resource \<Rightarrow> 'p option) \<Rightarrow> claim list \<Rightarrow> 's \<Rightarrow> 's \<times> conflict option" where
  "charge_claims get upd index [] st = (st, None)"
| "charge_claims get upd index ((res, src) # cs) st =
     (case index res of
        None \<Rightarrow> charge_claims get upd index cs st
      | Some p \<Rightarrow>
          if aa_Mode (get st p) \<noteq> DeviceAllocationModeNone \<and> aa_Mode (get st p) \<noteq> aa_Mode src
          then (st, Some (ConflictingMode res (aa_Mode (get st p)) (aa_Mode src)))
          else charge_claims get upd index cs (upd p (charge src) st))"

definition applyAllocatedStatus :: "DevicesStatus \<Rightarrow> DevicesStatus \<Rightarrow> DevicesStatus \<times> conflict option" where
  "applyAllocatedStatus allocatedStatus remainingStatus =
     (if st_Groups allocatedStatus = [] then (remainingStatus, None)
      else charge_claims get_acc upd_acc (dstAcceleratorIndex remainingStatus)
             (claims_of allocatedStatus) remainingStatus)"

section \<open>The partition ledger\<close>

type_synonym Placements = "(Resource, AcceleratorPlacement list) gomap"
type_synonym ProfileCounts = "(Resource, (string, int) gomap) gomap"

fun occupy :: "claim \<Rightarrow> Placements \<times> ProfileCounts \<Rightarrow> Placements \<times> ProfileCounts" where
  "occupy (res, acc) (occupied, allocated) =
     (if aa_AllocatedPhysicalProfile acc = [] \<or> aa_AllocatedPhysicalPlacements acc = []
      then (occupied, allocated)
      else let counts = map_get allocated res [] in
        (map_put res (map_get occupied res [] @ aa_AllocatedPhysicalPlacements acc) occupied,
         map_put res (map_put (aa_AllocatedPhysicalProfile acc)
             (wrap32 (map_get counts (aa_AllocatedPhysicalProfile acc) 0 + 1)) counts) allocated))"

definition accumulatePhysicalOccupied ::
    "DevicesStatus \<Rightarrow> Placements \<times> ProfileCounts \<Rightarrow> Placements \<times> ProfileCounts" where
  "accumulatePhysicalOccupied podStatus = fold occupy (claims_of podStatus)"

definition accumulateLogicalOccupied :: "DevicesStatus \<Rightarrow> Placements \<Rightarrow> Placements" where
  "accumulateLogicalOccupied podStatus =
     fold (\<lambda>(res, acc) occupied.
       if aa_AllocatedLogicalPlacements acc = [] then occupied
       else map_put res (map_get occupied res [] @ aa_AllocatedLogicalPlacements acc) occupied)
     (claims_of podStatus)"

definition possible_placements ::
    "AcceleratorPhysicalSlicedProfile list \<Rightarrow> (string, AcceleratorPlacement list) gomap" where
  "possible_placements profiles =
     fold (\<lambda>p possible. if pp_Placements p \<noteq> [] then map_put (pp_Name p) (pp_Placements p) possible
                        else possible) profiles []"

definition fold_physical_card ::
    "DevicesGroup \<Rightarrow> Accelerator \<Rightarrow> Placements \<Rightarrow> ProfileCounts \<Rightarrow> AcceleratorAllocation \<Rightarrow> AcceleratorAllocation" where
  "fold_physical_card grp acc occupied allocated dst =
     (let profiles = ps_Profiles (as_PhysicalSliced (ac_Status acc));
          res = \<lparr>rs_Group = dg_ID grp, rs_Device = ac_ID acc\<rparr>
      in if profiles = [] then dst
         else dst\<lparr>aa_AllocatedProfiles := ProfileCountSlice (map_get allocated res []),
                  aa_RemainingProfiles := ProfileCountSlice
                    (ComputeRemainingProfiles (map_get occupied res []) (possible_placements profiles))\<rparr>)"

text \<open>The ledger is indexed by the positions of the inventory it was seeded from.\<close>

definition foldPhysicalLedger ::
    "Devices \<Rightarrow> DevicesStatus \<Rightarrow> Placements \<Rightarrow> ProfileCounts \<Rightarrow> DevicesStatus" where
  "foldPhysicalLedger devs status occupied allocated =
     fold (\<lambda>(i, grp). fold (\<lambda>(j, acc). upd_acc (i, j) (fold_physical_card grp acc occupied allocated))
                        (enumerate 0 (dg_Accelerators grp)))
       (enumerate 0 (sp_Groups (dv_Spec devs))) status"

section \<open>The fold over all Pods\<close>

datatype foldStep = readFoldStep | mergeFoldStep

datatype fold_error = ReadError string string string | MergeError string string conflict

record FoldState =
  fs_Status :: DevicesStatus
  fs_Physical :: "Placements \<times> ProfileCounts"
  fs_Live :: "string list"

fun fold_pods ::
    "decoder \<Rightarrow> bool \<Rightarrow> (foldStep \<Rightarrow> Pod \<Rightarrow> fold_error \<Rightarrow> bool) \<Rightarrow> Pod list \<Rightarrow> FoldState
      \<Rightarrow> fold_error + FoldState" where
  "fold_pods unmarshal released onFailure [] fs = Inr fs"
| "fold_pods unmarshal released onFailure (pod # pods) fs =
     (let fs = fs\<lparr>fs_Live := fs_Live fs @ [pod_UID pod]\<rparr> in
      case allocatedStatusOf unmarshal pod of
        Inl err \<Rightarrow>
          (let readErr = ReadError (pod_Namespace pod) (pod_Name pod) err in
           if \<not> onFailure readFoldStep pod readErr then Inl readErr
           else fold_pods unmarshal released onFailure pods fs)
      | Inr recorded \<Rightarrow>
          (let podStatus = heldAllocation released pod recorded in
           case applyAllocatedStatus podStatus (fs_Status fs) of
             (written, Some err) \<Rightarrow>
               (let mergeErr = MergeError (pod_Namespace pod) (pod_Name pod) err in
                if \<not> onFailure mergeFoldStep pod mergeErr then Inl mergeErr
                else fold_pods unmarshal released onFailure pods (fs\<lparr>fs_Status := written\<rparr>))
           | (merged, None) \<Rightarrow>
               fold_pods unmarshal released onFailure pods
                 (fs\<lparr>fs_Status := merged,
                     fs_Physical := accumulatePhysicalOccupied podStatus (fs_Physical fs)\<rparr>)))"

definition foldPodAllocations ::
    "decoder \<Rightarrow> bool \<Rightarrow> Devices \<Rightarrow> Pod list \<Rightarrow> DevicesStatus \<Rightarrow> (foldStep \<Rightarrow> Pod \<Rightarrow> fold_error \<Rightarrow> bool)
      \<Rightarrow> fold_error + DevicesStatus \<times> string list" where
  "foldPodAllocations unmarshal released devs pods desiredStatus onFailure =
     (case fold_pods unmarshal released onFailure pods
             \<lparr>fs_Status = desiredStatus, fs_Physical = ([], []), fs_Live = []\<rparr> of
        Inl err \<Rightarrow> Inl err
      | Inr fs \<Rightarrow> Inr (foldPhysicalLedger devs (fs_Status fs) (fst (fs_Physical fs)) (snd (fs_Physical fs)),
                       fs_Live fs))"

definition stopAtFoldFailure :: "foldStep \<Rightarrow> Pod \<Rightarrow> fold_error \<Rightarrow> bool" where
  "stopAtFoldFailure step pod err = False"

definition absorbFoldFailure :: "foldStep \<Rightarrow> Pod \<Rightarrow> fold_error \<Rightarrow> bool" where
  "absorbFoldFailure step pod err = True"

definition mergePodAllocationsStrict ::
    "decoder \<Rightarrow> bool \<Rightarrow> Devices \<Rightarrow> Pod list \<Rightarrow> fold_error + DevicesStatus \<times> string list" where
  "mergePodAllocationsStrict unmarshal released devs pods =
     foldPodAllocations unmarshal released devs pods (initDesiredStatus devs) stopAtFoldFailure"

definition mergePodAllocations ::
    "decoder \<Rightarrow> bool \<Rightarrow> Devices \<Rightarrow> Pod list \<Rightarrow> DevicesStatus \<Rightarrow> DevicesStatus \<times> string list" where
  "mergePodAllocations unmarshal released devs pods desiredStatus =
     (case foldPodAllocations unmarshal released devs pods desiredStatus absorbFoldFailure of
        Inr r \<Rightarrow> r | Inl _ \<Rightarrow> (zero_DevicesStatus, []))"

definition BuildDesiredStatus ::
    "decoder \<Rightarrow> bool \<Rightarrow> Devices \<Rightarrow> Pod list \<Rightarrow> DevicesStatus \<times> string list" where
  "BuildDesiredStatus unmarshal released devs pods =
     mergePodAllocations unmarshal released devs pods (initDesiredStatus devs)"

definition ledgerGroupsEqual :: "DevicesAllocationGroup list \<Rightarrow> DevicesAllocationGroup list \<Rightarrow> bool" where
  "ledgerGroupsEqual a b = (if length a \<noteq> length b then False else a = b)"

section \<open>Charging one card\<close>

definition valid_claim :: "AcceleratorAllocation \<Rightarrow> bool" where
  "valid_claim a \<longleftrightarrow> 0 \<le> aa_Allocated a \<and> int32 (aa_Allocated a)"

definition card_ok :: "AcceleratorAllocation \<Rightarrow> bool" where
  "card_ok a \<longleftrightarrow> 0 \<le> aa_Remaining a \<and> aa_Remaining a \<le> ResourceMaxUnits"

lemma charge_fields [simp]:
  "aa_ID (charge src dst) = aa_ID dst" "aa_Index (charge src dst) = aa_Index dst"
  "aa_Mode (charge src dst) = aa_Mode src"
  by (simp_all add: charge_def)

lemma charge_remaining:
  "valid_claim src \<Longrightarrow> card_ok dst \<Longrightarrow>
     aa_Remaining (charge src dst) = max 0 (aa_Remaining dst - aa_Allocated src)"
  by (simp add: charge_def valid_claim_def card_ok_def wrap32_id int32_def max.commute)

lemma charge_ok: "valid_claim src \<Longrightarrow> card_ok dst \<Longrightarrow> card_ok (charge src dst)"
  by (simp add: charge_remaining card_ok_def valid_claim_def)

lemma fold_charge_remaining:
  "\<forall>c \<in> set cs. valid_claim c \<Longrightarrow> card_ok dst \<Longrightarrow>
     card_ok (fold charge cs dst)
     \<and> aa_Remaining (fold charge cs dst) = max 0 (aa_Remaining dst - (\<Sum>c\<leftarrow>cs. aa_Allocated c))"
proof (induction cs arbitrary: dst)
  case (Cons c cs)
  then have c: "valid_claim c" and cs: "\<forall>c \<in> set cs. valid_claim c" by simp_all
  have "0 \<le> (\<Sum>c\<leftarrow>cs. aa_Allocated c)"
    using cs by (intro sum_list_nonneg) (auto simp: valid_claim_def)
  then show ?case
    using Cons.IH [OF cs charge_ok [OF c Cons.prems(2)]] charge_remaining [OF c Cons.prems(2)] by simp
qed (simp add: card_ok_def)

lemma fold_charge_slices:
  "int32 (aa_AllocatedSlices dst) \<Longrightarrow>
     aa_AllocatedSlices (fold charge cs dst)
       = wrap32 (aa_AllocatedSlices dst
                 + int (length (filter (\<lambda>c. aa_Mode c = DeviceAllocationModeSliced) cs)))"
proof (induction cs arbitrary: dst)
  case (Cons c cs)
  have "int32 (aa_AllocatedSlices (charge c dst))"
    using Cons.prems by (simp add: charge_def)
  from Cons.IH [OF this] show ?case
    using Cons.prems by (simp add: charge_def wrap32_add_left algebra_simps)
qed (simp add: wrap32_id)

lemma fold_charge_keeps:
  "aa_ID (fold charge cs dst) = aa_ID dst" "aa_Index (fold charge cs dst) = aa_Index dst"
  "aa_AllocatedProfiles (fold charge cs dst) = aa_AllocatedProfiles dst"
  "aa_Mode (fold charge cs dst) = (if cs = [] then aa_Mode dst else aa_Mode (last cs))"
  by (induction cs arbitrary: dst) (simp_all add: charge_def)

section \<open>Stores of cards\<close>

definition claims_to :: "Resource \<Rightarrow> claim list \<Rightarrow> AcceleratorAllocation list" where
  "claims_to r cs = map snd (filter (\<lambda>c. fst c = r) cs)"

text \<open>What the charging loop needs of the ledger it writes: a device names at most one card, a
  write reaches that card alone, and it does not change which card a device names.\<close>

locale card_store =
  fixes lookup :: "'s \<Rightarrow> Resource \<Rightarrow> 'p option"
    and get :: "'s \<Rightarrow> 'p \<Rightarrow> AcceleratorAllocation"
    and upd :: "'p \<Rightarrow> (AcceleratorAllocation \<Rightarrow> AcceleratorAllocation) \<Rightarrow> 's \<Rightarrow> 's"
  assumes lookup_inj: "lookup s r = Some p \<Longrightarrow> lookup s r' = Some p \<Longrightarrow> r' = r"
    and get_upd: "lookup s r = Some p \<Longrightarrow> get (upd p f s) q = (if q = p then f (get s p) else get s q)"
    and lookup_upd: "lookup s r = Some p \<Longrightarrow> (\<And>a. aa_ID (f a) = aa_ID a) \<Longrightarrow> lookup (upd p f s) = lookup s"
begin

lemma charge_claims_lookup:
  "charge_claims get upd (lookup s) cs s = (s', e) \<Longrightarrow> lookup s' = lookup s"
proof (induction cs arbitrary: s)
  case (Cons c cs)
  obtain res src where c: "c = (res, src)" by (cases c)
  show ?case
  proof (cases "lookup s res")
    case None
    with Cons c show ?thesis by simp
  next
    case (Some p)
    let ?s = "upd p (charge src) s"
    have ls: "lookup ?s = lookup s" using Some by (rule lookup_upd) simp
    from Cons.prems c Some consider "s' = s" | "charge_claims get upd (lookup ?s) cs ?s = (s', e)"
      unfolding ls by (simp split: if_splits)
    then show ?thesis
    proof cases
      case 2
      from Cons.IH [OF this] ls show ?thesis by (rule trans)
    qed simp
  qed
qed simp

lemma charge_claims_cards:
  "charge_claims get upd (lookup s) cs s = (s', None) \<Longrightarrow> lookup s r = Some p \<Longrightarrow>
     get s' p = fold charge (claims_to r cs) (get s p)
     \<and> (\<forall>c \<in> set (claims_to r cs). aa_Mode c = DeviceAllocationModeNone \<or> aa_Mode c = aa_Mode (get s' p))
     \<and> (aa_Mode (get s p) = DeviceAllocationModeNone \<or> aa_Mode (get s p) = aa_Mode (get s' p))"
proof (induction cs arbitrary: s)
  case Nil
  then show ?case by (simp add: claims_to_def)
next
  case (Cons c cs)
  obtain res src where c: "c = (res, src)" by (cases c)
  show ?case
  proof (cases "lookup s res")
    case None
    with Cons.prems c have "res \<noteq> r" by auto
    then have skip: "claims_to r (c # cs) = claims_to r cs" using c by (simp add: claims_to_def)
    from Cons.prems(1) c None have "charge_claims get upd (lookup s) cs s = (s', None)" by simp
    from Cons.IH [OF this Cons.prems(2)] show ?thesis unfolding skip .
  next
    case (Some q)
    let ?s = "upd q (charge src) s"
    have ls: "lookup ?s = lookup s" using Some by (rule lookup_upd) simp
    from Cons.prems c Some have run: "charge_claims get upd (lookup ?s) cs ?s = (s', None)"
      and ok: "aa_Mode (get s q) = DeviceAllocationModeNone \<or> aa_Mode (get s q) = aa_Mode src"
      by (auto simp: ls split: if_splits)
    note IH = Cons.IH [OF run, unfolded ls, OF Cons.prems(2)]
    have same: "q = p \<longleftrightarrow> res = r"
      using Some Cons.prems(2) lookup_inj by (metis option.inject)
    show ?thesis
    proof (cases "res = r")
      case True
      with same have q: "q = p" by simp
      have g: "get ?s p = charge src (get s p)" using get_upd [OF Some] q by simp
      have "claims_to r (c # cs) = src # claims_to r cs" using True c by (simp add: claims_to_def)
      with IH g ok q show ?thesis by auto
    next
      case False
      with same have g: "get ?s p = get s p" using get_upd [OF Some, of "charge src" p] by simp
      have skip: "claims_to r (c # cs) = claims_to r cs" using False c by (simp add: claims_to_def)
      show ?thesis using IH unfolding g skip .
    qed
  qed
qed

lemma charge_claims_keep:
  assumes "\<And>src dst. src \<in> snd ` set cs \<Longrightarrow> P dst \<Longrightarrow> P (charge src dst)"
  shows "charge_claims get upd (lookup s) cs s = (s', e) \<Longrightarrow> \<forall>p. P (get s p) \<Longrightarrow> \<forall>p. P (get s' p)"
  using assms
proof (induction cs arbitrary: s)
  case (Cons c cs)
  obtain res src where c: "c = (res, src)" by (cases c)
  have tl: "\<And>src dst. src \<in> snd ` set cs \<Longrightarrow> P dst \<Longrightarrow> P (charge src dst)"
    using Cons.prems(3) by simp
  show ?case
  proof (cases "lookup s res")
    case None
    with Cons.IH [OF _ Cons.prems(2) tl] Cons.prems(1) c show ?thesis by simp
  next
    case (Some p)
    let ?s = "upd p (charge src) s"
    have ls: "lookup ?s = lookup s" using Some by (rule lookup_upd) simp
    have "\<forall>q. P (get ?s q)"
      using get_upd [OF Some] Cons.prems(2,3) c by simp
    moreover from Cons.prems(1) c Some consider "s' = s" | "charge_claims get upd (lookup ?s) cs ?s = (s', e)"
      unfolding ls by (simp split: if_splits)
    ultimately show ?thesis
      using Cons.IH [of ?s, OF _ _ tl] Cons.prems(2) by blast
  qed
qed simp

end

section \<open>The ledger is a store of cards\<close>

definition in_ledger :: "DevicesStatus \<Rightarrow> position \<Rightarrow> bool" where
  "in_ledger st p \<longleftrightarrow> p \<in> set (positions st)"

lemma in_ledger_iff:
  "in_ledger st (i, j) \<longleftrightarrow> i < length (st_Groups st) \<and> j < length (ag_Accelerators (st_Groups st ! i))"
  by (auto simp: in_ledger_def positions_def image_iff Bex_def)

lemma get_acc_upd_acc:
  "get_acc (upd_acc p f st) q = (if q = p \<and> in_ledger st p then f (get_acc st p) else get_acc st q)"
proof (cases p; cases q)
  fix i j i' j'
  assume p: "p = (i, j)" and q: "q = (i', j')"
  show ?thesis
  proof (cases "i' = i \<and> i < length (st_Groups st)")
    case True
    then show ?thesis
      by (cases "j' = j \<and> j < length (ag_Accelerators (st_Groups st ! i))")
        (auto simp: p q in_ledger_iff list_update_beyond)
  next
    case False
    then show ?thesis
      by (cases "i' = i") (auto simp: p q in_ledger_iff list_update_beyond)
  qed
qed

definition shape :: "DevicesStatus \<Rightarrow> (string \<times> string \<times> (string \<times> nat) list) list" where
  "shape st = map (\<lambda>g. (ag_ID g, ag_Manufacturer g, map (\<lambda>a. (aa_ID a, aa_Index a)) (ag_Accelerators g)))
     (st_Groups st)"

lemma map_update_same: "i < length xs \<Longrightarrow> g y = g (xs ! i) \<Longrightarrow> map g (xs[i := y]) = map g xs"
  by (metis list_update_id map_update)

lemma shape_upd_acc:
  assumes "\<And>a. aa_ID (f a) = aa_ID a \<and> aa_Index (f a) = aa_Index a"
  shows "shape (upd_acc p f st) = shape st"
proof (cases p)
  case (Pair i j)
  let ?accs = "ag_Accelerators (st_Groups st ! i)"
  have "map (\<lambda>a. (aa_ID a, aa_Index a)) (?accs[j := f (?accs ! j)]) = map (\<lambda>a. (aa_ID a, aa_Index a)) ?accs"
    using assms by (cases "j < length ?accs") (simp_all add: map_update_same list_update_beyond)
  then show ?thesis
    by (cases "i < length (st_Groups st)")
      (simp_all add: Pair shape_def map_update_same list_update_beyond)
qed

definition ids :: "DevicesStatus \<Rightarrow> (string \<times> string list) list" where
  "ids st = map (\<lambda>g. (ag_ID g, map aa_ID (ag_Accelerators g))) (st_Groups st)"

lemma ids_upd_acc:
  assumes "\<And>a. aa_ID (f a) = aa_ID a"
  shows "ids (upd_acc p f st) = ids st"
proof (cases p)
  case (Pair i j)
  let ?accs = "ag_Accelerators (st_Groups st ! i)"
  have "map aa_ID (?accs[j := f (?accs ! j)]) = map aa_ID ?accs"
    using assms by (cases "j < length ?accs") (simp_all add: map_update_same list_update_beyond)
  then show ?thesis
    by (cases "i < length (st_Groups st)")
      (simp_all add: Pair ids_def map_update_same list_update_beyond)
qed

lemma ids_of_shape: "ids st = map (\<lambda>(i, m, accs). (i, map fst accs)) (shape st)"
  by (simp add: ids_def shape_def comp_def)

lemma positions_ids:
  "positions st = concat (map (\<lambda>i. map (\<lambda>j. (i, j)) [0..<length (snd (ids st ! i))]) [0..<length (ids st)])"
proof -
  have "length (snd (ids st ! i)) = length (ag_Accelerators (st_Groups st ! i))" if "i < length (st_Groups st)" for i
    using that by (simp add: ids_def)
  moreover have "length (ids st) = length (st_Groups st)" by (simp add: ids_def)
  ultimately show ?thesis
    unfolding positions_def by (intro arg_cong [of _ _ concat] map_cong) simp_all
qed

lemma resource_at_ids:
  "in_ledger st (i, j) \<Longrightarrow>
     resource_at st (i, j) = \<lparr>rs_Group = fst (ids st ! i), rs_Device = snd (ids st ! i) ! j\<rparr>"
  by (simp add: in_ledger_iff ids_def)

lemma dstAcceleratorIndex_ids:
  assumes "ids st = ids st'"
  shows "dstAcceleratorIndex st = dstAcceleratorIndex st'"
proof -
  have pos: "positions st = positions st'" unfolding positions_ids assms ..
  have "map (\<lambda>p. (resource_at st p, p)) (positions st) = map (\<lambda>p. (resource_at st' p, p)) (positions st')"
    unfolding pos
  proof (rule map_cong [OF refl])
    fix p assume "p \<in> set (positions st')"
    then have "in_ledger st p" "in_ledger st' p" using pos by (simp_all add: in_ledger_def)
    then show "(resource_at st p, p) = (resource_at st' p, p)"
      using assms by (cases p) (simp del: resource_at.simps add: resource_at_ids)
  qed
  then show ?thesis by (simp add: dstAcceleratorIndex_def)
qed

lemma dstAcceleratorIndex_Some:
  assumes "dstAcceleratorIndex st r = Some p"
  shows "in_ledger st p \<and> resource_at st p = r"
  using map_of_SomeD [OF assms [unfolded dstAcceleratorIndex_def]] by (auto simp: in_ledger_def)

interpretation ledger: card_store dstAcceleratorIndex get_acc upd_acc
proof
  fix s r p r' assume "dstAcceleratorIndex s r = Some p" "dstAcceleratorIndex s r' = Some p"
  then show "r' = r" by (metis dstAcceleratorIndex_Some)
next
  fix s r p f q assume "dstAcceleratorIndex s r = Some p"
  then show "get_acc (upd_acc p f s) q = (if q = p then f (get_acc s p) else get_acc s q)"
    using dstAcceleratorIndex_Some by (simp add: get_acc_upd_acc)
next
  fix s r p and f :: "AcceleratorAllocation \<Rightarrow> AcceleratorAllocation"
  assume "\<And>a. aa_ID (f a) = aa_ID a"
  then show "dstAcceleratorIndex (upd_acc p f s) = dstAcceleratorIndex s"
    by (intro dstAcceleratorIndex_ids ids_upd_acc)
qed

lemma charge_claims_shape:
  "charge_claims get_acc upd_acc index cs st = (st', e) \<Longrightarrow> shape st' = shape st"
proof (induction cs arbitrary: st)
  case (Cons c cs)
  obtain res src where c: "c = (res, src)" by (cases c)
  show ?case
  proof (cases "index res")
    case None
    with Cons c show ?thesis by simp
  next
    case (Some p)
    have "shape (upd_acc p (charge src) st) = shape st" by (rule shape_upd_acc) simp
    moreover from Cons.prems c Some consider "st' = st"
      | "charge_claims get_acc upd_acc index cs (upd_acc p (charge src) st) = (st', e)"
      by (simp split: if_splits)
    ultimately show ?thesis using Cons.IH by metis
  qed
qed simp

declare get_acc.simps [simp del] upd_acc.simps [simp del] resource_at.simps [simp del]

end
