(* ===== verification/Ledger_Rebuild.thy ===== *)
theory Ledger_Rebuild
  imports Allocation_Ledger
begin

text \<open>
  What the rebuilt ledger says: each card's room, slice count and mode in terms of the claims the
  Pods hold, the agreement of the strict and the best-effort rebuild, what the best-effort rebuild
  keeps when it absorbs a failure, and the partition ledger in terms of free intervals.
\<close>

section \<open>Facts about the records\<close>

definition container_claims :: "PodAllocations \<Rightarrow> claim list" where
  "container_claims pa = concat (map (\<lambda>(name, ca). claims_of (ca_Devices ca)) pa)"

definition group_claims :: "DevicesAllocationGroup list \<Rightarrow> claim multiset" where
  "group_claims gs = (\<Sum>g\<leftarrow>gs. mset (map (\<lambda>a. (\<lparr>rs_Group = ag_ID g, rs_Device = aa_ID a\<rparr>, a)) (ag_Accelerators g)))"

lemma mset_claims_of: "mset (claims_of st) = group_claims (st_Groups st)"
  by (simp add: claims_of_def group_claims_def mset_concat comp_def del: mset_map)

definition group_indexed :: "DevicesAllocationGroup list \<Rightarrow> (string, nat) gomap \<Rightarrow> bool" where
  "group_indexed gs ix \<longleftrightarrow> (\<forall>n k. map_of ix n = Some k \<longrightarrow> k < length gs \<and> ag_ID (gs ! k) = n)"

lemma group_claims_update:
  assumes "k < length gs"
  shows "group_claims (gs[k := (gs ! k)\<lparr>ag_Accelerators := ag_Accelerators (gs ! k) @ accs\<rparr>])
       = group_claims gs + mset (map (\<lambda>a. (\<lparr>rs_Group = ag_ID (gs ! k), rs_Device = aa_ID a\<rparr>, a)) accs)"
  using assms
proof (induction gs arbitrary: k)
  case (Cons g gs)
  then show ?case by (cases k) (simp_all add: group_claims_def)
qed simp

lemma add_group_claims:
  assumes "group_indexed gs ix" and "add_group src (gs, ix) = (gs', ix')"
  shows "group_indexed gs' ix' \<and> group_claims gs' = group_claims gs + group_claims [src]"
proof (cases "map_of ix (ag_ID src)")
  case None
  let ?g = "\<lparr>ag_ID = ag_ID src, ag_Manufacturer = ag_Manufacturer src, ag_Accelerators = []\<rparr>"
  have "gs' = (gs @ [?g])[length gs := ((gs @ [?g]) ! length gs)
      \<lparr>ag_Accelerators := ag_Accelerators ((gs @ [?g]) ! length gs) @ ag_Accelerators src\<rparr>]"
    and ix': "ix' = map_put (ag_ID src) (length gs) ix"
    using assms(2) None by (simp_all add: Let_def)
  then have "group_claims gs' = group_claims (gs @ [?g]) + group_claims [src]"
    using group_claims_update [of "length gs" "gs @ [?g]" "ag_Accelerators src"]
    by (simp add: group_claims_def)
  moreover have "group_indexed gs' ix'"
    using assms None unfolding group_indexed_def ix'
    by (auto simp: Let_def nth_append nth_list_update less_Suc_eq)
  ultimately show ?thesis by (simp add: group_claims_def)
next
  case (Some k)
  then have k: "k < length gs" "ag_ID (gs ! k) = ag_ID src"
    using assms(1) by (simp_all add: group_indexed_def)
  have gs': "gs' = gs[k := (gs ! k)\<lparr>ag_Accelerators := ag_Accelerators (gs ! k) @ ag_Accelerators src\<rparr>]"
    and ix': "ix' = ix"
    using assms(2) Some by (simp_all add: Let_def)
  have "group_indexed gs' ix'"
    using assms(1) k unfolding group_indexed_def ix' gs' by (simp add: nth_list_update)
  moreover have "group_claims gs' = group_claims gs + group_claims [src]"
    unfolding gs' group_claims_update [OF k(1)] using k(2) by (simp add: group_claims_def)
  ultimately show ?thesis by blast
qed

lemma fold_add_group_claims:
  "group_indexed gs ix \<Longrightarrow> group_claims (fst (fold add_group srcs (gs, ix))) = group_claims gs + group_claims srcs"
proof (induction srcs arbitrary: gs ix)
  case (Cons src srcs)
  obtain gs' ix' where step: "add_group src (gs, ix) = (gs', ix')" by fastforce
  with add_group_claims [OF Cons.prems step] Cons.IH [of gs' ix'] show ?case
    by (simp add: group_claims_def)
qed (simp add: group_claims_def)

lemma group_claims_concat: "group_claims (concat gss) = (\<Sum>gs\<leftarrow>gss. group_claims gs)"
  by (induction gss) (simp_all add: group_claims_def)

text \<open>Folding a Pod's record into its pod-wide allocation loses and merges nothing: the claims of
  the aggregate are exactly the claims of all containers, each charged once, whatever order the
  containers are stored in.\<close>

theorem Aggregate_claims:
  assumes "wf_map pa"
  shows "mset (claims_of (Aggregate pa)) = mset (container_claims pa)"
proof -
  let ?srcs = "\<lambda>name. st_Groups (ca_Devices (map_get pa name zero_ContainerAllocation))"
  have "mset (claims_of (Aggregate pa)) = (\<Sum>name\<leftarrow>sort (map fst pa). group_claims (?srcs name))"
    using fold_add_group_claims [of "[]" "[]"]
    by (simp add: mset_claims_of Aggregate_def Let_def group_indexed_def group_claims_concat comp_def
        group_claims_def [of "[]"])
  also have "\<dots> = (\<Sum>name\<leftarrow>map fst pa. group_claims (?srcs name))"
    by (simp flip: sum_mset_sum_list add: mset_map del: map_map)
  also have "\<dots> = (\<Sum>(name, ca)\<leftarrow>pa. group_claims (st_Groups (ca_Devices ca)))"
    unfolding map_map comp_def
    by (intro arg_cong [of _ _ sum_list] map_cong refl)
      (use assms in \<open>auto simp: wf_map_def map_get_def\<close>)
  also have "\<dots> = mset (container_claims pa)"
    by (simp add: container_claims_def mset_concat mset_claims_of comp_def case_prod_unfold)
  finally show ?thesis .
qed

theorem Aggregate_claims_witness:
  "mset (claims_of (Aggregate
      [(''b'', \<lparr>ca_Devices = zero_DevicesStatus\<lparr>st_Groups := [\<lparr>ag_ID = ''g'', ag_Manufacturer = ''nvidia'',
          ag_Accelerators = [zero_AcceleratorAllocation]\<rparr>]\<rparr>, ca_DeviceIDs = []\<rparr>),
       (''a'', \<lparr>ca_Devices = zero_DevicesStatus\<lparr>st_Groups := [\<lparr>ag_ID = ''g'', ag_Manufacturer = ''nvidia'',
          ag_Accelerators = [zero_AcceleratorAllocation]\<rparr>]\<rparr>, ca_DeviceIDs = []\<rparr>)]))
   = {#(\<lparr>rs_Group = ''g'', rs_Device = []\<rparr>, zero_AcceleratorAllocation),
      (\<lparr>rs_Group = ''g'', rs_Device = []\<rparr>, zero_AcceleratorAllocation)#}"
  by (subst Aggregate_claims)
    (simp_all add: wf_map_def container_claims_def claims_of_def zero_AcceleratorAllocation_def)

section \<open>Facts about the fold\<close>

definition held_claims :: "decoder \<Rightarrow> bool \<Rightarrow> Pod \<Rightarrow> claim list" where
  "held_claims unmarshal released pod =
     (case allocatedStatusOf unmarshal pod of
        Inl _ \<Rightarrow> [] | Inr recorded \<Rightarrow> claims_of (heldAllocation released pod recorded))"

lemma charge_claims_append:
  "charge_claims get upd index (a @ b) s =
     (case charge_claims get upd index a s of
        (s', None) \<Rightarrow> charge_claims get upd index b s' | r \<Rightarrow> r)"
  by (induction a arbitrary: s) (auto split: option.splits)

lemma applyAllocatedStatus_claims:
  "applyAllocatedStatus al st
     = charge_claims get_acc upd_acc (dstAcceleratorIndex st) (claims_of al) st"
  by (simp add: applyAllocatedStatus_def claims_of_def)

lemma fold_pods_strict:
  "fold_pods unmarshal released stopAtFoldFailure pods fs = Inr fs' \<Longrightarrow>
     charge_claims get_acc upd_acc (dstAcceleratorIndex (fs_Status fs))
       (concat (map (held_claims unmarshal released) pods)) (fs_Status fs) = (fs_Status fs', None)
     \<and> fs_Physical fs' = fold occupy (concat (map (held_claims unmarshal released) pods)) (fs_Physical fs)
     \<and> fs_Live fs' = fs_Live fs @ map pod_UID pods
     \<and> (\<forall>pod \<in> set pods. \<exists>st. allocatedStatusOf unmarshal pod = Inr st)"
proof (induction pods arbitrary: fs)
  case (Cons pod pods)
  then obtain recorded where rec: "allocatedStatusOf unmarshal pod = Inr recorded"
    by (auto simp: stopAtFoldFailure_def Let_def split: sum.splits)
  let ?held = "heldAllocation released pod recorded"
  obtain merged e where merged: "applyAllocatedStatus ?held (fs_Status fs) = (merged, e)" by fastforce
  with Cons.prems rec have e: "e = None"
    by (auto simp: stopAtFoldFailure_def Let_def split: option.splits)
  have claims: "held_claims unmarshal released pod = claims_of ?held"
    by (simp add: held_claims_def rec)
  from merged e have step: "charge_claims get_acc upd_acc (dstAcceleratorIndex (fs_Status fs))
      (held_claims unmarshal released pod) (fs_Status fs) = (merged, None)"
    by (simp add: applyAllocatedStatus_claims claims)
  have index: "dstAcceleratorIndex merged = dstAcceleratorIndex (fs_Status fs)"
    using ledger.charge_claims_lookup [OF step] .
  from Cons.prems rec merged e have "fold_pods unmarshal released stopAtFoldFailure pods
      (fs\<lparr>fs_Live := fs_Live fs @ [pod_UID pod], fs_Status := merged,
          fs_Physical := accumulatePhysicalOccupied ?held (fs_Physical fs)\<rparr>) = Inr fs'"
    by (simp add: Let_def)
  from Cons.IH [OF this] show ?case
    by (simp add: charge_claims_append step [unfolded claims] index rec claims accumulatePhysicalOccupied_def)
qed simp

lemma fold_pods_strict_ordinary:
  "fold_pods unmarshal released stopAtFoldFailure pods fs = Inr fs' \<Longrightarrow>
     fold_pods unmarshal released absorbFoldFailure pods fs = Inr fs'"
  by (induction pods arbitrary: fs)
    (auto simp: stopAtFoldFailure_def Let_def split: sum.splits prod.splits option.splits)

lemma charge_claims_ok:
  assumes "\<forall>c \<in> set cs. valid_claim (snd c)" and "\<forall>p. in_ledger st p \<longrightarrow> card_ok (get_acc st p)"
    and "charge_claims get_acc upd_acc (dstAcceleratorIndex st) cs st = (st', e)"
  shows "\<forall>p. in_ledger st' p \<longrightarrow> card_ok (get_acc st' p)"
  using assms
proof (induction cs arbitrary: st)
  case (Cons c cs)
  obtain res src where c: "c = (res, src)" by (cases c)
  show ?case
  proof (cases "dstAcceleratorIndex st res")
    case None
    with Cons c show ?thesis by simp
  next
    case (Some p)
    let ?st = "upd_acc p (charge src) st"
    have index: "dstAcceleratorIndex ?st = dstAcceleratorIndex st"
      by (intro dstAcceleratorIndex_ids ids_upd_acc) simp
    have "positions ?st = positions st"
      unfolding positions_ids by (simp add: ids_upd_acc)
    then have same: "in_ledger ?st q = in_ledger st q" for q by (simp add: in_ledger_def)
    have src: "valid_claim src" using Cons.prems(1) c by simp
    have ok: "\<forall>q. in_ledger ?st q \<longrightarrow> card_ok (get_acc ?st q)"
    proof (intro allI impI)
      fix q assume "in_ledger ?st q"
      then have "in_ledger st q" using same by blast
      then have "card_ok (get_acc st q)" using Cons.prems(2) by blast
      then show "card_ok (get_acc ?st q)"
        unfolding get_acc_upd_acc using charge_ok [OF src] by (cases "q = p") auto
    qed
    from Cons.prems(3) c Some consider "st' = st"
      | "charge_claims get_acc upd_acc (dstAcceleratorIndex ?st) cs ?st = (st', e)"
      unfolding index by (simp split: if_splits)
    then show ?thesis
      using Cons.IH [OF _ ok] Cons.prems(1,2) by cases simp_all
  qed
qed simp

lemma fold_pods_absorb:
  "\<forall>pod \<in> set pods. \<forall>c \<in> set (held_claims unmarshal released pod). valid_claim (snd c) \<Longrightarrow>
   \<forall>p. in_ledger (fs_Status fs) p \<longrightarrow> card_ok (get_acc (fs_Status fs) p) \<Longrightarrow>
   \<exists>fs'. fold_pods unmarshal released absorbFoldFailure pods fs = Inr fs'
     \<and> shape (fs_Status fs') = shape (fs_Status fs)
     \<and> fs_Live fs' = fs_Live fs @ map pod_UID pods
     \<and> (\<forall>p. in_ledger (fs_Status fs') p \<longrightarrow> card_ok (get_acc (fs_Status fs') p))"
proof (induction pods arbitrary: fs)
  case (Cons pod pods)
  let ?fs = "fs\<lparr>fs_Live := fs_Live fs @ [pod_UID pod]\<rparr>"
  have tl: "\<forall>pod \<in> set pods. \<forall>c \<in> set (held_claims unmarshal released pod). valid_claim (snd c)"
    using Cons.prems(1) by simp
  show ?case
  proof (cases "allocatedStatusOf unmarshal pod")
    case (Inl err)
    with Cons.IH [OF tl, of ?fs] Cons.prems(2) show ?thesis
      by (simp add: absorbFoldFailure_def)
  next
    case (Inr recorded)
    let ?held = "heldAllocation released pod recorded"
    obtain merged e where merged: "applyAllocatedStatus ?held (fs_Status fs) = (merged, e)" by fastforce
    have run: "charge_claims get_acc upd_acc (dstAcceleratorIndex (fs_Status fs))
        (claims_of ?held) (fs_Status fs) = (merged, e)"
      using merged by (simp add: applyAllocatedStatus_claims)
    have "held_claims unmarshal released pod = claims_of ?held" by (simp add: held_claims_def Inr)
    with Cons.prems(1) have "\<forall>c \<in> set (claims_of ?held). valid_claim (snd c)"
      by (metis list.set_intros(1))
    then have ok: "\<forall>p. in_ledger merged p \<longrightarrow> card_ok (get_acc merged p)"
      using charge_claims_ok [OF _ Cons.prems(2) run] by blast
    note shape = charge_claims_shape [OF run]
    show ?thesis
    proof (cases e)
      case None
      with Cons.IH [OF tl, of "?fs\<lparr>fs_Status := merged,
            fs_Physical := accumulatePhysicalOccupied ?held (fs_Physical fs)\<rparr>"] ok shape Inr merged
      show ?thesis by simp
    next
      case (Some err)
      with Cons.IH [OF tl, of "?fs\<lparr>fs_Status := merged\<rparr>"] ok shape Inr merged
      show ?thesis by (simp add: absorbFoldFailure_def)
    qed
  qed
qed simp

section \<open>Facts about the partition ledger\<close>

definition spec_cells :: "Devices \<Rightarrow> (position \<times> DevicesGroup \<times> Accelerator) list" where
  "spec_cells devs =
     concat (map (\<lambda>(i, grp). map (\<lambda>(j, acc). ((i, j), grp, acc)) (enumerate 0 (dg_Accelerators grp)))
               (enumerate 0 (sp_Groups (dv_Spec devs))))"

definition write_cells ::
    "Placements \<Rightarrow> ProfileCounts \<Rightarrow> (position \<times> DevicesGroup \<times> Accelerator) list \<Rightarrow> DevicesStatus \<Rightarrow> DevicesStatus" where
  "write_cells occupied allocated =
     fold (\<lambda>(p, grp, acc). upd_acc p (fold_physical_card grp acc occupied allocated))"

lemma fold_concat_map: "fold f (concat (map g xs)) s = fold (\<lambda>x. fold f (g x)) xs s"
  by (induction xs arbitrary: s) simp_all

lemma foldPhysicalLedger_cells:
  "foldPhysicalLedger devs st occupied allocated = write_cells occupied allocated (spec_cells devs) st"
  unfolding foldPhysicalLedger_def write_cells_def spec_cells_def fold_concat_map
  by (simp add: case_prod_unfold fold_map comp_def)

lemma fold_physical_card_keeps [simp]:
  "aa_ID (fold_physical_card grp acc occ al a) = aa_ID a"
  "aa_Index (fold_physical_card grp acc occ al a) = aa_Index a"
  "aa_Mode (fold_physical_card grp acc occ al a) = aa_Mode a"
  "aa_Remaining (fold_physical_card grp acc occ al a) = aa_Remaining a"
  "aa_AllocatedSlices (fold_physical_card grp acc occ al a) = aa_AllocatedSlices a"
  by (simp_all add: fold_physical_card_def Let_def)

lemma write_cells_Cons:
  "write_cells occ al ((p, grp, acc) # cs) st
     = write_cells occ al cs (upd_acc p (fold_physical_card grp acc occ al) st)"
  by (simp add: write_cells_def)

lemma write_cells_shape: "shape (write_cells occ al cs st) = shape st"
  by (induction cs arbitrary: st) (auto simp: write_cells_def shape_upd_acc)

lemma in_ledger_shape: "shape st = shape st' \<Longrightarrow> in_ledger st p = in_ledger st' p"
  unfolding in_ledger_def positions_ids ids_of_shape by simp

lemma write_cells_core:
  assumes "\<And>grp acc a. F (fold_physical_card grp acc occ al a) = F a"
  shows "F (get_acc (write_cells occ al cs st) p) = F (get_acc st p)"
proof (induction cs arbitrary: st)
  case (Cons c cs)
  obtain q grp acc where c: "c = (q, grp, acc)" by (cases c)
  show ?case unfolding c write_cells_Cons Cons.IH get_acc_upd_acc using assms by simp
qed (simp add: write_cells_def)

lemma write_cells_other:
  "p \<notin> fst ` set cs \<Longrightarrow> get_acc (write_cells occ al cs st) p = get_acc st p"
proof (induction cs arbitrary: st)
  case (Cons c cs)
  obtain q grp acc where c: "c = (q, grp, acc)" by (cases c)
  from Cons.prems c have "p \<noteq> q" "p \<notin> fst ` set cs" by auto
  then show ?case unfolding c write_cells_Cons using Cons.IH by (simp add: get_acc_upd_acc)
qed (simp add: write_cells_def)

lemma write_cells_get:
  "distinct (map fst cs) \<Longrightarrow> (p, grp, acc) \<in> set cs \<Longrightarrow> in_ledger st p \<Longrightarrow>
     get_acc (write_cells occ al cs st) p = fold_physical_card grp acc occ al (get_acc st p)"
proof (induction cs arbitrary: st)
  case (Cons c cs)
  obtain q g a where c: "c = (q, g, a)" by (cases c)
  let ?st = "upd_acc q (fold_physical_card g a occ al) st"
  have ledger: "in_ledger ?st p" using Cons.prems(3)
    by (subst in_ledger_shape [of _ st]) (simp_all add: shape_upd_acc)
  show ?case
  proof (cases "(p, grp, acc) = c")
    case True
    then have "p \<notin> fst ` set cs" using Cons.prems(1) c by auto
    then show ?thesis
      using True Cons.prems(3) c by (simp add: write_cells_Cons write_cells_other get_acc_upd_acc)
  next
    case False
    then have mem: "(p, grp, acc) \<in> set cs" using Cons.prems(2) by auto
    then have "p \<noteq> q" using Cons.prems(1) c by force
    then show ?thesis
      using Cons.IH [OF _ mem ledger] Cons.prems(1) c by (simp add: write_cells_Cons get_acc_upd_acc)
  qed
qed simp

lemma spec_cells_iff:
  "((i, j), grp, acc) \<in> set (spec_cells devs) \<longleftrightarrow>
     i < length (sp_Groups (dv_Spec devs)) \<and> grp = sp_Groups (dv_Spec devs) ! i
     \<and> j < length (dg_Accelerators grp) \<and> acc = dg_Accelerators grp ! j" (is "?l \<longleftrightarrow> ?r")
proof
  assume ?r
  then have "(i, grp) \<in> set (enumerate 0 (sp_Groups (dv_Spec devs)))"
    and "(j, acc) \<in> set (enumerate 0 (dg_Accelerators grp))"
    by (auto simp: in_set_enumerate_eq)
  then show ?l unfolding spec_cells_def set_concat set_map by force
qed (auto simp: spec_cells_def in_set_enumerate_eq)

lemma distinct_spec_cells: "distinct (map fst (spec_cells devs))"
proof -
  have "distinct (concat (map (\<lambda>(i, grp). map (\<lambda>(j, acc). (i, j)) (enumerate 0 (dg_Accelerators grp)))
      (enumerate n gs)))" for n gs
  proof (induction gs arbitrary: n)
    case (Cons g gs)
    have "distinct (map (\<lambda>(j, acc). (n, j)) (enumerate 0 (dg_Accelerators g)))"
      by (auto simp: distinct_map inj_on_def in_set_enumerate_eq)
    with Cons.IH [of "Suc n"] show ?case
      by (auto simp: in_set_enumerate_eq)
  qed simp
  then show ?thesis
    by (simp add: spec_cells_def map_concat comp_def case_prod_unfold)
qed

lemma seed_card:
  assumes "in_ledger (initDesiredStatus devs) (i, j)"
  shows "((i, j), sp_Groups (dv_Spec devs) ! i, dg_Accelerators (sp_Groups (dv_Spec devs) ! i) ! j)
       \<in> set (spec_cells devs)"
    and "get_acc (initDesiredStatus devs) (i, j) = zero_AcceleratorAllocation
      \<lparr>aa_ID := ac_ID (dg_Accelerators (sp_Groups (dv_Spec devs) ! i) ! j),
       aa_Index := ac_Index (dg_Accelerators (sp_Groups (dv_Spec devs) ! i) ! j),
       aa_Remaining := ResourceMaxUnits\<rparr>"
  using assms
  by (auto simp: in_ledger_iff spec_cells_iff initDesiredStatus_def get_acc.simps zero_AcceleratorAllocation_def)

lemma seed_ledger_iff:
  "in_ledger (initDesiredStatus devs) (i, j) \<longleftrightarrow>
     i < length (sp_Groups (dv_Spec devs)) \<and> j < length (dg_Accelerators (sp_Groups (dv_Spec devs) ! i))"
  by (auto simp: in_ledger_iff initDesiredStatus_def)

lemma seed_ok: "in_ledger (initDesiredStatus devs) p \<Longrightarrow> card_ok (get_acc (initDesiredStatus devs) p)"
  by (cases p) (simp add: seed_card card_ok_def)

lemma seed_shape:
  "shape (initDesiredStatus devs) = map (\<lambda>g. (dg_ID g, dg_Manufacturer g,
     map (\<lambda>a. (ac_ID a, ac_Index a)) (dg_Accelerators g))) (sp_Groups (dv_Spec devs))"
  by (simp add: shape_def initDesiredStatus_def comp_def)

lemma strict_cases:
  assumes "mergePodAllocationsStrict unmarshal released devs pods = Inr (st, live)"
  obtains fs :: FoldState where "charge_claims get_acc upd_acc (dstAcceleratorIndex (initDesiredStatus devs))
        (concat (map (held_claims unmarshal released) pods)) (initDesiredStatus devs) = (fs_Status fs, None)"
    and "fs_Physical fs = fold occupy (concat (map (held_claims unmarshal released) pods)) ([], [])"
    and "st = write_cells (fst (fs_Physical fs)) (snd (fs_Physical fs)) (spec_cells devs) (fs_Status fs)"
    and "live = map pod_UID pods"
    and "\<forall>pod \<in> set pods. \<exists>rec. allocatedStatusOf unmarshal pod = Inr rec"
proof -
  let ?fs0 = "\<lparr>fs_Status = initDesiredStatus devs, fs_Physical = ([], []), fs_Live = []\<rparr>"
  obtain fs where run: "fold_pods unmarshal released stopAtFoldFailure pods ?fs0 = Inr fs"
    and st: "st = foldPhysicalLedger devs (fs_Status fs) (fst (fs_Physical fs)) (snd (fs_Physical fs))"
      "live = fs_Live fs"
    using assms by (auto simp: mergePodAllocationsStrict_def foldPodAllocations_def split: sum.splits)
  from fold_pods_strict [OF run] st that [of fs] show thesis
    by (simp add: foldPhysicalLedger_cells)
qed

section \<open>A sample node\<close>

text \<open>Two whole accelerators and one partitioned accelerator of one group, and a decoder that
  knows the records the examples below use.\<close>

definition claim_on :: "string \<Rightarrow> DeviceAllocationMode \<Rightarrow> int \<Rightarrow> AcceleratorAllocation" where
  "claim_on dev mode n = zero_AcceleratorAllocation\<lparr>aa_ID := dev, aa_Mode := mode, aa_Allocated := n\<rparr>"

definition partition_on :: "string \<Rightarrow> string \<Rightarrow> AcceleratorPlacement \<Rightarrow> AcceleratorAllocation" where
  "partition_on dev profile slot = (claim_on dev DeviceAllocationModePartitioned 800000)
     \<lparr>aa_AllocatedPhysicalProfile := profile, aa_AllocatedPhysicalPlacements := [slot]\<rparr>"

definition sample_record :: "AcceleratorAllocation list \<Rightarrow> PodAllocations" where
  "sample_record accs = [(''main'', \<lparr>ca_Devices = zero_DevicesStatus\<lparr>st_Groups :=
     [\<lparr>ag_ID = ''t4'', ag_Manufacturer = ''nvidia'', ag_Accelerators = accs\<rparr>]\<rparr>, ca_DeviceIDs = []\<rparr>)]"

definition sample_decoder :: decoder where
  "sample_decoder text =
     (if text = ''shared'' then Inr (Some (sample_record [claim_on ''GPU-0'' DeviceAllocationModeShared 160000]))
      else if text = ''whole'' then Inr (Some (sample_record [claim_on ''GPU-1'' DeviceAllocationModeExclusive 1600000]))
      else if text = ''both'' then Inr (Some (sample_record [claim_on ''GPU-0'' DeviceAllocationModeShared 160000,
                                                       claim_on ''GPU-1'' DeviceAllocationModeShared 160000]))
      else if text = ''part'' then Inr (Some (sample_record [partition_on ''GPU-2'' ''1g'' \<lparr>pl_Start = 0, pl_Length = 1\<rparr>]))
      else Inl ''invalid'')"

definition sample_profile :: AcceleratorPhysicalSlicedProfile where
  "sample_profile = \<lparr>pp_Name = ''1g'', pp_MemoryMib = 8192, pp_ComputeSlices = 1, pp_MemorySlices = 1,
     pp_Count = 2, pp_Placements = [\<lparr>pl_Start = 0, pl_Length = 1\<rparr>, \<lparr>pl_Start = 1, pl_Length = 1\<rparr>]\<rparr>"

definition sample_partitioned :: Accelerator where
  "sample_partitioned = zero_Accelerator\<lparr>ac_ID := ''GPU-2'', ac_Index := 2,
     ac_Status := zero_AcceleratorStatus\<lparr>as_PhysicalSliced := \<lparr>ps_Profiles = [sample_profile], ps_Count = 2\<rparr>\<rparr>\<rparr>"

definition sample_group :: DevicesGroup where
  "sample_group = zero_DevicesGroup\<lparr>dg_ID := ''t4'', dg_Manufacturer := ''nvidia'',
     dg_Accelerators := [zero_Accelerator\<lparr>ac_ID := ''GPU-0''\<rparr>,
       zero_Accelerator\<lparr>ac_ID := ''GPU-1'', ac_Index := 1\<rparr>, sample_partitioned]\<rparr>"

definition sample_devices :: Devices where
  "sample_devices = \<lparr>dv_Name = ''node'', dv_Labels = [],
     dv_Spec = \<lparr>sp_Groups = [sample_group], sp_Interfaces = []\<rparr>, dv_Status = zero_DevicesStatus\<rparr>"

definition sample_pod :: "string \<Rightarrow> Pod" where
  "sample_pod text = zero_Pod\<lparr>pod_UID := text,
     pod_Annotations := [(AllocatedAcceleratorAnnoKey, text)],
     pod_Containers := [zero_Container\<lparr>ct_Name := ''main''\<rparr>],
     pod_NodeName := ''node''\<rparr>"

lemma sample_claims:
  "held_claims sample_decoder True (sample_pod ''shared'')
     = [(\<lparr>rs_Group = ''t4'', rs_Device = ''GPU-0''\<rparr>, claim_on ''GPU-0'' DeviceAllocationModeShared 160000)]"
  "held_claims sample_decoder True (sample_pod ''part'')
     = [(\<lparr>rs_Group = ''t4'', rs_Device = ''GPU-2''\<rparr>, partition_on ''GPU-2'' ''1g'' \<lparr>pl_Start = 0, pl_Length = 1\<rparr>)]"
  by code_simp+

lemma sample_strict:
  obtains st live where "mergePodAllocationsStrict sample_decoder True sample_devices
     [sample_pod ''shared'', sample_pod ''part''] = Inr (st, live)"
proof -
  have "isl (mergePodAllocationsStrict sample_decoder True sample_devices
     [sample_pod ''shared'', sample_pod ''part'']) = False" by code_simp
  then show thesis using that
    by (cases "mergePodAllocationsStrict sample_decoder True sample_devices
     [sample_pod ''shared'', sample_pod ''part'']") auto
qed

lemma sample_valid:
  "\<forall>pod \<in> set [sample_pod ''shared'', sample_pod ''part''].
     \<forall>c \<in> set (held_claims sample_decoder True pod). valid_claim (snd c)"
  by (simp add: sample_claims claim_on_def partition_on_def valid_claim_def int32_def)

section \<open>The rebuilt ledger\<close>

lemma strict_ledger_cards:
  assumes "mergePodAllocationsStrict unmarshal released devs pods = Inr (st, live)"
    and "\<forall>pod \<in> set pods. \<forall>c \<in> set (held_claims unmarshal released pod). valid_claim (snd c)"
    and "dstAcceleratorIndex (initDesiredStatus devs) res = Some p"
    and "cs = claims_to res (concat (map (held_claims unmarshal released) pods))"
  shows "aa_Remaining (get_acc st p) = max 0 (ResourceMaxUnits - (\<Sum>c\<leftarrow>cs. aa_Allocated c))
    \<and> aa_AllocatedSlices (get_acc st p)
        = wrap32 (int (length (filter (\<lambda>c. aa_Mode c = DeviceAllocationModeSliced) cs)))
    \<and> (\<forall>c \<in> set cs. aa_Mode c = DeviceAllocationModeNone \<or> aa_Mode c = aa_Mode (get_acc st p))
    \<and> (cs = [] \<longrightarrow> aa_Mode (get_acc st p) = DeviceAllocationModeNone)
    \<and> aa_ID (get_acc st p) = rs_Device res"
proof -
  obtain fs :: FoldState where run: "charge_claims get_acc upd_acc (dstAcceleratorIndex (initDesiredStatus devs))
        (concat (map (held_claims unmarshal released) pods)) (initDesiredStatus devs) = (fs_Status fs, None)"
    and st: "st = write_cells (fst (fs_Physical fs)) (snd (fs_Physical fs)) (spec_cells devs) (fs_Status fs)"
    using strict_cases [OF assms(1)] by blast
  let ?seed = "get_acc (initDesiredStatus devs) p" and ?card = "get_acc (fs_Status fs) p"
  note card = ledger.charge_claims_cards [OF run assms(3), folded assms(4)]
  obtain i j where p: "p = (i, j)" by (cases p)
  have "in_ledger (initDesiredStatus devs) p" and res: "resource_at (initDesiredStatus devs) p = res"
    using dstAcceleratorIndex_Some [OF assms(3)] by simp_all
  then have seed: "aa_Remaining ?seed = ResourceMaxUnits" "aa_AllocatedSlices ?seed = 0"
    "aa_Mode ?seed = DeviceAllocationModeNone" "card_ok ?seed"
    using seed_card(2) [of devs i j] p by (simp_all add: zero_AcceleratorAllocation_def card_ok_def)
  have "\<forall>c \<in> set cs. valid_claim c"
    using assms(2) unfolding assms(4) claims_to_def by fastforce
  from fold_charge_remaining [OF this seed(4)] fold_charge_slices [of ?seed cs] fold_charge_keeps [of cs ?seed]
  have "aa_Remaining ?card = max 0 (ResourceMaxUnits - (\<Sum>c\<leftarrow>cs. aa_Allocated c))"
    "aa_AllocatedSlices ?card = wrap32 (int (length (filter (\<lambda>c. aa_Mode c = DeviceAllocationModeSliced) cs)))"
    "cs = [] \<Longrightarrow> aa_Mode ?card = DeviceAllocationModeNone" "aa_ID ?card = aa_ID ?seed"
    using card seed by (simp_all add: int32_def)
  moreover have "aa_ID ?seed = rs_Device res" using res p by (auto simp: resource_at.simps)
  moreover have "aa_Remaining (get_acc st p) = aa_Remaining ?card" "aa_Mode (get_acc st p) = aa_Mode ?card"
    "aa_AllocatedSlices (get_acc st p) = aa_AllocatedSlices ?card" "aa_ID (get_acc st p) = aa_ID ?card"
    unfolding st by (rule write_cells_core, simp)+
  moreover have "\<forall>c \<in> set cs. aa_Mode c = DeviceAllocationModeNone \<or> aa_Mode c = aa_Mode ?card"
    using card by blast
  ultimately show ?thesis by (metis (no_types, lifting))
qed

text \<open>C4: When the strict rebuild succeeds, every card's entry is determined by the claims held on
  it: its remaining units are the whole accelerator minus the claimed units, never below zero, its
  slice count is the number of logical-slice claims, all claims on it share its mode, and without a
  claim it has none.\<close>

theorem strict_ledger_exact:
  assumes "mergePodAllocationsStrict unmarshal released devs pods = Inr (st, live)"
    and "\<forall>pod \<in> set pods. \<forall>c \<in> set (held_claims unmarshal released pod). valid_claim (snd c)"
    and "dstAcceleratorIndex (initDesiredStatus devs) res = Some p"
    and "cs = claims_to res (concat (map (held_claims unmarshal released) pods))"
  shows "aa_Remaining (get_acc st p) = max 0 (ResourceMaxUnits - (\<Sum>c\<leftarrow>cs. aa_Allocated c))
    \<and> aa_AllocatedSlices (get_acc st p)
        = wrap32 (int (length (filter (\<lambda>c. aa_Mode c = DeviceAllocationModeSliced) cs)))
    \<and> (\<forall>c \<in> set cs. aa_Mode c = DeviceAllocationModeNone \<or> aa_Mode c = aa_Mode (get_acc st p))
    \<and> (cs = [] \<longrightarrow> aa_Mode (get_acc st p) = DeviceAllocationModeNone)
    \<and> aa_ID (get_acc st p) = rs_Device res"
  using assms by (rule strict_ledger_cards)

theorem strict_ledger_exact_witness:
  "\<exists>st live. mergePodAllocationsStrict sample_decoder True sample_devices
       [sample_pod ''shared'', sample_pod ''part''] = Inr (st, live)
     \<and> aa_Remaining (get_acc st (0, 0)) = 1440000"
proof -
  obtain st live where run: "mergePodAllocationsStrict sample_decoder True sample_devices
     [sample_pod ''shared'', sample_pod ''part''] = Inr (st, live)" by (rule sample_strict)
  have index: "dstAcceleratorIndex (initDesiredStatus sample_devices) \<lparr>rs_Group = ''t4'', rs_Device = ''GPU-0''\<rparr>
     = Some (0, 0)" by code_simp
  from strict_ledger_exact [OF run sample_valid index refl] run show ?thesis
    by (simp add: sample_claims claims_to_def claim_on_def)
qed

text \<open>C16: The two rebuilds differ only in what they do with a failure: whenever the strict rebuild
  succeeds, the best-effort rebuild returns the same ledger and the same live Pods.\<close>

theorem strict_agrees_with_ordinary:
  assumes "mergePodAllocationsStrict unmarshal released devs pods = Inr r"
  shows "BuildDesiredStatus unmarshal released devs pods = r"
  using assms fold_pods_strict_ordinary
  by (fastforce simp: mergePodAllocationsStrict_def BuildDesiredStatus_def mergePodAllocations_def
      foldPodAllocations_def split: sum.splits)

theorem strict_agrees_with_ordinary_witness:
  "\<exists>r. mergePodAllocationsStrict sample_decoder True sample_devices
       [sample_pod ''shared'', sample_pod ''part''] = Inr r
     \<and> BuildDesiredStatus sample_decoder True sample_devices
       [sample_pod ''shared'', sample_pod ''part''] = r"
  using strict_agrees_with_ordinary by (metis sample_strict)




section \<open>The partition ledger\<close>

definition profile_count :: "AcceleratorProfileCount list \<Rightarrow> string \<Rightarrow> int" where
  "profile_count ps n = (case find (\<lambda>p. pc_Name p = n) ps of None \<Rightarrow> 0 | Some p \<Rightarrow> pc_Count p)"

lemma find_unique: "distinct (map f xs) \<Longrightarrow> x \<in> set xs \<Longrightarrow> find (\<lambda>y. f y = f x) xs = Some x"
  by (induction xs) auto

lemma profile_count_slice:
  assumes "wf_map counts"
  shows "profile_count (ProfileCountSlice counts) n = map_get counts n 0"
proof (cases "map_of counts n")
  case None
  then have "n \<notin> fst ` set counts" by (simp add: map_of_eq_None_iff)
  then have "find (\<lambda>p. pc_Name p = n) (ProfileCountSlice counts) = None"
    by (force simp: find_None_iff ProfileCountSlice_set)
  with None show ?thesis by (simp add: profile_count_def map_get_def)
next
  case (Some c)
  have "\<lparr>pc_Name = n, pc_Count = c\<rparr> \<in> set (ProfileCountSlice counts)"
    unfolding ProfileCountSlice_set using map_of_SomeD [OF Some] by (force intro: image_eqI)
  from find_unique [OF ProfileCountSlice_distinct [OF assms] this] Some show ?thesis
    by (simp add: profile_count_def map_get_def)
qed

definition partition_claims :: "AcceleratorAllocation list \<Rightarrow> AcceleratorAllocation list" where
  "partition_claims = filter (\<lambda>c. aa_AllocatedPhysicalProfile c \<noteq> [] \<and> aa_AllocatedPhysicalPlacements c \<noteq> [])"

definition profile_claims :: "string \<Rightarrow> AcceleratorAllocation list \<Rightarrow> nat" where
  "profile_claims n cs = length (filter (\<lambda>c. aa_AllocatedPhysicalProfile c = n) (partition_claims cs))"

definition occupancy_of ::
    "Resource \<Rightarrow> claim list \<Rightarrow> Placements \<times> ProfileCounts \<Rightarrow> bool" where
  "occupancy_of res cs r \<longleftrightarrow>
     map_get (fst r) res [] = concat (map aa_AllocatedPhysicalPlacements (partition_claims (claims_to res cs)))
     \<and> wf_map (map_get (snd r) res [])
     \<and> (\<forall>n. map_get (map_get (snd r) res []) n 0 = wrap32 (int (profile_claims n (claims_to res cs))))"

lemma occupancy_snoc:
  assumes "occupancy_of res cs r"
  shows "occupancy_of res (cs @ [c]) (occupy c r)"
proof -
  obtain q a where c: "c = (q, a)" by (cases c)
  obtain occ al where r: "r = (occ, al)" by (cases r)
  show ?thesis
  proof (cases "q = res \<and> aa_AllocatedPhysicalProfile a \<noteq> [] \<and> aa_AllocatedPhysicalPlacements a \<noteq> []")
    case True
    let ?n = "aa_AllocatedPhysicalProfile a"
    have "partition_claims (claims_to res (cs @ [c])) = partition_claims (claims_to res cs) @ [a]"
      using True by (simp add: c claims_to_def partition_claims_def)
    moreover have "map_get (fst (occupy c r)) res [] = map_get occ res [] @ aa_AllocatedPhysicalPlacements a"
      and "map_get (snd (occupy c r)) res []
        = map_put ?n (wrap32 (map_get (map_get al res []) ?n 0 + 1)) (map_get al res [])"
      using True by (simp_all add: c r Let_def)
    ultimately show ?thesis
      using assms by (auto simp: occupancy_of_def profile_claims_def r wrap32_add_left wrap32_add_right add.commute)
  next
    case False
    have "map_get (fst (occupy c r)) res [] = map_get occ res []"
      and "map_get (snd (occupy c r)) res [] = map_get al res []"
      using False by (auto simp: c r map_get_def Let_def)
    moreover have "partition_claims (claims_to res (cs @ [c])) = partition_claims (claims_to res cs)"
      using False by (auto simp: c claims_to_def partition_claims_def)
    ultimately show ?thesis
      using assms by (simp add: occupancy_of_def profile_claims_def r)
  qed
qed

lemma fold_occupy: "occupancy_of res cs (fold occupy cs ([], []))"
proof (induction cs rule: rev_induct)
  case Nil
  then show ?case
    by (simp add: occupancy_of_def claims_to_def partition_claims_def profile_claims_def map_get_def
        wf_map_def wrap32_def)
next
  case (snoc c cs)
  from occupancy_snoc [OF this, of c] show ?case by simp
qed

lemma wf_possible_placements: "wf_map (possible_placements profiles)"
proof -
  have "wf_map possible \<Longrightarrow> wf_map (fold (\<lambda>p possible. if pp_Placements p \<noteq> []
      then map_put (pp_Name p) (pp_Placements p) possible else possible) profiles possible)" for possible
    by (induction profiles arbitrary: possible) (auto simp: wf_put)
  from this [of "[]"] show ?thesis by (simp add: possible_placements_def wf_map_def)
qed

lemma wf_ComputeRemainingProfiles: "wf_map possible \<Longrightarrow> wf_map (ComputeRemainingProfiles occupied possible)"
proof -
  assume "wf_map possible"
  then have "distinct (map fst (map (\<lambda>(name, slots). (name, f slots)) possible))" for f :: "_ \<Rightarrow> int"
    by (simp add: wf_map_def comp_def case_prod_unfold)
  then show ?thesis
    unfolding wf_map_def ComputeRemainingProfiles_def by (rule distinct_map_filter)
qed

text \<open>C10: When the strict rebuild succeeds, the partition ledger of a card is exact: the remaining
  count of a profile is the number of its legal placements that are disjoint from every interval a
  Pod's partition occupies on that card, and its allocated count is the number of partitions of that
  profile the Pods hold there.\<close>

theorem partition_ledger_exact:
  assumes "mergePodAllocationsStrict unmarshal released devs pods = Inr (st, live)"
    and "((i, j), grp, acc) \<in> set (spec_cells devs)"
    and "map_of (possible_placements (ps_Profiles (as_PhysicalSliced (ac_Status acc)))) name = Some slots"
    and "cs = claims_to \<lparr>rs_Group = dg_ID grp, rs_Device = ac_ID acc\<rparr> (concat (map (held_claims unmarshal released) pods))"
    and "occupied = concat (map aa_AllocatedPhysicalPlacements (partition_claims cs))"
    and "\<forall>s \<in> set slots. valid_placement s" and "\<forall>q \<in> set occupied. valid_placement q"
    and "length slots < 2147483648"
  shows "profile_count (aa_RemainingProfiles (get_acc st (i, j))) name
      = int (length (filter (\<lambda>s. interval s \<inter> (\<Union>q \<in> set occupied. interval q) = {}) slots))
    \<and> profile_count (aa_AllocatedProfiles (get_acc st (i, j))) name = wrap32 (int (profile_claims name cs))"
proof -
  let ?claims = "concat (map (held_claims unmarshal released) pods)"
  let ?res = "\<lparr>rs_Group = dg_ID grp, rs_Device = ac_ID acc\<rparr>"
  let ?profiles = "ps_Profiles (as_PhysicalSliced (ac_Status acc))"
  obtain fs :: FoldState where run: "charge_claims get_acc upd_acc (dstAcceleratorIndex (initDesiredStatus devs))
        ?claims (initDesiredStatus devs) = (fs_Status fs, None)"
    and phys: "fs_Physical fs = fold occupy ?claims ([], [])"
    and st: "st = write_cells (fst (fs_Physical fs)) (snd (fs_Physical fs)) (spec_cells devs) (fs_Status fs)"
    using strict_cases [OF assms(1)] by blast
  have occ: "occupancy_of ?res ?claims (fs_Physical fs)" unfolding phys by (rule fold_occupy)
  have "in_ledger (initDesiredStatus devs) (i, j)"
    using assms(2) by (auto simp: spec_cells_iff seed_ledger_iff)
  then have "in_ledger (fs_Status fs) (i, j)"
    using in_ledger_shape [OF charge_claims_shape [OF run]] by blast
  then have card: "get_acc st (i, j) = fold_physical_card grp acc (fst (fs_Physical fs)) (snd (fs_Physical fs))
      (get_acc (fs_Status fs) (i, j))"
    unfolding st by (intro write_cells_get distinct_spec_cells assms(2))
  have "?profiles \<noteq> []" using assms(3) by (auto simp: possible_placements_def)
  then have fields: "aa_RemainingProfiles (get_acc st (i, j))
        = ProfileCountSlice (ComputeRemainingProfiles occupied (possible_placements ?profiles))"
      "aa_AllocatedProfiles (get_acc st (i, j)) = ProfileCountSlice (map_get (snd (fs_Physical fs)) ?res [])"
    unfolding card fold_physical_card_def Let_def
    using occ by (simp_all add: occupancy_of_def assms(4,5))
  have "profile_count (aa_RemainingProfiles (get_acc st (i, j))) name
      = map_get (ComputeRemainingProfiles occupied (possible_placements ?profiles)) name 0"
    unfolding fields by (intro profile_count_slice wf_ComputeRemainingProfiles wf_possible_placements)
  with remaining_profiles_intervals [OF wf_possible_placements assms(3,6,7,8)]
  have "profile_count (aa_RemainingProfiles (get_acc st (i, j))) name
      = int (length (filter (\<lambda>s. interval s \<inter> (\<Union>q \<in> set occupied. interval q) = {}) slots))" by simp
  moreover have "profile_count (aa_AllocatedProfiles (get_acc st (i, j))) name = wrap32 (int (profile_claims name cs))"
    unfolding fields using occ by (simp add: occupancy_of_def profile_count_slice assms(4))
  ultimately show ?thesis by blast
qed

theorem partition_ledger_exact_witness:
  "\<exists>st live. mergePodAllocationsStrict sample_decoder True sample_devices
       [sample_pod ''shared'', sample_pod ''part''] = Inr (st, live)
     \<and> profile_count (aa_RemainingProfiles (get_acc st (0, 2))) ''1g'' = 1
     \<and> profile_count (aa_AllocatedProfiles (get_acc st (0, 2))) ''1g'' = 1"
proof -
  obtain st live where run: "mergePodAllocationsStrict sample_decoder True sample_devices
     [sample_pod ''shared'', sample_pod ''part''] = Inr (st, live)" by (rule sample_strict)
  have cell: "((0, 2), sample_group, sample_partitioned) \<in> set (spec_cells sample_devices)"
    by (simp add: spec_cells_iff sample_devices_def sample_group_def)
  have slots: "map_of (possible_placements (ps_Profiles (as_PhysicalSliced (ac_Status sample_partitioned)))) ''1g''
     = Some [\<lparr>pl_Start = 0, pl_Length = 1\<rparr>, \<lparr>pl_Start = 1, pl_Length = 1\<rparr>]"
    by (simp add: possible_placements_def sample_partitioned_def sample_profile_def)
  have claims: "claims_to \<lparr>rs_Group = dg_ID sample_group, rs_Device = ac_ID sample_partitioned\<rparr>
      (concat (map (held_claims sample_decoder True) [sample_pod ''shared'', sample_pod ''part'']))
     = [partition_on ''GPU-2'' ''1g'' \<lparr>pl_Start = 0, pl_Length = 1\<rparr>]"
    by (simp add: sample_claims claims_to_def sample_group_def sample_partitioned_def)
  from partition_ledger_exact [OF run cell slots refl refl] run show ?thesis
    unfolding claims
    by (simp add: partition_claims_def profile_claims_def partition_on_def valid_placement_def int32_def
        interval_def wrap32_def)
qed

section \<open>Which Pod updates matter\<close>

text \<open>C18: For a Pod that is not being deleted and whose phase does not leave a terminal one, an update
  that is reported as irrelevant changes nothing the ledger charges for it.\<close>

theorem ignored_update_keeps_claims:
  assumes "\<not> podUpdateChangesLedger oldPod newPod"
    and "pod_DeletionTimestamp newPod = None"
    and "podTerminated oldPod \<longrightarrow> podTerminated newPod"
  shows "held_claims unmarshal released oldPod = held_claims unmarshal released newPod"
proof -
  have anno: "map_of (pod_Annotations oldPod) AllocatedAcceleratorAnnoKey
      = map_of (pod_Annotations newPod) AllocatedAcceleratorAnnoKey"
    using assms by (auto simp: podUpdateChangesLedger_def split: if_splits)
  then have rec: "allocatedStatusOf unmarshal oldPod = allocatedStatusOf unmarshal newPod"
    by (simp add: allocatedStatusOf_def AllocatedAcceleratorsOf_def map_get_def)
  show ?thesis
  proof (cases "has_key (pod_Annotations newPod) AllocatedAcceleratorAnnoKey")
    case True
    then have "podTerminated oldPod = podTerminated newPod"
      using assms by (auto simp: podUpdateChangesLedger_def split: if_splits)
    then show ?thesis
      by (simp add: held_claims_def rec heldAllocation_def split: sum.splits)
  next
    case False
    then have "allocatedStatusOf unmarshal newPod = Inr (Aggregate [])"
      by (simp add: allocatedStatusOf_def AllocatedAcceleratorsOf_def map_get_def has_key_def entries_def)
    moreover have "claims_of (heldAllocation released pod (Aggregate [])) = []" for pod
      by (simp add: Aggregate_def heldAllocation_def claims_of_def zero_DevicesStatus_def)
    ultimately show ?thesis by (simp add: held_claims_def rec)
  qed
qed

theorem ignored_update_keeps_claims_witness:
  "held_claims sample_decoder True (sample_pod ''shared'')
     = held_claims sample_decoder True ((sample_pod ''shared'')\<lparr>pod_Phase := PodRunning\<rparr>)"
  by (rule ignored_update_keeps_claims)
    (simp_all add: sample_pod_def zero_Pod_def podUpdateChangesLedger_def podTerminated_def)


end
