(* ===== verification/Ledger_Validation.thy ===== *)
theory Ledger_Validation
  imports Ledger_Rebuild
begin

text \<open>
  \<open>pkg/deviceplugin/allocation_validation.go\<close>: the fail-closed rebuild, which validates the
  inventory and every Pod's record before it folds any of it. An error value names the check that
  failed with the arguments of the Go message. Reading the annotation a second time as raw JSON
  values is the parameter \<open>rawEntries\<close>, which returns the raw text of each entry, or \<open>None\<close> when the
  annotation is no JSON object.
\<close>

type_synonym raw_decoder = "string \<Rightarrow> (string, string) gomap option"

datatype validation_error =
    GroupWithoutID nat
  | GroupDeclaredTwice string
  | CardWithoutID nat string
  | CardDeclaredTwice string string
  | IndexDeclaredTwice nat string
  | RecordNull string string
  | RecordUnreadable string string string
  | RecordWithoutNode string string
  | ContainerRecordNull string string string
  | UndeclaredContainer string string string
  | UnknownGroup string string string string
  | ManufacturerMismatch string string string string
  | UnknownCard string string string string
  | CardNamedTwice string string string string
  | IndexMismatch string string string string
  | ModeNotWritten string string string string
  | NegativeUnits string string string string
  | TooManyUnits string string string string
  | TooManySharedUnits string string string string
  | PlacementsWithoutProfile string string string string
  | ProfileWithoutPlacements string string string string
  | FoldFailed fold_error

section \<open>The inventory\<close>

fun check_cards :: "string \<Rightarrow> nat \<Rightarrow> Accelerator list \<Rightarrow> string set \<Rightarrow> nat set \<Rightarrow> validation_error option" where
  "check_cards gid j [] idSet indices = None"
| "check_cards gid j (crd # cards) idSet indices =
     (if ac_ID crd = [] then Some (CardWithoutID j gid)
      else if ac_ID crd \<in> idSet then Some (CardDeclaredTwice (ac_ID crd) gid)
      else if ac_Index crd \<in> indices then Some (IndexDeclaredTwice (ac_Index crd) gid)
      else check_cards gid (Suc j) cards (insert (ac_ID crd) idSet) (insert (ac_Index crd) indices))"

fun check_groups :: "nat \<Rightarrow> DevicesGroup list \<Rightarrow> string set \<Rightarrow> validation_error option" where
  "check_groups i [] byID = None"
| "check_groups i (grp # groups) byID =
     (if dg_ID grp = [] then Some (GroupWithoutID i)
      else if dg_ID grp \<in> byID then Some (GroupDeclaredTwice (dg_ID grp))
      else case check_cards (dg_ID grp) 0 (dg_Accelerators grp) {} {} of
        Some err \<Rightarrow> Some err
      | None \<Rightarrow> check_groups (Suc i) groups (insert (dg_ID grp) byID))"

definition validateDeviceInventory :: "Devices \<Rightarrow> validation_error option" where
  "validateDeviceInventory devs = check_groups 0 (sp_Groups (dv_Spec devs)) {}"

section \<open>One Pod's record\<close>

definition findDeviceGroup :: "Devices \<Rightarrow> string \<Rightarrow> DevicesGroup option" where
  "findDeviceGroup devs i = find (\<lambda>g. dg_ID g = i) (sp_Groups (dv_Spec devs))"

definition findDeviceCard :: "DevicesGroup \<Rightarrow> string \<Rightarrow> Accelerator option" where
  "findDeviceCard grp i = find (\<lambda>a. ac_ID a = i) (dg_Accelerators grp)"

definition podDeclaresContainer :: "Pod \<Rightarrow> string \<Rightarrow> bool" where
  "podDeclaresContainer pod container \<longleftrightarrow>
     list_ex (\<lambda>c. ct_Name c = container) (pod_Containers pod)
     \<or> list_ex (\<lambda>c. ct_Name c = container) (pod_InitContainers pod)"

definition nullContainersIn :: "raw_decoder \<Rightarrow> Pod \<Rightarrow> string" where
  "nullContainersIn rawEntries pod =
     (let raw = map_get (pod_Annotations pod) AllocatedAcceleratorAnnoKey [] in
      if raw = [] then []
      else case rawEntries raw of
        None \<Rightarrow> []
      | Some es \<Rightarrow>
          (case find (\<lambda>name. map_get es name [] = ''null'') (sort (map fst es)) of
             None \<Rightarrow> [] | Some name \<Rightarrow> name))"

definition validateCardModeAndUnits :: "Pod \<Rightarrow> string \<Rightarrow> AcceleratorAllocation \<Rightarrow> validation_error option" where
  "validateCardModeAndUnits pod container crd =
     (if aa_Mode crd \<notin> {DeviceAllocationModeExclusive, DeviceAllocationModeShared,
           DeviceAllocationModeSliced, DeviceAllocationModePartitioned}
      then Some (ModeNotWritten (pod_Namespace pod) (pod_Name pod) container (aa_ID crd))
      else if aa_Allocated crd < 0 \<or> aa_Remaining crd < 0
      then Some (NegativeUnits (pod_Namespace pod) (pod_Name pod) container (aa_ID crd))
      else if aa_Allocated crd > ResourceMaxUnits
      then Some (TooManyUnits (pod_Namespace pod) (pod_Name pod) container (aa_ID crd))
      else if aa_Mode crd = DeviceAllocationModeShared
              \<and> aa_Allocated crd > quot ResourceMaxUnits SharedResourceMaxSize
      then Some (TooManySharedUnits (pod_Namespace pod) (pod_Name pod) container (aa_ID crd))
      else None)"

definition validateCardPlacement :: "Pod \<Rightarrow> string \<Rightarrow> AcceleratorAllocation \<Rightarrow> validation_error option" where
  "validateCardPlacement pod container crd =
     (if aa_AllocatedPhysicalProfile crd = [] \<and> aa_AllocatedPhysicalPlacements crd = [] then None
      else if aa_AllocatedPhysicalProfile crd = []
      then Some (PlacementsWithoutProfile (pod_Namespace pod) (pod_Name pod) container (aa_ID crd))
      else if aa_AllocatedPhysicalPlacements crd = []
      then Some (ProfileWithoutPlacements (pod_Namespace pod) (pod_Name pod) container (aa_ID crd))
      else None)"

fun check_claims ::
    "Pod \<Rightarrow> string \<Rightarrow> DevicesGroup \<Rightarrow> AcceleratorAllocation list \<Rightarrow> string set \<Rightarrow> validation_error option" where
  "check_claims pod container spec [] seen = None"
| "check_claims pod container spec (crd # cards) seen =
     (case findDeviceCard spec (aa_ID crd) of
        None \<Rightarrow> Some (UnknownCard (pod_Namespace pod) (pod_Name pod) container (aa_ID crd))
      | Some cardSpec \<Rightarrow>
          if aa_ID crd \<in> seen
          then Some (CardNamedTwice (pod_Namespace pod) (pod_Name pod) container (aa_ID crd))
          else if aa_Index crd \<noteq> ac_Index cardSpec
          then Some (IndexMismatch (pod_Namespace pod) (pod_Name pod) container (aa_ID crd))
          else case validateCardModeAndUnits pod container crd of
            Some err \<Rightarrow> Some err
          | None \<Rightarrow>
              (case validateCardPlacement pod container crd of
                 Some err \<Rightarrow> Some err
               | None \<Rightarrow> check_claims pod container spec cards (insert (aa_ID crd) seen)))"

fun check_claim_groups ::
    "Pod \<Rightarrow> string \<Rightarrow> Devices \<Rightarrow> DevicesAllocationGroup list \<Rightarrow> validation_error option" where
  "check_claim_groups pod container devs [] = None"
| "check_claim_groups pod container devs (grp # groups) =
     (case findDeviceGroup devs (ag_ID grp) of
        None \<Rightarrow> Some (UnknownGroup (pod_Namespace pod) (pod_Name pod) container (ag_ID grp))
      | Some spec \<Rightarrow>
          if ag_Manufacturer grp \<noteq> dg_Manufacturer spec
          then Some (ManufacturerMismatch (pod_Namespace pod) (pod_Name pod) container (ag_ID grp))
          else case check_claims pod container spec (ag_Accelerators grp) {} of
            Some err \<Rightarrow> Some err
          | None \<Rightarrow> check_claim_groups pod container devs groups)"

definition validateRecordedClaims :: "Pod \<Rightarrow> string \<Rightarrow> Devices \<Rightarrow> DevicesStatus \<Rightarrow> validation_error option" where
  "validateRecordedClaims pod container devs status =
     check_claim_groups pod container devs (st_Groups status)"

fun check_records :: "Pod \<Rightarrow> Devices \<Rightarrow> PodAllocations \<Rightarrow> validation_error option" where
  "check_records pod devs [] = None"
| "check_records pod devs ((container, record) # rs) =
     (if \<not> podDeclaresContainer pod container
      then Some (UndeclaredContainer (pod_Namespace pod) (pod_Name pod) container)
      else case validateRecordedClaims pod container devs (ca_Devices record) of
        Some err \<Rightarrow> Some err
      | None \<Rightarrow> check_records pod devs rs)"

definition validatePodAllocationRecord ::
    "decoder \<Rightarrow> raw_decoder \<Rightarrow> Pod \<Rightarrow> Devices \<Rightarrow> validation_error option" where
  "validatePodAllocationRecord unmarshal rawEntries pod devs =
     (if map_get (pod_Annotations pod) AllocatedAcceleratorAnnoKey [] = ''null''
      then Some (RecordNull (pod_Namespace pod) (pod_Name pod))
      else case AllocatedAcceleratorsOf unmarshal pod of
        Inl err \<Rightarrow> Some (RecordUnreadable (pod_Namespace pod) (pod_Name pod) err)
      | Inr None \<Rightarrow> None
      | Inr (Some allocations) \<Rightarrow>
          if pod_NodeName pod = [] then Some (RecordWithoutNode (pod_Namespace pod) (pod_Name pod))
          else let null = nullContainersIn rawEntries pod in
            if null \<noteq> [] then Some (ContainerRecordNull (pod_Namespace pod) (pod_Name pod) null)
            else check_records pod devs allocations)"

section \<open>The strict rebuild\<close>

fun check_pods :: "decoder \<Rightarrow> raw_decoder \<Rightarrow> Devices \<Rightarrow> Pod list \<Rightarrow> validation_error option" where
  "check_pods unmarshal rawEntries devs [] = None"
| "check_pods unmarshal rawEntries devs (pod # pods) =
     (case validatePodAllocationRecord unmarshal rawEntries pod devs of
        Some err \<Rightarrow> Some err | None \<Rightarrow> check_pods unmarshal rawEntries devs pods)"

definition BuildDesiredStatusStrict ::
    "decoder \<Rightarrow> raw_decoder \<Rightarrow> bool \<Rightarrow> Devices \<Rightarrow> Pod list \<Rightarrow> validation_error + DevicesStatus \<times> string list" where
  "BuildDesiredStatusStrict unmarshal rawEntries released devs pods =
     (case validateDeviceInventory devs of
        Some err \<Rightarrow> Inl err
      | None \<Rightarrow>
          (case check_pods unmarshal rawEntries devs pods of
             Some err \<Rightarrow> Inl err
           | None \<Rightarrow>
               (case mergePodAllocationsStrict unmarshal released devs pods of
                  Inl err \<Rightarrow> Inl (FoldFailed err) | Inr r \<Rightarrow> Inr r)))"

section \<open>Facts about a valid inventory\<close>

lemma check_cards_None:
  "check_cards gid j cards idSet indices = None \<longleftrightarrow>
     [] \<notin> ac_ID ` set cards \<and> distinct (map ac_ID cards) \<and> distinct (map ac_Index cards)
     \<and> ac_ID ` set cards \<inter> idSet = {} \<and> ac_Index ` set cards \<inter> indices = {}"
  by (induction gid j cards idSet indices rule: check_cards.induct) auto

lemma check_groups_None:
  "check_groups i groups byID = None \<longleftrightarrow>
     [] \<notin> dg_ID ` set groups \<and> distinct (map dg_ID groups) \<and> dg_ID ` set groups \<inter> byID = {}
     \<and> (\<forall>g \<in> set groups. check_cards (dg_ID g) 0 (dg_Accelerators g) {} {} = None)"
  by (induction i groups byID rule: check_groups.induct) (auto split: option.splits)

definition wf_inventory :: "Devices \<Rightarrow> bool" where
  "wf_inventory devs \<longleftrightarrow>
     [] \<notin> dg_ID ` set (sp_Groups (dv_Spec devs)) \<and> distinct (map dg_ID (sp_Groups (dv_Spec devs)))
     \<and> (\<forall>g \<in> set (sp_Groups (dv_Spec devs)). [] \<notin> ac_ID ` set (dg_Accelerators g)
          \<and> distinct (map ac_ID (dg_Accelerators g)) \<and> distinct (map ac_Index (dg_Accelerators g)))"

lemma inventory_valid: "validateDeviceInventory devs = None \<longleftrightarrow> wf_inventory devs"
  by (auto simp: validateDeviceInventory_def check_groups_None check_cards_None wf_inventory_def)

text \<open>C23: The inventory check accepts exactly the inventories in which every group and every card of a
  group is identified by a non-empty, unique ID and no index repeats within a group.\<close>

theorem validateDeviceInventory_iff: "validateDeviceInventory devs = None \<longleftrightarrow> wf_inventory devs"
  by (rule inventory_valid)

lemma wf_inventory_nth:
  assumes "wf_inventory devs" and "gs = sp_Groups (dv_Spec devs)" and "i < length gs"
  shows "distinct (map ac_ID (dg_Accelerators (gs ! i)))"
    and "i' < length gs \<Longrightarrow> dg_ID (gs ! i) = dg_ID (gs ! i') \<Longrightarrow> i = i'"
proof -
  show "distinct (map ac_ID (dg_Accelerators (gs ! i)))"
    using assms by (simp add: wf_inventory_def)
  show "i' < length gs \<Longrightarrow> dg_ID (gs ! i) = dg_ID (gs ! i') \<Longrightarrow> i = i'"
    using assms by (simp add: wf_inventory_def distinct_conv_nth) metis
qed

lemma resource_at_seed:
  assumes "in_ledger (initDesiredStatus devs) (i, j)"
  shows "resource_at (initDesiredStatus devs) (i, j)
       = \<lparr>rs_Group = dg_ID (sp_Groups (dv_Spec devs) ! i),
          rs_Device = ac_ID (dg_Accelerators (sp_Groups (dv_Spec devs) ! i) ! j)\<rparr>"
  using assms [unfolded seed_ledger_iff]
  by (simp add: resource_at.simps get_acc.simps initDesiredStatus_def)

lemma seed_index:
  assumes "wf_inventory devs" and "((i, j), grp, acc) \<in> set (spec_cells devs)"
  shows "dstAcceleratorIndex (initDesiredStatus devs) \<lparr>rs_Group = dg_ID grp, rs_Device = ac_ID acc\<rparr> = Some (i, j)"
proof -
  let ?st = "initDesiredStatus devs" and ?gs = "sp_Groups (dv_Spec devs)"
    and ?res = "\<lparr>rs_Group = dg_ID grp, rs_Device = ac_ID acc\<rparr>"
  have cell: "i < length ?gs" "grp = ?gs ! i" "j < length (dg_Accelerators (?gs ! i))"
    "acc = dg_Accelerators (?gs ! i) ! j" using assms(2) by (auto simp: spec_cells_iff)
  have ledger: "in_ledger ?st (i, j)" using cell by (simp add: seed_ledger_iff)
  then have "(?res, i, j) \<in> set (rev (map (\<lambda>p. (resource_at ?st p, p)) (positions ?st)))"
    using cell resource_at_seed [OF ledger] by (force simp: in_ledger_def)
  then have "dstAcceleratorIndex ?st ?res \<noteq> None"
    unfolding dstAcceleratorIndex_def map_of_eq_None_iff by force
  then obtain i' j' where found: "dstAcceleratorIndex ?st ?res = Some (i', j')" by auto
  have ledger': "in_ledger ?st (i', j')" and "resource_at ?st (i', j') = ?res"
    using dstAcceleratorIndex_Some [OF found] by simp_all
  with resource_at_seed [OF ledger'] cell have same: "dg_ID (?gs ! i) = dg_ID (?gs ! i')"
    "ac_ID (dg_Accelerators (?gs ! i') ! j') = ac_ID (dg_Accelerators (?gs ! i) ! j)" by simp_all
  have b': "i' < length ?gs" "j' < length (dg_Accelerators (?gs ! i'))"
    using ledger' by (simp_all add: seed_ledger_iff)
  have "i' = i" using wf_inventory_nth(2) [OF assms(1) refl cell(1) b'(1) same(1)] by simp
  moreover from this have "j' = j"
    using wf_inventory_nth(1) [OF assms(1) refl cell(1)] b' cell same(2)
    by (simp add: distinct_conv_nth) metis
  ultimately show ?thesis using found by simp
qed

section \<open>Facts about a valid record\<close>

text \<open>What the checks establish of one claim: it names a card of the inventory, with that card's
  index, in one of the four modes a record can carry, with units that fit the card.\<close>

definition sound_claim :: "Devices \<Rightarrow> claim \<Rightarrow> bool" where
  "sound_claim devs c \<longleftrightarrow>
     (\<exists>p grp acc. (p, grp, acc) \<in> set (spec_cells devs)
        \<and> fst c = \<lparr>rs_Group = dg_ID grp, rs_Device = ac_ID acc\<rparr> \<and> aa_Index (snd c) = ac_Index acc)
     \<and> aa_Mode (snd c) \<in> {DeviceAllocationModeExclusive, DeviceAllocationModeShared,
           DeviceAllocationModeSliced, DeviceAllocationModePartitioned}
     \<and> 0 \<le> aa_Allocated (snd c) \<and> aa_Allocated (snd c) \<le> ResourceMaxUnits
     \<and> (aa_Mode (snd c) = DeviceAllocationModeShared \<longrightarrow> aa_Allocated (snd c) \<le> 160000)
     \<and> (aa_AllocatedPhysicalProfile (snd c) = [] \<longleftrightarrow> aa_AllocatedPhysicalPlacements (snd c) = [])"

lemma find_index: "find P xs = Some x \<Longrightarrow> \<exists>i < length xs. x = xs ! i \<and> P x"
  by (induction xs) (auto split: if_splits intro: exI [of _ 0] exI [of _ "Suc _"])

lemma check_claims_sound:
  "check_claims pod container spec cards seen = None \<Longrightarrow>
   findDeviceGroup devs gid = Some spec \<Longrightarrow> a \<in> set cards \<Longrightarrow>
     sound_claim devs (\<lparr>rs_Group = gid, rs_Device = aa_ID a\<rparr>, a)"
proof (induction cards arbitrary: seen)
  case (Cons crd cards)
  show ?case
  proof (cases "a = crd")
    case False
    with Cons show ?thesis by (auto split: option.splits if_splits)
  next
    case True
    with Cons.prems obtain cardSpec where find: "findDeviceCard spec (aa_ID a) = Some cardSpec"
      and index: "aa_Index a = ac_Index cardSpec"
      and units: "validateCardModeAndUnits pod container a = None"
      and place: "validateCardPlacement pod container a = None"
      by (auto split: option.splits if_splits)
    obtain i where i: "i < length (sp_Groups (dv_Spec devs))" "spec = sp_Groups (dv_Spec devs) ! i" "dg_ID spec = gid"
      using find_index [OF Cons.prems(2) [unfolded findDeviceGroup_def]] by blast
    obtain j where j: "j < length (dg_Accelerators spec)" "cardSpec = dg_Accelerators spec ! j" "ac_ID cardSpec = aa_ID a"
      using find_index [OF find [unfolded findDeviceCard_def]] by blast
    have "((i, j), spec, cardSpec) \<in> set (spec_cells devs)" using i j by (simp add: spec_cells_iff)
    moreover have "quot ResourceMaxUnits SharedResourceMaxSize = 160000" by (simp add: quot_def)
    ultimately show ?thesis
      using index units place i(3) j(3)
      by (fastforce simp: sound_claim_def validateCardModeAndUnits_def validateCardPlacement_def split: if_splits)
  qed
qed simp

lemma check_claim_groups_sound:
  "check_claim_groups pod container devs groups = None \<Longrightarrow> grp \<in> set groups \<Longrightarrow>
     a \<in> set (ag_Accelerators grp) \<Longrightarrow> sound_claim devs (\<lparr>rs_Group = ag_ID grp, rs_Device = aa_ID a\<rparr>, a)"
proof (induction groups)
  case (Cons g groups)
  then show ?case
    using check_claims_sound by (cases "grp = g") (auto split: option.splits if_splits)
qed simp

lemma check_records_sound:
  "check_records pod devs rs = None \<Longrightarrow> c \<in> set (container_claims rs) \<Longrightarrow> sound_claim devs c"
proof (induction rs)
  case (Cons r rs)
  obtain container ca where r: "r = (container, ca)" by (cases r)
  have "sound_claim devs c" if "c \<in> set (claims_of (ca_Devices ca))"
    using Cons.prems(1) r that check_claim_groups_sound
    by (fastforce simp: claims_of_def validateRecordedClaims_def split: option.splits if_splits)
  with Cons r show ?case
    by (auto simp: container_claims_def split: option.splits if_splits)
qed (simp add: container_claims_def)

lemma in_group_claims:
  "c \<in># group_claims gs \<longleftrightarrow>
     (\<exists>g \<in> set gs. \<exists>a \<in> set (ag_Accelerators g). c = (\<lparr>rs_Group = ag_ID g, rs_Device = aa_ID a\<rparr>, a))"
  by (induction gs) (auto simp: group_claims_def)

lemma Aggregate_claims_subset: "set (claims_of (Aggregate pa)) \<subseteq> set (container_claims pa)"
proof
  fix c assume "c \<in> set (claims_of (Aggregate pa))"
  then have "c \<in># mset (claims_of (Aggregate pa))" by simp
  also have "mset (claims_of (Aggregate pa)) = group_claims (concat (map (\<lambda>name.
      st_Groups (ca_Devices (map_get pa name zero_ContainerAllocation))) (sort (map fst pa))))"
    using fold_add_group_claims [of "[]" "[]"]
    by (simp add: mset_claims_of Aggregate_def Let_def group_indexed_def group_claims_def [of "[]"])
  finally obtain name g a where name: "name \<in> fst ` set pa"
    and g: "g \<in> set (st_Groups (ca_Devices (map_get pa name zero_ContainerAllocation)))"
    and a: "a \<in> set (ag_Accelerators g)" "c = (\<lparr>rs_Group = ag_ID g, rs_Device = aa_ID a\<rparr>, a)"
    by (auto simp: in_group_claims)
  obtain ca where ca: "map_of pa name = Some ca" using name by (metis map_of_eq_None_iff option.exhaust)
  with g have "g \<in> set (st_Groups (ca_Devices ca))" by (simp add: map_get_def)
  with a have "c \<in> set (claims_of (ca_Devices ca))" by (auto simp: claims_of_def)
  with map_of_SomeD [OF ca] show "c \<in> set (container_claims pa)"
    by (auto simp: container_claims_def)
qed

lemma heldAllocation_claims: "set (claims_of (heldAllocation released pod status)) \<subseteq> set (claims_of status)"
  by (auto simp: heldAllocation_def claims_of_def)

lemma valid_record_claims:
  assumes "validatePodAllocationRecord unmarshal rawEntries pod devs = None"
    and "c \<in> set (held_claims unmarshal released pod)"
  shows "sound_claim devs c"
proof -
  obtain allocations where rec: "AllocatedAcceleratorsOf unmarshal pod = Inr allocations"
    and c: "c \<in> set (claims_of (heldAllocation released pod (Aggregate (entries allocations))))"
    using assms(2) by (auto simp: held_claims_def allocatedStatusOf_def split: sum.splits)
  then have "c \<in> set (container_claims (entries allocations))"
    using heldAllocation_claims Aggregate_claims_subset by blast
  moreover have "check_records pod devs (entries allocations) = None"
    using assms(1) rec
    by (auto simp: validatePodAllocationRecord_def entries_def Let_def split: option.splits if_splits)
  ultimately show ?thesis using check_records_sound by blast
qed

lemma check_pods_None:
  "check_pods unmarshal rawEntries devs pods = None \<longleftrightarrow>
     (\<forall>pod \<in> set pods. validatePodAllocationRecord unmarshal rawEntries pod devs = None)"
  by (induction pods) (auto split: option.splits)

lemma sound_claim_valid: "sound_claim devs c \<Longrightarrow> valid_claim (snd c)"
  by (auto simp: sound_claim_def valid_claim_def int32_def)

lemma strict_status_parts:
  assumes "BuildDesiredStatusStrict unmarshal rawEntries released devs pods = Inr (st, live)"
  shows "wf_inventory devs"
    and "mergePodAllocationsStrict unmarshal released devs pods = Inr (st, live)"
    and "pod \<in> set pods \<Longrightarrow> validatePodAllocationRecord unmarshal rawEntries pod devs = None"
proof -
  show "wf_inventory devs" "mergePodAllocationsStrict unmarshal released devs pods = Inr (st, live)"
    using assms by (auto simp: BuildDesiredStatusStrict_def inventory_valid split: option.splits sum.splits)
  show "pod \<in> set pods \<Longrightarrow> validatePodAllocationRecord unmarshal rawEntries pod devs = None"
    using assms by (auto simp: BuildDesiredStatusStrict_def check_pods_None split: option.splits)
qed

text \<open>C21: A strict rebuild that succeeds leaves no claim out and no card wrong: every claim held by
  a Pod names a card of the inventory with its index, one of the four modes and units that fit, and
  the entry of every card of the inventory is the sum of the claims held on it.\<close>

theorem strict_status_complete:
  assumes "BuildDesiredStatusStrict unmarshal rawEntries released devs pods = Inr (st, live)"
    and "held = concat (map (held_claims unmarshal released) pods)"
  shows "(\<forall>c \<in> set held. sound_claim devs c)
    \<and> (\<forall>((i, j), grp, acc) \<in> set (spec_cells devs).
         let cs = claims_to \<lparr>rs_Group = dg_ID grp, rs_Device = ac_ID acc\<rparr> held in
         aa_ID (get_acc st (i, j)) = ac_ID acc
         \<and> aa_Remaining (get_acc st (i, j)) = max 0 (ResourceMaxUnits - (\<Sum>c\<leftarrow>cs. aa_Allocated c))
         \<and> aa_Mode (get_acc st (i, j)) = (case cs of [] \<Rightarrow> DeviceAllocationModeNone | c # _ \<Rightarrow> aa_Mode c)
         \<and> (\<forall>c \<in> set cs. \<forall>c' \<in> set cs. aa_Mode c = aa_Mode c'))"
proof -
  note parts = strict_status_parts [OF assms(1)]
  have pod: "\<forall>pod \<in> set pods. \<forall>c \<in> set (held_claims unmarshal released pod). sound_claim devs c"
    using valid_record_claims [OF parts(3)] by blast
  then have valid: "\<forall>pod \<in> set pods. \<forall>c \<in> set (held_claims unmarshal released pod). valid_claim (snd c)"
    using sound_claim_valid by blast
  have sound: "\<forall>c \<in> set held. sound_claim devs c" using pod unfolding assms(2) by simp
  have "let cs = claims_to \<lparr>rs_Group = dg_ID grp, rs_Device = ac_ID acc\<rparr> held in
         aa_ID (get_acc st (i, j)) = ac_ID acc
         \<and> aa_Remaining (get_acc st (i, j)) = max 0 (ResourceMaxUnits - (\<Sum>c\<leftarrow>cs. aa_Allocated c))
         \<and> aa_Mode (get_acc st (i, j)) = (case cs of [] \<Rightarrow> DeviceAllocationModeNone | c # _ \<Rightarrow> aa_Mode c)
         \<and> (\<forall>c \<in> set cs. \<forall>c' \<in> set cs. aa_Mode c = aa_Mode c')"
    if cell: "((i, j), grp, acc) \<in> set (spec_cells devs)" for i j grp acc
  proof -
    let ?res = "\<lparr>rs_Group = dg_ID grp, rs_Device = ac_ID acc\<rparr>"
    define cs where "cs = claims_to ?res held"
    have named: "\<forall>c \<in> set cs. aa_Mode c \<noteq> DeviceAllocationModeNone"
      using sound unfolding cs_def by (force simp: claims_to_def sound_claim_def)
    have cs: "cs = claims_to ?res (concat (map (held_claims unmarshal released) pods))"
      unfolding cs_def assms(2) ..
    note core = strict_ledger_cards [OF parts(2) valid seed_index [OF parts(1) cell] cs]
    then have mode: "\<forall>c \<in> set cs. aa_Mode c = aa_Mode (get_acc st (i, j))" using named by blast
    then have "aa_Mode (get_acc st (i, j)) = (case cs of [] \<Rightarrow> DeviceAllocationModeNone | c # _ \<Rightarrow> aa_Mode c)"
      using core by (cases cs) simp_all
    moreover have "aa_ID (get_acc st (i, j)) = ac_ID acc" using core by simp
    moreover have "\<forall>c \<in> set cs. \<forall>c' \<in> set cs. aa_Mode c = aa_Mode c'" using mode by simp
    ultimately show ?thesis unfolding cs_def [symmetric] Let_def using core by blast
  qed
  with sound show ?thesis by blast
qed

definition sample_raw :: raw_decoder where
  "sample_raw text = Some [(''main'', text)]"

theorem strict_status_complete_witness:
  "\<exists>st live. BuildDesiredStatusStrict sample_decoder sample_raw True sample_devices
       [sample_pod ''shared'', sample_pod ''shared''] = Inr (st, live)
     \<and> aa_Remaining (get_acc st (0, 0)) = 1280000 \<and> aa_Mode (get_acc st (0, 0)) = DeviceAllocationModeShared"
proof -
  let ?run = "BuildDesiredStatusStrict sample_decoder sample_raw True sample_devices
       [sample_pod ''shared'', sample_pod ''shared'']"
  have "isl ?run = False" by code_simp
  then obtain st live where run: "?run = Inr (st, live)" by (cases ?run) auto
  have "((0, 0), sample_group, zero_Accelerator\<lparr>ac_ID := ''GPU-0''\<rparr>) \<in> set (spec_cells sample_devices)"
    by (simp add: spec_cells_iff sample_devices_def sample_group_def)
  with strict_status_complete [OF run refl] run show ?thesis
    by (auto simp: sample_claims claims_to_def claim_on_def Let_def sample_group_def)
qed



end
