(* ===== verification/Allocation_Charge.thy ===== *)
theory Allocation_Charge
  imports Ledger_Validation
begin

text \<open>
  What one allocation charges, \<open>pkg/deviceplugin/server.go\<close> (the tokens kubelet hands out, their
  grouping by card, \<open>accumulateAllocation\<close>, the placements written into a record) and
  \<open>sliced_room.go\<close> (\<open>unitsCharged\<close>), and the comparison of the records with kubelet's own,
  \<open>kubelet_allocations.go\<close> and \<open>kubelet_pods.go\<close>. The answer of kubelet's pod-resources API is an
  argument: an error text or the list of Pods it holds.
\<close>

section \<open>The server of one family\<close>

record ResourceServer =
  rv_Manufacturer :: string
  rv_AllocationMode :: DeviceAllocationMode

definition ResourceName :: "Knowns \<Rightarrow> ResourceServer \<Rightarrow> string" where
  "ResourceName kn s = GetAcceleratableResourceName kn (rv_Manufacturer s) (rv_AllocationMode s)"

type_synonym CardTokens = "(Resource, ResourceToken list) gomap"

definition add_token :: "ResourceToken \<Rightarrow> CardTokens \<Rightarrow> CardTokens" where
  "add_token token tokens =
     map_put (rt_Resource token) (map_get tokens (rt_Resource token) [] @ [token]) tokens"

fun tokens_by_card :: "string list \<Rightarrow> CardTokens \<Rightarrow> (string \<times> token_error) + CardTokens" where
  "tokens_by_card [] tokens = Inr tokens"
| "tokens_by_card (i # deviceIDs) tokens =
     (case ParseResourceToken i of
        Inl err \<Rightarrow> Inl (i, err)
      | Inr token \<Rightarrow> tokens_by_card deviceIDs (add_token token tokens))"

section \<open>Charging the cards\<close>

definition unitsCharged :: "int \<Rightarrow> nat \<Rightarrow> int" where
  "unitsCharged unitsPerToken tokens =
     (let perToken = min unitsPerToken ResourceMaxUnits in
      wrap32 (min (wrap64 (perToken * int tokens)) ResourceMaxUnits))"

definition card_units :: "DeviceAllocationMode \<Rightarrow> int \<Rightarrow> nat \<Rightarrow> int" where
  "card_units mode unitsPerToken tokens =
     min ResourceMaxUnits
       (case mode of
          DeviceAllocationModeShared \<Rightarrow> quot ResourceMaxUnits SharedResourceMaxSize
        | DeviceAllocationModeSliced \<Rightarrow> unitsCharged unitsPerToken tokens
        | DeviceAllocationModePartitioned \<Rightarrow> unitsCharged unitsPerToken tokens
        | _ \<Rightarrow> ResourceMaxUnits)"

type_synonym Accumulated = "DevicesAllocationGroup list \<times> (Resource, int) gomap"

fun accumulate_card ::
    "ResourceServer \<Rightarrow> CardTokens \<Rightarrow> int \<Rightarrow> DevicesGroup \<Rightarrow> Accelerator \<Rightarrow> Accumulated \<Rightarrow> Accumulated" where
  "accumulate_card s cardTokens unitsPerToken specGrp acc (groups, allocation) =
     (let res = \<lparr>rs_Group = dg_ID specGrp, rs_Device = ac_ID acc\<rparr> in
      case map_of cardTokens res of
        None \<Rightarrow> (groups, allocation)
      | Some resTokens \<Rightarrow>
          (let allocated = card_units (rv_AllocationMode s) unitsPerToken (length resTokens);
               groups = (if groups = [] \<or> ag_ID (last groups) \<noteq> dg_ID specGrp
                         then groups @ [\<lparr>ag_ID = dg_ID specGrp, ag_Manufacturer = dg_Manufacturer specGrp,
                                         ag_Accelerators = []\<rparr>]
                         else groups);
               statusGrp = last groups;
               entry = zero_AcceleratorAllocation\<lparr>aa_ID := ac_ID acc, aa_Index := ac_Index acc,
                         aa_Mode := rv_AllocationMode s, aa_Allocated := allocated\<rparr>
           in (butlast groups @ [statusGrp\<lparr>ag_Accelerators := ag_Accelerators statusGrp @ [entry]\<rparr>],
               map_put res allocated allocation)))"

definition accumulateAllocation ::
    "ResourceServer \<Rightarrow> Devices \<Rightarrow> CardTokens \<Rightarrow> int \<Rightarrow> DevicesStatus \<times> (Resource, int) gomap" where
  "accumulateAllocation s devs cardTokens unitsPerToken =
     (let (groups, allocation) =
            fold (\<lambda>specGrp acc.
                    if dg_Manufacturer specGrp \<noteq> rv_Manufacturer s then acc
                    else fold (accumulate_card s cardTokens unitsPerToken specGrp) (dg_Accelerators specGrp) acc)
              (sp_Groups (dv_Spec devs)) ([], [])
      in (zero_DevicesStatus\<lparr>st_Groups := groups\<rparr>, allocation))"

definition map_cards ::
    "(Resource \<Rightarrow> AcceleratorAllocation \<Rightarrow> AcceleratorAllocation) \<Rightarrow> DevicesStatus \<Rightarrow> DevicesStatus" where
  "map_cards f status = status\<lparr>st_Groups :=
     map (\<lambda>grp. grp\<lparr>ag_Accelerators :=
            map (\<lambda>acc. f \<lparr>rs_Group = ag_ID grp, rs_Device = aa_ID acc\<rparr> acc) (ag_Accelerators grp)\<rparr>)
       (st_Groups status)\<rparr>"

definition applyLogicalPlacements :: "Placements \<Rightarrow> DevicesStatus \<Rightarrow> DevicesStatus" where
  "applyLogicalPlacements placements =
     map_cards (\<lambda>res acc.
       case map_of placements res of
         None \<Rightarrow> acc
       | Some p \<Rightarrow> if p = [] then acc else acc\<lparr>aa_AllocatedLogicalPlacements := p\<rparr>)"

definition applyPhysicalPlacements ::
    "string \<Rightarrow> Placements \<Rightarrow> (Resource, string) gomap \<Rightarrow> DevicesStatus \<Rightarrow> DevicesStatus" where
  "applyPhysicalPlacements profile placements physicalIDs =
     map_cards (\<lambda>res acc.
       case map_of placements res of
         None \<Rightarrow> acc
       | Some p \<Rightarrow> acc\<lparr>aa_AllocatedPhysicalProfile := profile, aa_AllocatedPhysicalPlacements := p,
                       aa_AllocatedPhysicalID := map_get physicalIDs res []\<rparr>)"

section \<open>Comparing the records with kubelet\<close>

record ContainerDevices =
  cd_ResourceName :: string
  cd_DeviceIds :: "string list"

record ContainerResources =
  cr_Name :: string
  cr_Devices :: "ContainerDevices list"

record PodResources =
  kr_Namespace :: string
  kr_Name :: string
  kr_Containers :: "ContainerResources list"

datatype verify_error =
    ListFailed string
  | UncachedPod string string
  | BadDeviceID string string string token_error
  | AbsentAccelerator string string
  | UnreadableAllocation string string string
  | IdentityConflict string string string

type_synonym kubelet_lister = "(string + PodResources list) option"

definition manufacturableAccelerators :: "Knowns \<Rightarrow> (string, string \<times> DeviceAllocationMode) gomap" where
  "manufacturableAccelerators kn =
     fold (\<lambda>manufacturer table.
             fold (\<lambda>mode. map_put (GetAcceleratableResourceName kn manufacturer mode) (manufacturer, mode))
               [DeviceAllocationModeExclusive, DeviceAllocationModeShared] table)
       (GetKnownAcceleratableManufacturers kn) []"

definition verifyKubeletContainer ::
    "decoder \<Rightarrow> Devices \<Rightarrow> Pod list \<Rightarrow> PodResources \<Rightarrow> string \<Rightarrow> string list \<Rightarrow> string
      \<Rightarrow> DeviceAllocationMode \<Rightarrow> verify_error option" where
  "verifyKubeletContainer unmarshal devs pods reported container deviceIDs manufacturer mode =
     (case find (\<lambda>p. pod_Name p = kr_Name reported \<and> pod_Namespace p = kr_Namespace reported) pods of
        None \<Rightarrow> Some (UncachedPod (kr_Namespace reported) (kr_Name reported))
      | Some pod \<Rightarrow>
          if pod_Phase pod = PodSucceeded \<or> pod_Phase pod = PodFailed then None
          else case tokens_by_card deviceIDs [] of
            Inl (i, err) \<Rightarrow> Some (BadDeviceID (pod_Namespace pod) (pod_Name pod) i err)
          | Inr tokens \<Rightarrow>
              (let (expected, allocation) = accumulateAllocation
                     \<lparr>rv_Manufacturer = manufacturer, rv_AllocationMode = mode\<rparr> devs tokens 0 in
               if length allocation \<noteq> length tokens
               then Some (AbsentAccelerator (pod_Namespace pod) (pod_Name pod))
               else case AllocatedAcceleratorsOf unmarshal pod of
                 Inl err \<Rightarrow> Some (UnreadableAllocation (pod_Namespace pod) (pod_Name pod) err)
               | Inr allocations \<Rightarrow>
                   (let claim = map_get (entries allocations) container zero_ContainerAllocation in
                    if set (ca_DeviceIDs claim) \<noteq> set deviceIDs \<or> ca_Devices claim \<noteq> expected
                    then Some (IdentityConflict (pod_Namespace pod) (pod_Name pod) container)
                    else None)))"

definition container_resources :: "ContainerResources \<Rightarrow> (string, string list) gomap" where
  "container_resources container =
     fold (\<lambda>devices resources.
             map_put (cd_ResourceName devices)
               (map_get resources (cd_ResourceName devices) [] @ cd_DeviceIds devices) resources)
       (cr_Devices container) []"

fun first_error :: "('a \<Rightarrow> 'e option) \<Rightarrow> 'a list \<Rightarrow> 'e option" where
  "first_error f [] = None"
| "first_error f (x # xs) = (case f x of None \<Rightarrow> first_error f xs | Some err \<Rightarrow> Some err)"

definition verifyKubeletAllocations ::
    "Knowns \<Rightarrow> decoder \<Rightarrow> kubelet_lister \<Rightarrow> Devices \<Rightarrow> Pod list \<Rightarrow> verify_error + PodResources list" where
  "verifyKubeletAllocations kn unmarshal kubeletPods devs pods =
     (case kubeletPods of
        None \<Rightarrow> Inr []
      | Some (Inl err) \<Rightarrow> Inl (ListFailed err)
      | Some (Inr listed) \<Rightarrow>
          (case first_error (\<lambda>reportedPod.
                  first_error (\<lambda>container.
                    first_error (\<lambda>(name, deviceIDs).
                      if deviceIDs = [] then None
                      else case map_of (manufacturableAccelerators kn) name of
                        None \<Rightarrow> None
                      | Some (manufacturer, mode) \<Rightarrow>
                          verifyKubeletContainer unmarshal devs pods reportedPod (cr_Name container)
                            deviceIDs manufacturer mode)
                      (container_resources container))
                    (kr_Containers reportedPod))
                  listed of
             Some err \<Rightarrow> Inl err | None \<Rightarrow> Inr listed))"

record KubeletPending =
  kp_pods :: "(string \<times> string, (string, bool) gomap) gomap"

definition kubeletPendingFrom :: "PodResources list \<Rightarrow> string \<Rightarrow> KubeletPending" where
  "kubeletPendingFrom listed resName =
     \<lparr>kp_pods = fold (\<lambda>p pods.
        map_put (kr_Namespace p, kr_Name p)
          (fold (\<lambda>c ctrs.
                   map_put (cr_Name c)
                     (list_ex (\<lambda>d. cd_ResourceName d = resName \<and> cd_DeviceIds d \<noteq> []) (cr_Devices c)) ctrs)
             (kr_Containers p) []) pods)
        listed []\<rparr>"

definition waitsForDevice :: "KubeletPending \<Rightarrow> Pod \<Rightarrow> Container \<Rightarrow> bool" where
  "waitsForDevice k pod ctr =
     (case map_of (kp_pods k) (pod_Namespace pod, pod_Name pod) of
        None \<Rightarrow> False
      | Some ctrs \<Rightarrow> (case map_of ctrs (ct_Name ctr) of None \<Rightarrow> True | Some held \<Rightarrow> \<not> held))"

definition verifiedKubeletPending ::
    "Knowns \<Rightarrow> decoder \<Rightarrow> kubelet_lister \<Rightarrow> (string + Devices) \<Rightarrow> (string + Pod list) \<Rightarrow> string
      \<Rightarrow> (string + verify_error) + KubeletPending option" where
  "verifiedKubeletPending kn unmarshal kubeletPods getDevices listPods resource =
     (if kubeletPods = None then Inr None
      else case getDevices of
        Inl err \<Rightarrow> Inl (Inl err)
      | Inr devs \<Rightarrow>
          (case listPods of
             Inl err \<Rightarrow> Inl (Inl err)
           | Inr pods \<Rightarrow>
               (case verifyKubeletAllocations kn unmarshal kubeletPods devs pods of
                  Inl err \<Rightarrow> Inl (Inr err)
                | Inr listed \<Rightarrow> Inr (Some (kubeletPendingFrom listed resource)))))"

section \<open>Facts about charging\<close>

lemma unitsCharged_eq:
  assumes "0 \<le> unitsPerToken" and "tokens < 2 ^ 32"
  shows "unitsCharged unitsPerToken tokens = min (min unitsPerToken ResourceMaxUnits * int tokens) ResourceMaxUnits"
proof -
  have "min unitsPerToken 1600000 * int tokens \<le> 1600000 * 2 ^ 32"
    using assms by (intro mult_mono) auto
  moreover have "0 \<le> min unitsPerToken 1600000 * int tokens" using assms by simp
  ultimately have w: "wrap64 (min unitsPerToken 1600000 * int tokens) = min unitsPerToken 1600000 * int tokens"
    by (intro wrap64_id) (simp add: int64_def)
  show ?thesis
    unfolding unitsCharged_def Let_def w
    using \<open>0 \<le> min unitsPerToken 1600000 * int tokens\<close> by (intro wrap32_id) (simp add: int32_def)
qed

lemma card_units_bounds:
  assumes "0 \<le> unitsPerToken" and "tokens < 2 ^ 32"
  shows "0 \<le> card_units mode unitsPerToken tokens" and "card_units mode unitsPerToken tokens \<le> ResourceMaxUnits"
    and "mode = DeviceAllocationModeShared \<Longrightarrow> card_units mode unitsPerToken tokens = 160000"
proof -
  have "0 \<le> unitsCharged unitsPerToken tokens" using assms(1) unfolding unitsCharged_eq [OF assms] by simp
  then show "0 \<le> card_units mode unitsPerToken tokens"
    by (auto simp: card_units_def quot_def split: DeviceAllocationMode.split)
  show "card_units mode unitsPerToken tokens \<le> ResourceMaxUnits" by (simp add: card_units_def)
  show "mode = DeviceAllocationModeShared \<Longrightarrow> card_units mode unitsPerToken tokens = 160000"
    by (simp add: card_units_def quot_def)
qed

definition card_entries ::
    "ResourceServer \<Rightarrow> CardTokens \<Rightarrow> int \<Rightarrow> DevicesGroup \<Rightarrow> AcceleratorAllocation list" where
  "card_entries s cardTokens unitsPerToken grp =
     concat (map (\<lambda>acc.
       case map_of cardTokens \<lparr>rs_Group = dg_ID grp, rs_Device = ac_ID acc\<rparr> of
         None \<Rightarrow> []
       | Some ts \<Rightarrow> [zero_AcceleratorAllocation\<lparr>aa_ID := ac_ID acc, aa_Index := ac_Index acc,
           aa_Mode := rv_AllocationMode s,
           aa_Allocated := card_units (rv_AllocationMode s) unitsPerToken (length ts)\<rparr>])
       (dg_Accelerators grp))"

definition group_entry :: "DevicesGroup \<Rightarrow> AcceleratorAllocation list \<Rightarrow> DevicesAllocationGroup list" where
  "group_entry grp es = (if es = [] then [] else
     [\<lparr>ag_ID = dg_ID grp, ag_Manufacturer = dg_Manufacturer grp, ag_Accelerators = es\<rparr>])"

lemma accumulate_cards:
  assumes "gs = [] \<or> ag_ID (last gs) \<noteq> dg_ID grp"
  shows "fst (fold (accumulate_card s cardTokens u grp) accs (gs @ group_entry grp es, al))
    = gs @ group_entry grp (es @ card_entries s cardTokens u (grp\<lparr>dg_Accelerators := accs\<rparr>))"
proof (induction accs arbitrary: es al)
  case (Cons acc accs)
  show ?case
  proof (cases "map_of cardTokens \<lparr>rs_Group = dg_ID grp, rs_Device = ac_ID acc\<rparr>")
    case None
    then show ?thesis using Cons.IH by (simp add: card_entries_def)
  next
    case (Some ts)
    define e where "e = zero_AcceleratorAllocation\<lparr>aa_ID := ac_ID acc, aa_Index := ac_Index acc,
           aa_Mode := rv_AllocationMode s, aa_Allocated := card_units (rv_AllocationMode s) u (length ts)\<rparr>"
    have "\<exists>al'. accumulate_card s cardTokens u grp acc (gs @ group_entry grp es, al)
         = (gs @ group_entry grp (es @ [e]), al')"
      using Some assms by (cases "es = []") (auto simp: Let_def group_entry_def e_def)
    then obtain al' where "accumulate_card s cardTokens u grp acc (gs @ group_entry grp es, al)
         = (gs @ group_entry grp (es @ [e]), al')" ..
    then show ?thesis using Cons.IH [of "es @ [e]" al'] Some by (simp add: card_entries_def e_def)
  qed
qed (simp add: card_entries_def)

lemma accumulateAllocation_groups:
  assumes "distinct (map dg_ID (sp_Groups (dv_Spec devs)))"
  shows "st_Groups (fst (accumulateAllocation s devs cardTokens u)) =
     concat (map (\<lambda>grp. group_entry grp (card_entries s cardTokens u grp))
       (filter (\<lambda>grp. dg_Manufacturer grp = rv_Manufacturer s) (sp_Groups (dv_Spec devs))))"
proof -
  let ?step = "\<lambda>specGrp acc. if dg_Manufacturer specGrp \<noteq> rv_Manufacturer s then acc
      else fold (accumulate_card s cardTokens u specGrp) (dg_Accelerators specGrp) acc"
  have "fst (fold ?step gs (dn, al)) = dn @ concat (map (\<lambda>grp. group_entry grp (card_entries s cardTokens u grp))
       (filter (\<lambda>grp. dg_Manufacturer grp = rv_Manufacturer s) gs))"
    if "distinct (map dg_ID gs)" and "\<forall>g \<in> set gs. \<forall>d \<in> set dn. ag_ID d \<noteq> dg_ID g" for gs dn al
    using that
  proof (induction gs arbitrary: dn al)
    case (Cons g gs)
    show ?case
    proof (cases "dg_Manufacturer g = rv_Manufacturer s")
      case True
      have "dn = [] \<or> ag_ID (last dn) \<noteq> dg_ID g"
        using Cons.prems(2) last_in_set by auto
      from accumulate_cards [OF this, of s cardTokens u "dg_Accelerators g" "[]" al]
      obtain al' where "fold (accumulate_card s cardTokens u g) (dg_Accelerators g) (dn, al)
          = (dn @ group_entry g (card_entries s cardTokens u g), al')"
        by (metis append_Nil append_Nil2 group_entry_def prod.collapse DevicesGroup.surjective
            DevicesGroup.update_convs(10))
      moreover have "\<forall>g' \<in> set gs. \<forall>d \<in> set (dn @ group_entry g (card_entries s cardTokens u g)). ag_ID d \<noteq> dg_ID g'"
        using Cons.prems by (auto simp: group_entry_def)
      ultimately show ?thesis using True Cons.IH Cons.prems(1) by simp
    next
      case False
      then show ?thesis using Cons.IH Cons.prems by simp
    qed
  qed simp
  from this [OF assms, of "[]" "[]"] show ?thesis
    by (simp add: accumulateAllocation_def case_prod_unfold Let_def)
qed

section \<open>What is charged is what the strict rebuild accepts\<close>

definition card_valid :: "Pod \<Rightarrow> string \<Rightarrow> DevicesGroup \<Rightarrow> AcceleratorAllocation \<Rightarrow> bool" where
  "card_valid pod container spec a \<longleftrightarrow>
     (\<exists>acc. findDeviceCard spec (aa_ID a) = Some acc \<and> aa_Index a = ac_Index acc)
     \<and> validateCardModeAndUnits pod container a = None \<and> validateCardPlacement pod container a = None"

lemma check_claims_accepts:
  "\<forall>a \<in> set cards. card_valid pod container spec a \<Longrightarrow> distinct (map aa_ID cards) \<Longrightarrow>
   \<forall>a \<in> set cards. aa_ID a \<notin> seen \<Longrightarrow> check_claims pod container spec cards seen = None"
proof (induction cards arbitrary: seen)
  case (Cons a cards)
  have "check_claims pod container spec cards (insert (aa_ID a) seen) = None"
    using Cons.prems by (intro Cons.IH) (auto simp: image_iff)
  then show ?case using Cons.prems by (auto simp: card_valid_def)
qed simp

lemma check_claim_groups_accepts:
  "\<forall>g \<in> set groups. \<exists>spec. findDeviceGroup devs (ag_ID g) = Some spec \<and> ag_Manufacturer g = dg_Manufacturer spec
      \<and> (\<forall>a \<in> set (ag_Accelerators g). card_valid pod container spec a)
      \<and> distinct (map aa_ID (ag_Accelerators g)) \<Longrightarrow>
   check_claim_groups pod container devs groups = None"
  by (induction groups) (auto simp: check_claims_accepts)

lemma card_entries_in:
  assumes "a \<in> set (card_entries s cardTokens u grp)"
  obtains acc ts where "acc \<in> set (dg_Accelerators grp)"
    and "map_of cardTokens \<lparr>rs_Group = dg_ID grp, rs_Device = ac_ID acc\<rparr> = Some ts"
    and "a = zero_AcceleratorAllocation\<lparr>aa_ID := ac_ID acc, aa_Index := ac_Index acc,
           aa_Mode := rv_AllocationMode s, aa_Allocated := card_units (rv_AllocationMode s) u (length ts)\<rparr>"
proof -
  obtain acc where acc: "acc \<in> set (dg_Accelerators grp)"
    and a: "a \<in> set (case map_of cardTokens \<lparr>rs_Group = dg_ID grp, rs_Device = ac_ID acc\<rparr> of
         None \<Rightarrow> []
       | Some ts \<Rightarrow> [zero_AcceleratorAllocation\<lparr>aa_ID := ac_ID acc, aa_Index := ac_Index acc,
           aa_Mode := rv_AllocationMode s,
           aa_Allocated := card_units (rv_AllocationMode s) u (length ts)\<rparr>])"
    using assms unfolding card_entries_def by auto
  then show thesis
    by (cases "map_of cardTokens \<lparr>rs_Group = dg_ID grp, rs_Device = ac_ID acc\<rparr>") (auto intro: that)
qed

lemma card_entries_ids:
  assumes "distinct (map ac_ID (dg_Accelerators grp))"
  shows "distinct (map aa_ID (card_entries s cardTokens u grp))"
proof -
  have "map aa_ID (card_entries s cardTokens u grp) = filter
     (\<lambda>i. map_of cardTokens \<lparr>rs_Group = dg_ID grp, rs_Device = i\<rparr> \<noteq> None) (map ac_ID (dg_Accelerators grp))"
    unfolding card_entries_def by (rule list.induct [of _ "dg_Accelerators grp"]) (simp_all split: option.split)
  with assms show ?thesis by (simp del: map_map)
qed

text \<open>A rewrite of a record that keeps what identifies and sizes each claim.\<close>

definition keeps_claim :: "(Resource \<Rightarrow> AcceleratorAllocation \<Rightarrow> AcceleratorAllocation) \<Rightarrow> bool" where
  "keeps_claim f \<longleftrightarrow> (\<forall>res a. aa_ID (f res a) = aa_ID a \<and> aa_Index (f res a) = aa_Index a
     \<and> aa_Mode (f res a) = aa_Mode a \<and> aa_Allocated (f res a) = aa_Allocated a
     \<and> aa_Remaining (f res a) = aa_Remaining a)"

lemma map_cards_comp:
  assumes "keeps_claim g"
  shows "map_cards f (map_cards g st) = map_cards (\<lambda>res a. f res (g res a)) st"
proof -
  have "aa_ID (g res a) = aa_ID a" for res a using assms by (simp add: keeps_claim_def)
  then show ?thesis by (simp add: map_cards_def comp_def)
qed

lemma charged_record_valid:
  assumes "wf_inventory devs" and "keeps_claim f"
    and "rv_AllocationMode s \<in> {DeviceAllocationModeExclusive, DeviceAllocationModeShared,
           DeviceAllocationModeSliced, DeviceAllocationModePartitioned}"
    and "0 \<le> u" and "\<forall>(res, ts) \<in> set cardTokens. length ts < 2 ^ 32"
    and "\<And>res a. aa_AllocatedPhysicalProfile a = [] \<Longrightarrow> aa_AllocatedPhysicalPlacements a = [] \<Longrightarrow>
        aa_AllocatedPhysicalProfile (f res a) = [] \<longleftrightarrow> aa_AllocatedPhysicalPlacements (f res a) = []"
  shows "validateRecordedClaims pod container devs (map_cards f (fst (accumulateAllocation s devs cardTokens u))) = None"
  unfolding validateRecordedClaims_def
proof (rule check_claim_groups_accepts, rule ballI)
  fix g assume "g \<in> set (st_Groups (map_cards f (fst (accumulateAllocation s devs cardTokens u))))"
  then obtain grp where grp: "grp \<in> set (sp_Groups (dv_Spec devs))"
    and g: "g = \<lparr>ag_ID = dg_ID grp, ag_Manufacturer = dg_Manufacturer grp, ag_Accelerators =
       map (\<lambda>a. f \<lparr>rs_Group = dg_ID grp, rs_Device = aa_ID a\<rparr> a) (card_entries s cardTokens u grp)\<rparr>"
    using assms(1) by (auto simp: map_cards_def wf_inventory_def accumulateAllocation_groups group_entry_def)
  have cards: "distinct (map ac_ID (dg_Accelerators grp))" using assms(1) grp by (simp add: wf_inventory_def)
  have keep: "map aa_ID (ag_Accelerators g) = map aa_ID (card_entries s cardTokens u grp)"
    using assms(2) by (simp add: g keeps_claim_def)
  have "card_valid pod container grp a'" if mem: "a' \<in> set (ag_Accelerators g)" for a'
  proof -
    obtain a where a: "a \<in> set (card_entries s cardTokens u grp)"
      and a': "a' = f \<lparr>rs_Group = dg_ID grp, rs_Device = aa_ID a\<rparr> a" using mem g by auto
    obtain acc ts where acc: "acc \<in> set (dg_Accelerators grp)"
      and mem': "map_of cardTokens \<lparr>rs_Group = dg_ID grp, rs_Device = ac_ID acc\<rparr> = Some ts"
      and eq: "a = zero_AcceleratorAllocation\<lparr>aa_ID := ac_ID acc, aa_Index := ac_Index acc,
           aa_Mode := rv_AllocationMode s, aa_Allocated := card_units (rv_AllocationMode s) u (length ts)\<rparr>"
      by (rule card_entries_in [OF a])
    have ts: "length ts < 2 ^ 32" using bspec [OF assms(5) map_of_SomeD [OF mem']] by simp
    have "findDeviceCard grp (aa_ID a) = Some acc"
      using find_unique [OF cards acc] by (simp add: findDeviceCard_def eq)
    moreover have "validateCardModeAndUnits pod container a' = None"
    proof -
      have "aa_Mode a' = rv_AllocationMode s" "aa_Remaining a' = 0"
        "aa_Allocated a' = card_units (rv_AllocationMode s) u (length ts)"
        using assms(2) by (simp_all add: a' keeps_claim_def eq zero_AcceleratorAllocation_def)
      moreover have "quot ResourceMaxUnits SharedResourceMaxSize = 160000" by (simp add: quot_def)
      ultimately show ?thesis
        using assms(3) card_units_bounds [OF assms(4) ts, of "rv_AllocationMode s"]
        by (simp add: validateCardModeAndUnits_def)
    qed
    moreover have "validateCardPlacement pod container a' = None"
      using assms(6) [of a] by (auto simp: validateCardPlacement_def a' eq zero_AcceleratorAllocation_def)
    ultimately show ?thesis using assms(2) by (simp add: card_valid_def a' eq keeps_claim_def)
  qed
  moreover have "findDeviceGroup devs (ag_ID g) = Some grp"
    using find_unique [OF _ grp, of dg_ID] assms(1) by (simp add: findDeviceGroup_def g wf_inventory_def)
  ultimately show "\<exists>spec. findDeviceGroup devs (ag_ID g) = Some spec \<and> ag_Manufacturer g = dg_Manufacturer spec
      \<and> (\<forall>a \<in> set (ag_Accelerators g). card_valid pod container spec a)
      \<and> distinct (map aa_ID (ag_Accelerators g))"
    unfolding keep using card_entries_ids [OF cards] by (intro exI [of _ grp]) (simp add: g)
qed

text \<open>C24: Whatever cards the tokens of an allocation name, the record the allocator builds for a
  valid inventory passes the checks of the strict rebuild: one entry per card of the inventory, with
  its index, the server's mode and units that fit, also once logical windows and a profile with its
  intervals have been written into it.\<close>

theorem allocated_record_validates:
  assumes "wf_inventory devs"
    and "rv_AllocationMode s \<in> {DeviceAllocationModeExclusive, DeviceAllocationModeShared,
           DeviceAllocationModeSliced, DeviceAllocationModePartitioned}"
    and "0 \<le> u" and "\<forall>(res, ts) \<in> set cardTokens. length ts < 2 ^ 32"
    and "profile \<noteq> []" and "\<forall>(res, p) \<in> set physical. p \<noteq> []"
  shows "validateRecordedClaims pod container devs (applyPhysicalPlacements profile physical physicalIDs
      (applyLogicalPlacements logical (fst (accumulateAllocation s devs cardTokens u)))) = None"
proof -
  let ?l = "\<lambda>res acc. case map_of logical res of None \<Rightarrow> acc
      | Some p \<Rightarrow> if p = [] then acc else acc\<lparr>aa_AllocatedLogicalPlacements := p\<rparr>"
  let ?p = "\<lambda>res acc. case map_of physical res of None \<Rightarrow> acc
      | Some p \<Rightarrow> acc\<lparr>aa_AllocatedPhysicalProfile := profile, aa_AllocatedPhysicalPlacements := p,
          aa_AllocatedPhysicalID := map_get physicalIDs res []\<rparr>"
  have keep: "keeps_claim ?l" "keeps_claim ?p" by (simp_all add: keeps_claim_def split: option.split)
  then have "keeps_claim (\<lambda>res a. ?p res (?l res a))" by (simp add: keeps_claim_def)
  moreover note map_cards_comp [OF keep(1), of ?p]
  moreover have "aa_AllocatedPhysicalProfile (?p res (?l res a)) = [] \<longleftrightarrow>
      aa_AllocatedPhysicalPlacements (?p res (?l res a)) = []"
    if "aa_AllocatedPhysicalProfile a = []" "aa_AllocatedPhysicalPlacements a = []" for res a
    using that assms(5,6) by (auto split: option.split dest: map_of_SomeD)
  ultimately show ?thesis
    unfolding applyPhysicalPlacements_def applyLogicalPlacements_def
    by (simp only:) (rule charged_record_valid [OF assms(1) _ assms(2,3,4)], simp_all)
qed

theorem allocated_record_validates_witness:
  "validateRecordedClaims (sample_pod ''shared'') ''main'' sample_devices
     (applyPhysicalPlacements ''1g'' [(\<lparr>rs_Group = ''t4'', rs_Device = ''GPU-2''\<rparr>, [\<lparr>pl_Start = 0, pl_Length = 1\<rparr>])] []
       (applyLogicalPlacements [] (fst (accumulateAllocation
          \<lparr>rv_Manufacturer = ''nvidia'', rv_AllocationMode = DeviceAllocationModePartitioned\<rparr> sample_devices
          [(\<lparr>rs_Group = ''t4'', rs_Device = ''GPU-2''\<rparr>, [\<lparr>rt_Resource = \<lparr>rs_Group = ''t4'', rs_Device = ''GPU-2''\<rparr>,
              rt_Index = 0\<rparr>])] 800000)))) = None"
  by (rule allocated_record_validates)
    (simp_all add: wf_inventory_def sample_devices_def sample_group_def sample_partitioned_def zero_DevicesGroup_def
      zero_Accelerator_def)

section \<open>Facts about the comparison with kubelet\<close>

definition charged_exactly :: "CardTokens \<Rightarrow> Accumulated \<Rightarrow> bool" where
  "charged_exactly cardTokens r \<longleftrightarrow> wf_map (snd r)
     \<and> fst ` set_mset (group_claims (fst r)) = fst ` set (snd r) \<and> fst ` set (snd r) \<subseteq> fst ` set cardTokens"

lemma group_claims_simps:
  "group_claims [] = {#}"
  "group_claims (g # gs) = mset (map (\<lambda>a. (\<lparr>rs_Group = ag_ID g, rs_Device = aa_ID a\<rparr>, a)) (ag_Accelerators g))
     + group_claims gs"
  "group_claims (as @ bs) = group_claims as + group_claims bs"
  by (simp_all add: group_claims_def)

lemma charged_exactly_card:
  assumes "charged_exactly cardTokens r"
  shows "charged_exactly cardTokens (accumulate_card s cardTokens u grp acc r)"
proof (cases "map_of cardTokens \<lparr>rs_Group = dg_ID grp, rs_Device = ac_ID acc\<rparr>")
  case None
  then show ?thesis using assms by (cases r) simp
next
  case (Some ts)
  obtain gs al where r: "r = (gs, al)" by (cases r)
  let ?res = "\<lparr>rs_Group = dg_ID grp, rs_Device = ac_ID acc\<rparr>"
  obtain gs' al' where step: "accumulate_card s cardTokens u grp acc r = (gs', al')" by fastforce
  have al': "\<exists>v. al' = map_put ?res v al" using step Some r by (auto simp: Let_def)
  let ?e = "zero_AcceleratorAllocation\<lparr>aa_ID := ac_ID acc, aa_Index := ac_Index acc,
       aa_Mode := rv_AllocationMode s, aa_Allocated := card_units (rv_AllocationMode s) u (length ts)\<rparr>"
  have "group_claims gs' = group_claims gs + {#(?res, ?e)#}"
  proof (cases "gs = [] \<or> ag_ID (last gs) \<noteq> dg_ID grp")
    case True
    then have "gs' = gs @ [\<lparr>ag_ID = dg_ID grp, ag_Manufacturer = dg_Manufacturer grp, ag_Accelerators = [?e]\<rparr>]"
      using step Some r by (simp add: Let_def)
    then show ?thesis by (simp add: group_claims_simps)
  next
    case False
    then obtain hs h where gs: "gs = hs @ [h]" and h: "ag_ID h = dg_ID grp"
      by (metis append_butlast_last_id)
    then have "gs' = hs @ [h\<lparr>ag_Accelerators := ag_Accelerators h @ [?e]\<rparr>]"
      using step Some r by (simp add: Let_def)
    then show ?thesis using h by (simp add: group_claims_simps gs)
  qed
  then have "fst ` set_mset (group_claims gs') = insert ?res (fst ` set_mset (group_claims gs))" by simp
  moreover have "?res \<in> fst ` set cardTokens" using map_of_SomeD [OF Some] by force
  moreover obtain v where "al' = map_put ?res v al" using al' ..
  ultimately show ?thesis
    using assms [unfolded r charged_exactly_def] unfolding step charged_exactly_def by (simp add: keys_put wf_put)
qed

lemma fold_preserves: "(\<And>x s. P s \<Longrightarrow> P (f x s)) \<Longrightarrow> P s \<Longrightarrow> P (fold f xs s)"
  by (induction xs arbitrary: s) auto

lemma accumulateAllocation_exact:
  assumes "accumulateAllocation s devs cardTokens u = (status, allocation)"
  shows "fst ` set (claims_of status) = fst ` set allocation" and "wf_map allocation"
    and "fst ` set allocation \<subseteq> fst ` set cardTokens"
proof -
  have "charged_exactly cardTokens (st_Groups status, allocation)"
  proof -
    let ?step = "\<lambda>specGrp acc. if dg_Manufacturer specGrp \<noteq> rv_Manufacturer s then acc
      else fold (accumulate_card s cardTokens u specGrp) (dg_Accelerators specGrp) acc"
    have group: "charged_exactly cardTokens (?step specGrp r)" if "charged_exactly cardTokens r" for specGrp r
      using that by (simp add: fold_preserves [where P = "charged_exactly cardTokens"] charged_exactly_card)
    have "charged_exactly cardTokens ([], [])" by (simp add: charged_exactly_def wf_map_def group_claims_simps)
    then have "charged_exactly cardTokens (fold ?step (sp_Groups (dv_Spec devs)) ([], []))"
      by (rule fold_preserves [where P = "charged_exactly cardTokens", rotated]) (rule group)
    then show ?thesis
      using assms by (auto simp: accumulateAllocation_def Let_def split: prod.splits)
  qed
  moreover have "set_mset (group_claims (st_Groups status)) = set (claims_of status)"
    by (metis mset_claims_of set_mset_mset)
  ultimately show "fst ` set (claims_of status) = fst ` set allocation" "wf_map allocation"
    "fst ` set allocation \<subseteq> fst ` set cardTokens" by (auto simp: charged_exactly_def)
qed

lemma tokens_by_card_parsed:
  assumes "tokens_by_card deviceIDs tokens = Inr tokens'" and "wf_map tokens"
  shows "wf_map tokens' \<and> (\<forall>i \<in> set deviceIDs. \<exists>t. ParseResourceToken i = Inr t)
    \<and> fst ` set tokens' = fst ` set tokens \<union> {rt_Resource t | i t. i \<in> set deviceIDs \<and> ParseResourceToken i = Inr t}"
  using assms
proof (induction deviceIDs tokens rule: tokens_by_card.induct)
  case (2 i deviceIDs tokens)
  then obtain t where t: "ParseResourceToken i = Inr t"
    and rest: "tokens_by_card deviceIDs (add_token t tokens) = Inr tokens'"
    by (auto split: sum.splits)
  have "wf_map (add_token t tokens)" using 2(3) by (auto simp: add_token_def)
  from 2(1) [OF t rest this] t show ?case by (auto simp: add_token_def keys_put)
qed simp

lemma first_error_None: "first_error f xs = None \<longleftrightarrow> (\<forall>x \<in> set xs. f x = None)"
  by (induction xs) (auto split: option.splits)

lemma container_resources_ids:
  "map_get (container_resources container) name [] =
     concat (map cd_DeviceIds (filter (\<lambda>d. cd_ResourceName d = name) (cr_Devices container)))"
proof -
  have "map_get (fold (\<lambda>devices resources.
             map_put (cd_ResourceName devices)
               (map_get resources (cd_ResourceName devices) [] @ cd_DeviceIds devices) resources) ds m) name []
    = map_get m name [] @ concat (map cd_DeviceIds (filter (\<lambda>d. cd_ResourceName d = name) ds))" for ds m
    by (induction ds arbitrary: m) auto
  from this [of "cr_Devices container" "[]"] show ?thesis by (simp add: container_resources_def)
qed

lemma verifyKubeletContainer_None:
  assumes "verifyKubeletContainer unmarshal devs pods reported container deviceIDs manufacturer mode = None"
  obtains pod where "pod \<in> set pods" "pod_Name pod = kr_Name reported" "pod_Namespace pod = kr_Namespace reported"
    "podTerminated pod"
  | pod allocations tokens allocation where "pod \<in> set pods" "pod_Name pod = kr_Name reported"
    "pod_Namespace pod = kr_Namespace reported"
    "tokens_by_card deviceIDs [] = Inr tokens" "length allocation = length tokens"
    "AllocatedAcceleratorsOf unmarshal pod = Inr allocations"
    "accumulateAllocation \<lparr>rv_Manufacturer = manufacturer, rv_AllocationMode = mode\<rparr> devs tokens 0
       = (ca_Devices (map_get (entries allocations) container zero_ContainerAllocation), allocation)"
    "set (ca_DeviceIDs (map_get (entries allocations) container zero_ContainerAllocation)) = set deviceIDs"
proof -
  obtain pod where found: "find (\<lambda>p. pod_Name p = kr_Name reported \<and> pod_Namespace p = kr_Namespace reported) pods = Some pod"
    using assms by (auto simp: verifyKubeletContainer_def split: option.splits)
  have pod: "pod \<in> set pods" "pod_Name pod = kr_Name reported" "pod_Namespace pod = kr_Namespace reported"
    using found by (auto simp: find_Some_iff)
  show thesis
  proof (cases "podTerminated pod")
    case True
    with pod that(1) show thesis by blast
  next
    case False
    with assms found pod that(2) show thesis
      by (auto simp: verifyKubeletContainer_def podTerminated_def Let_def split: sum.splits prod.splits if_splits)
  qed
qed

text \<open>C25: After the comparison with kubelet passed, the records and kubelet agree on every whole-card
  device kubelet has handed out: the Pod it names is known and, unless it finished, the record of the
  container carries exactly kubelet's device IDs and claims exactly the cards those IDs name, however
  kubelet splits the IDs into blocks.\<close>

theorem verified_records_match:
  assumes "verifyKubeletAllocations kn unmarshal (Some (Inr listed)) devs pods = Inr r"
    and "reported \<in> set listed" and "container \<in> set (kr_Containers reported)"
    and "map_of (manufacturableAccelerators kn) name = Some (manufacturer, mode)"
    and "deviceIDs = concat (map cd_DeviceIds (filter (\<lambda>d. cd_ResourceName d = name) (cr_Devices container)))"
    and "deviceIDs \<noteq> []"
  shows "\<exists>pod \<in> set pods. pod_Name pod = kr_Name reported \<and> pod_Namespace pod = kr_Namespace reported
    \<and> (podTerminated pod \<or> (\<exists>allocations claim. AllocatedAcceleratorsOf unmarshal pod = Inr allocations
         \<and> claim = map_get (entries allocations) (cr_Name container) zero_ContainerAllocation
         \<and> set (ca_DeviceIDs claim) = set deviceIDs
         \<and> fst ` set (claims_of (ca_Devices claim))
             = {rt_Resource t | i t. i \<in> set deviceIDs \<and> ParseResourceToken i = Inr t}))"
proof -
  have mem: "map_of (container_resources container) name = Some deviceIDs"
    using container_resources_ids [of container name] assms(5,6) by (simp add: map_get_def split: option.splits)
  have "verifyKubeletContainer unmarshal devs pods reported (cr_Name container) deviceIDs manufacturer mode = None"
    using assms(1-4,6) map_of_SomeD [OF mem]
    by (fastforce simp: verifyKubeletAllocations_def first_error_None split: option.splits)
  then show ?thesis
  proof (cases rule: verifyKubeletContainer_None)
    case (2 pod allocations tokens allocation)
    let ?claim = "map_get (entries allocations) (cr_Name container) zero_ContainerAllocation"
    have tokens: "wf_map tokens"
      "fst ` set tokens = {rt_Resource t | i t. i \<in> set deviceIDs \<and> ParseResourceToken i = Inr t}"
      using tokens_by_card_parsed [OF 2(4)] by (auto simp: wf_map_def)
    note exact = accumulateAllocation_exact [OF 2(7)]
    have "card (fst ` set allocation) = card (fst ` set tokens)"
      using exact(2) tokens(1) 2(5) distinct_card [of "map fst allocation"] distinct_card [of "map fst tokens"]
      by (simp add: wf_map_def)
    with exact(3) have "fst ` set allocation = fst ` set tokens" by (intro card_subset_eq) auto
    then have "fst ` set (claims_of (ca_Devices ?claim))
        = {rt_Resource t | i t. i \<in> set deviceIDs \<and> ParseResourceToken i = Inr t}"
      using exact(1) tokens(2) by simp
    then show ?thesis
      by (intro bexI [OF _ 2(1)] conjI disjI2 exI [of _ allocations] exI [of _ ?claim] refl 2)
  qed blast
qed

definition sample_server :: "DeviceAllocationMode \<Rightarrow> ResourceServer" where
  "sample_server mode = \<lparr>rv_Manufacturer = ''nvidia'', rv_AllocationMode = mode\<rparr>"

definition sample_tokens :: CardTokens where
  "sample_tokens = [(\<lparr>rs_Group = ''t4'', rs_Device = ''GPU-0''\<rparr>,
     [\<lparr>rt_Resource = \<lparr>rs_Group = ''t4'', rs_Device = ''GPU-0''\<rparr>, rt_Index = 0\<rparr>])]"

definition sample_kubelet_decoder :: decoder where
  "sample_kubelet_decoder text = Inr (Some [(''main'',
     \<lparr>ca_Devices = fst (accumulateAllocation (sample_server DeviceAllocationModeExclusive) sample_devices sample_tokens 0),
      ca_DeviceIDs = [''t4:GPU-0:0000'']\<rparr>)])"

definition sample_reported :: PodResources where
  "sample_reported = \<lparr>kr_Namespace = [], kr_Name = [], kr_Containers =
     [\<lparr>cr_Name = ''main'', cr_Devices = [\<lparr>cd_ResourceName = ''nvidia.com/gpu'', cd_DeviceIds = [''t4:GPU-0:0000'']\<rparr>]\<rparr>]\<rparr>"

definition sample_knowns :: Knowns where
  "sample_knowns = default_knowns\<lparr>kn_PciVendorID := [(''nvidia'', ''10de'')],
     kn_ResourceName := [(''nvidia'', ''nvidia.com/gpu'')]\<rparr>"

lemma sample_known: "map_of (manufacturableAccelerators sample_knowns) ''nvidia.com/gpu''
     = Some (''nvidia'', DeviceAllocationModeExclusive)" by code_simp

lemma sample_token_id: "ResourceToken_String \<lparr>rt_Resource = \<lparr>rs_Group = ''t4'', rs_Device = ''GPU-0''\<rparr>, rt_Index = 0\<rparr> = ''t4:GPU-0:0000''"
  by code_simp

lemma sample_tokens_parsed: "tokens_by_card [''t4:GPU-0:0000''] [] = Inr sample_tokens"
  using ParseResourceToken_token [of "\<lparr>rs_Group = ''t4'', rs_Device = ''GPU-0''\<rparr>" 0]
  by (simp add: sample_token_id wf_resource_def add_token_def sample_tokens_def)

lemma sample_charged: "length (snd (accumulateAllocation (sample_server DeviceAllocationModeExclusive) sample_devices sample_tokens 0)) = 1" by code_simp

lemma sample_container_verified: "verifyKubeletContainer sample_kubelet_decoder sample_devices
     [sample_pod ''shared''] sample_reported ''main'' [''t4:GPU-0:0000''] ''nvidia'' DeviceAllocationModeExclusive = None"
  using sample_tokens_parsed sample_charged
  by (simp add: verifyKubeletContainer_def sample_reported_def sample_pod_def zero_Pod_def sample_tokens_def
    AllocatedAcceleratorsOf_def sample_kubelet_decoder_def case_prod_unfold sample_server_def entries_def map_get_def)

lemma sample_verified: "verifyKubeletAllocations sample_knowns sample_kubelet_decoder (Some (Inr [sample_reported])) sample_devices
     [sample_pod ''shared''] = Inr [sample_reported]"
  using sample_container_verified sample_known by (simp add: verifyKubeletAllocations_def container_resources_def sample_reported_def map_get_def)

theorem verified_records_match_witness:
  "verifyKubeletAllocations sample_knowns sample_kubelet_decoder (Some (Inr [sample_reported])) sample_devices
     [sample_pod ''shared''] = Inr [sample_reported]
   \<and> (\<exists>allocations claim. AllocatedAcceleratorsOf sample_kubelet_decoder (sample_pod ''shared'') = Inr allocations
         \<and> claim = map_get (entries allocations) ''main'' zero_ContainerAllocation
         \<and> set (ca_DeviceIDs claim) = {''t4:GPU-0:0000''})"
  using verified_records_match [OF sample_verified, of sample_reported "hd (kr_Containers sample_reported)" "''nvidia.com/gpu''",
        OF _ _ sample_known refl] sample_verified
    by (auto simp: sample_reported_def sample_pod_def zero_Pod_def podTerminated_def)

end
