(* ===== verification/Reservations.thy ===== *)
theory Reservations
  imports Allocation_Charge
begin

text \<open>
  The state the node's reconciler keeps in memory, \<open>DevicesReconciler\<close> of
  \<open>pkg/deviceplugin/controller.go\<close>: the reservations of containers being admitted, the visibility
  grants, the compensating writes that have not landed, the wake-up channel of the latter, and the
  subscriptions of the advertising streams. Each operation is a function on that state; the Go
  mutexes make each of them atomic. An annotation write is a call of the parameter \<open>patch\<close>, which
  tells whether the API server accepted the value (\<open>None\<close>) or the error; JSON encoding is the
  parameter \<open>marshal\<close>. A set is a list without repetition, in one iteration order.
\<close>

section \<open>State\<close>

record ReservationKey =
  rk_PodUID :: string
  rk_Container :: string

record Reservation =
  rv_Allocated :: DevicesStatus
  rv_DeviceIDs :: "string list"

record DevicesNotifier =
  dn_Manufacturer :: string
  dn_AllocationMode :: DeviceAllocationMode
  dn_Channel :: nat
  dn_Buffer :: "string list list"

record DevicesReconciler =
  dr_notifiers :: "DevicesNotifier list"
  dr_nextChannel :: nat
  dr_lastLivePodUIDs :: "string list option"
  dr_reservations :: "(ReservationKey, Reservation) gomap"
  dr_visibilityGrants :: "ReservationKey list"
  dr_pendingReleases :: "(ReservationKey, ContainerAllocation option) gomap"
  dr_pendingReleaseEvents :: "nat option"
  dr_slicedAllocateGateOff :: bool

abbreviation key :: "string \<Rightarrow> string \<Rightarrow> ReservationKey" where
  "key podUID container \<equiv> \<lparr>rk_PodUID = podUID, rk_Container = container\<rparr>"

section \<open>Subscriptions\<close>

text \<open>A subscription's channel buffers four broadcasts; a send to a full channel is dropped.\<close>

definition offer :: "string list \<Rightarrow> DevicesNotifier \<Rightarrow> DevicesNotifier" where
  "offer payload n = (if length (dn_Buffer n) < 4 then n\<lparr>dn_Buffer := dn_Buffer n @ [payload]\<rparr> else n)"

definition notifyListeners :: "DevicesReconciler \<Rightarrow> DevicesReconciler" where
  "notifyListeners r =
     (case dr_lastLivePodUIDs r of
        None \<Rightarrow> r
      | Some live \<Rightarrow> r\<lparr>dr_notifiers := map (offer live) (dr_notifiers r)\<rparr>)"

definition getReconcileNotifier ::
    "string \<Rightarrow> DeviceAllocationMode \<Rightarrow> DevicesReconciler \<Rightarrow> nat \<times> DevicesReconciler" where
  "getReconcileNotifier manufacturer mode r =
     (let channel = dr_nextChannel r;
          notifier = \<lparr>dn_Manufacturer = manufacturer, dn_AllocationMode = mode, dn_Channel = channel,
            dn_Buffer = (case dr_lastLivePodUIDs r of None \<Rightarrow> [] | Some live \<Rightarrow> [live])\<rparr>
      in (channel, r\<lparr>dr_notifiers := dr_notifiers r @ [notifier], dr_nextChannel := Suc channel\<rparr>))"

definition dropReconcileNotifier :: "nat \<Rightarrow> DevicesReconciler \<Rightarrow> DevicesReconciler" where
  "dropReconcileNotifier channel r =
     r\<lparr>dr_notifiers := filter (\<lambda>n. dn_Channel n \<noteq> channel) (dr_notifiers r)\<rparr>"

section \<open>Reservations\<close>

definition reserveDevices ::
    "string \<Rightarrow> string \<Rightarrow> DevicesStatus \<Rightarrow> string list \<Rightarrow> DevicesReconciler \<Rightarrow> DevicesReconciler" where
  "reserveDevices podUID container allocated deviceIDs r =
     (if podUID = [] \<or> container = [] \<or> st_Groups allocated = [] then r
      else notifyListeners (r\<lparr>dr_reservations := map_put (key podUID container)
             \<lparr>rv_Allocated = allocated, rv_DeviceIDs = deviceIDs\<rparr> (dr_reservations r)\<rparr>))"

definition reservedDevices :: "DevicesReconciler \<Rightarrow> string \<Rightarrow> string \<Rightarrow> DevicesStatus option" where
  "reservedDevices r podUID container =
     map_option rv_Allocated (map_of (dr_reservations r) (key podUID container))"

definition releaseReservation :: "string \<Rightarrow> string \<Rightarrow> DevicesReconciler \<Rightarrow> DevicesReconciler" where
  "releaseReservation podUID container r =
     notifyListeners (r\<lparr>dr_reservations := map_delete (key podUID container) (dr_reservations r)\<rparr>)"

definition reservationsFor :: "DevicesReconciler \<Rightarrow> string \<Rightarrow> (string, Reservation) gomap" where
  "reservationsFor r podUID =
     map (\<lambda>(k, v). (rk_Container k, v)) (filter (\<lambda>(k, v). rk_PodUID k = podUID) (dr_reservations r))"

fun pickAcceleratorOwner :: "string list \<Rightarrow> string \<Rightarrow> string \<Rightarrow> string" where
  "pickAcceleratorOwner [] self owner = owner"
| "pickAcceleratorOwner (name # candidates) self owner =
     (if name = self then pickAcceleratorOwner candidates self owner
      else if owner = [] \<or> name < owner then pickAcceleratorOwner candidates self name
      else pickAcceleratorOwner candidates self owner)"

definition reservedAcceleratorDevices ::
    "DevicesReconciler \<Rightarrow> string \<Rightarrow> string \<Rightarrow> (DevicesStatus \<times> string) option" where
  "reservedAcceleratorDevices r podUID self =
     (let candidates = map rk_Container (filter (\<lambda>k. rk_PodUID k = podUID) (map fst (dr_reservations r)));
          owner = pickAcceleratorOwner candidates self []
      in if owner = [] then None
         else Some (case map_of (dr_reservations r) (key podUID owner) of
                      None \<Rightarrow> zero_DevicesStatus | Some v \<Rightarrow> rv_Allocated v, owner))"

definition reservedPhysicalOccupied :: "DevicesReconciler \<Rightarrow> Placements" where
  "reservedPhysicalOccupied r =
     fst (fold (\<lambda>(k, v). accumulatePhysicalOccupied (rv_Allocated v)) (dr_reservations r) ([], []))"

definition reservedLogicalOccupied :: "DevicesReconciler \<Rightarrow> Placements" where
  "reservedLogicalOccupied r =
     fold (\<lambda>(k, v). accumulateLogicalOccupied (rv_Allocated v)) (dr_reservations r) []"

definition held_mode :: "Resource \<Rightarrow> DevicesStatus \<Rightarrow> DeviceAllocationMode option" where
  "held_mode res status =
     map_option (\<lambda>c. aa_Mode (snd c))
       (find (\<lambda>c. fst c = res \<and> aa_Mode (snd c) \<noteq> DeviceAllocationModeNone) (claims_of status))"

fun reserved_mode :: "Resource \<Rightarrow> (ReservationKey, Reservation) gomap \<Rightarrow> DeviceAllocationMode \<times> string" where
  "reserved_mode res [] = (DeviceAllocationModeNone, [])"
| "reserved_mode res ((k, v) # m) =
     (case held_mode res (rv_Allocated v) of
        Some mode \<Rightarrow> (mode, rk_PodUID k) | None \<Rightarrow> reserved_mode res m)"

definition reservedModeForResource :: "DevicesReconciler \<Rightarrow> string \<Rightarrow> string \<Rightarrow> DeviceAllocationMode \<times> string" where
  "reservedModeForResource r grp device =
     reserved_mode \<lparr>rs_Group = grp, rs_Device = device\<rparr> (dr_reservations r)"

definition pruneReservations :: "string list \<Rightarrow> DevicesReconciler \<Rightarrow> DevicesReconciler" where
  "pruneReservations livePodUIDs r =
     r\<lparr>dr_reservations := filter (\<lambda>(k, v). rk_PodUID k \<in> set livePodUIDs) (dr_reservations r)\<rparr>"

section \<open>Visibility grants\<close>

definition grantVisibility :: "string \<Rightarrow> string \<Rightarrow> DevicesReconciler \<Rightarrow> DevicesReconciler" where
  "grantVisibility podUID container r =
     (if podUID = [] \<or> container = [] then r
      else r\<lparr>dr_visibilityGrants := List.insert (key podUID container) (dr_visibilityGrants r)\<rparr>)"

definition revokeVisibility :: "string \<Rightarrow> string \<Rightarrow> DevicesReconciler \<Rightarrow> DevicesReconciler" where
  "revokeVisibility podUID container r =
     r\<lparr>dr_visibilityGrants := removeAll (key podUID container) (dr_visibilityGrants r)\<rparr>"

definition visibilityGranted :: "DevicesReconciler \<Rightarrow> string \<Rightarrow> string \<Rightarrow> bool" where
  "visibilityGranted r podUID container \<longleftrightarrow> key podUID container \<in> set (dr_visibilityGrants r)"

definition pruneVisibilityGrants :: "string list \<Rightarrow> DevicesReconciler \<Rightarrow> DevicesReconciler" where
  "pruneVisibilityGrants livePodUIDs r =
     r\<lparr>dr_visibilityGrants := filter (\<lambda>k. rk_PodUID k \<in> set livePodUIDs) (dr_visibilityGrants r)\<rparr>"

section \<open>Compensating writes\<close>

definition recordPendingRelease ::
    "string \<Rightarrow> string \<Rightarrow> ContainerAllocation option \<Rightarrow> DevicesReconciler \<Rightarrow> DevicesReconciler" where
  "recordPendingRelease podUID container prior r =
     (if podUID = [] \<or> container = [] then r
      else let wasEmpty = (dr_pendingReleases r = []);
               r = r\<lparr>dr_pendingReleases := map_put (key podUID container) prior (dr_pendingReleases r)\<rparr>
           in if \<not> wasEmpty then r
              else r\<lparr>dr_pendingReleaseEvents := map_option (\<lambda>queued. 1) (dr_pendingReleaseEvents r)\<rparr>)"

definition dropPendingRelease :: "string \<Rightarrow> string \<Rightarrow> DevicesReconciler \<Rightarrow> DevicesReconciler" where
  "dropPendingRelease podUID container r =
     r\<lparr>dr_pendingReleases := map_delete (key podUID container) (dr_pendingReleases r)\<rparr>"

definition hasPendingReleases :: "DevicesReconciler \<Rightarrow> bool" where
  "hasPendingReleases r \<longleftrightarrow> dr_pendingReleases r \<noteq> []"

definition pendingReleaseKeySet :: "DevicesReconciler \<Rightarrow> ReservationKey list" where
  "pendingReleaseKeySet r = map fst (dr_pendingReleases r)"

definition peekPendingRelease ::
    "DevicesReconciler \<Rightarrow> string \<Rightarrow> string \<Rightarrow> ContainerAllocation option option" where
  "peekPendingRelease r podUID container = map_of (dr_pendingReleases r) (key podUID container)"

section \<open>The durable record\<close>

type_synonym encoder = "PodAllocations \<Rightarrow> string + string"
type_synonym api_patch = "Pod \<Rightarrow> string option \<Rightarrow> string option"

datatype patch_error =
    ReadFailed string
  | MarshalFailed string
  | PatchFailed string

definition reservation_record :: "Reservation \<Rightarrow> ContainerAllocation" where
  "reservation_record v = \<lparr>ca_Devices = rv_Allocated v, ca_DeviceIDs = rv_DeviceIDs v\<rparr>"

definition overlay_siblings :: "DevicesReconciler \<Rightarrow> Pod \<Rightarrow> string \<Rightarrow> PodAllocations \<Rightarrow> PodAllocations" where
  "overlay_siblings r pod container allocations =
     fold (\<lambda>(name, reserved) allocations.
             if name = container then allocations
             else map_put name (reservation_record reserved) allocations)
       (reservationsFor r (pod_UID pod)) allocations"

definition patchAllocatingPod ::
    "decoder \<Rightarrow> encoder \<Rightarrow> api_patch \<Rightarrow> Pod \<Rightarrow> string \<Rightarrow> DevicesStatus \<Rightarrow> string list \<Rightarrow> DevicesReconciler
      \<Rightarrow> (patch_error + string option) \<times> DevicesReconciler" where
  "patchAllocatingPod unmarshal marshal patch pod container allocatedStatus deviceIDs r =
     (case AllocatedAcceleratorsOf unmarshal pod of
        Inl err \<Rightarrow> (Inl (ReadFailed err), r)
      | Inr allocations \<Rightarrow>
          (case marshal (map_put container \<lparr>ca_Devices = allocatedStatus, ca_DeviceIDs = deviceIDs\<rparr>
                   (overlay_siblings r pod container (entries allocations))) of
             Inl err \<Rightarrow> (Inl (MarshalFailed err), r)
           | Inr text \<Rightarrow>
               (case patch pod (Some text) of
                  Some err \<Rightarrow> (Inl (PatchFailed err), r)
                | None \<Rightarrow> (Inr (Some text), dropPendingRelease (pod_UID pod) container r))))"

definition unpatchAllocatingPod ::
    "decoder \<Rightarrow> encoder \<Rightarrow> api_patch \<Rightarrow> Pod \<Rightarrow> string \<Rightarrow> ContainerAllocation option \<Rightarrow> DevicesReconciler
      \<Rightarrow> (patch_error + string option) \<times> DevicesReconciler" where
  "unpatchAllocatingPod unmarshal marshal patch pod container prior r =
     (case AllocatedAcceleratorsOf unmarshal pod of
        Inl err \<Rightarrow> (Inl (ReadFailed err), r)
      | Inr allocations \<Rightarrow>
          (let allocations = overlay_siblings r pod container (entries allocations);
               allocations = (case prior of
                  Some claim \<Rightarrow> map_put container claim allocations
                | None \<Rightarrow> map_delete container allocations)
           in case (if allocations = [] then Inr None else map_sum (\<lambda>e. e) Some (marshal allocations)) of
                Inl err \<Rightarrow> (Inl (MarshalFailed err), r)
              | Inr text \<Rightarrow>
                  (case patch pod text of
                     Some err \<Rightarrow> (Inl (PatchFailed err), recordPendingRelease (pod_UID pod) container prior r)
                   | None \<Rightarrow> (Inr text, r))))"

text \<open>A strategic merge patch of one annotation: a value replaces it, null removes the key.\<close>

definition annotate :: "Pod \<Rightarrow> string option \<Rightarrow> Pod" where
  "annotate pod text = pod\<lparr>pod_Annotations :=
     (case text of None \<Rightarrow> map_delete AllocatedAcceleratorAnnoKey (pod_Annotations pod)
      | Some t \<Rightarrow> map_put AllocatedAcceleratorAnnoKey t (pod_Annotations pod))\<rparr>"

section \<open>Retrying the compensating writes\<close>

fun retry_keys ::
    "decoder \<Rightarrow> encoder \<Rightarrow> api_patch \<Rightarrow> Pod \<Rightarrow> ReservationKey list \<Rightarrow> ReservationKey list \<Rightarrow> DevicesReconciler
      \<Rightarrow> ReservationKey list \<times> DevicesReconciler" where
  "retry_keys unmarshal marshal patch pod [] pending r = (pending, r)"
| "retry_keys unmarshal marshal patch pod (k # ks) pending r =
     (if rk_PodUID k \<noteq> pod_UID pod then retry_keys unmarshal marshal patch pod ks pending r
      else let pending = removeAll k pending in
        case peekPendingRelease r (rk_PodUID k) (rk_Container k) of
          None \<Rightarrow> retry_keys unmarshal marshal patch pod ks pending r
        | Some prior \<Rightarrow>
            (case unpatchAllocatingPod unmarshal marshal patch pod (rk_Container k) prior r of
               (Inl err, r) \<Rightarrow> (pending, r)
             | (Inr written, r) \<Rightarrow> (pending, dropPendingRelease (rk_PodUID k) (rk_Container k) r)))"

definition retry_pod ::
    "decoder \<Rightarrow> encoder \<Rightarrow> api_patch \<Rightarrow> Pod \<Rightarrow> ReservationKey list \<times> DevicesReconciler
      \<Rightarrow> ReservationKey list \<times> DevicesReconciler" where
  "retry_pod unmarshal marshal patch pod s =
     (case s of (pending, r) \<Rightarrow> retry_keys unmarshal marshal patch pod pending pending r)"

definition retryPendingReleases ::
    "decoder \<Rightarrow> encoder \<Rightarrow> api_patch \<Rightarrow> Pod list \<Rightarrow> string list \<Rightarrow> DevicesReconciler \<Rightarrow> DevicesReconciler" where
  "retryPendingReleases unmarshal marshal patch pods livePodUIDs r =
     (let pending = pendingReleaseKeySet r;
          dead = filter (\<lambda>k. rk_PodUID k \<notin> set livePodUIDs) pending;
          r = fold (\<lambda>k. dropPendingRelease (rk_PodUID k) (rk_Container k)) dead r;
          pending = filter (\<lambda>k. rk_PodUID k \<in> set livePodUIDs) pending
      in snd (fold (retry_pod unmarshal marshal patch) pods (pending, r)))"

section \<open>One reconcile pass\<close>

datatype publish_result = Published | DevicesGone | PublishFailed string

datatype reconcile_error =
    FetchDevices string
  | ListPods string
  | VerifyFailed verify_error
  | StatusFailed string

datatype requeue = NoRequeue | RequeueAfterPendingRelease | RequeueForKubelet

definition publishAcceleratorLedger :: "publish_result \<Rightarrow> string option" where
  "publishAcceleratorLedger res =
     (case res of Published \<Rightarrow> None | DevicesGone \<Rightarrow> None | PublishFailed err \<Rightarrow> Some err)"

definition reconcile_sweep ::
    "decoder \<Rightarrow> encoder \<Rightarrow> api_patch \<Rightarrow> Pod list \<Rightarrow> string list \<Rightarrow> DevicesReconciler \<Rightarrow> DevicesReconciler" where
  "reconcile_sweep unmarshal marshal patch pods livePodUIDs r =
     retryPendingReleases unmarshal marshal patch pods livePodUIDs
       (pruneVisibilityGrants livePodUIDs (pruneReservations livePodUIDs r))"

definition reconcile_finish ::
    "verify_error option \<Rightarrow> string option \<Rightarrow> bool \<Rightarrow> string list \<Rightarrow> DevicesReconciler
      \<Rightarrow> (reconcile_error + requeue) \<times> DevicesReconciler" where
  "reconcile_finish verifyErr statusErr asksKubelet livePodUIDs r =
     (case verifyErr of
        Some err \<Rightarrow> (Inl (VerifyFailed err), r)
      | None \<Rightarrow>
          (case statusErr of
             Some err \<Rightarrow> (Inl (StatusFailed err), r)
           | None \<Rightarrow>
               (let r = notifyListeners (r\<lparr>dr_lastLivePodUIDs := Some livePodUIDs\<rparr>) in
                (Inr (if hasPendingReleases r then RequeueAfterPendingRelease
                      else if asksKubelet then RequeueForKubelet else NoRequeue), r))))"

definition Reconcile ::
    "Knowns \<Rightarrow> decoder \<Rightarrow> encoder \<Rightarrow> bool \<Rightarrow> kubelet_lister \<Rightarrow> api_patch
      \<Rightarrow> (Devices \<Rightarrow> DevicesAllocationGroup list \<Rightarrow> publish_result)
      \<Rightarrow> string + Devices \<Rightarrow> string + Pod list \<Rightarrow> DevicesReconciler
      \<Rightarrow> (reconcile_error + requeue) \<times> DevicesReconciler" where
  "Reconcile kn unmarshal marshal released kubeletPods patch publish getDevices listPods r =
     (case getDevices of
        Inl err \<Rightarrow> (Inl (FetchDevices err), r)
      | Inr devs \<Rightarrow>
          (case listPods of
             Inl err \<Rightarrow> (Inl (ListPods err), r)
           | Inr pods \<Rightarrow>
               (let verifyErr = (case verifyKubeletAllocations kn unmarshal kubeletPods devs pods of
                                   Inl err \<Rightarrow> Some err | Inr _ \<Rightarrow> None);
                    (desiredStatus, livePodUIDs) = BuildDesiredStatus unmarshal released devs pods;
                    statusErr = (if verifyErr = None
                                    \<and> \<not> ledgerGroupsEqual (st_Groups (dv_Status devs)) (st_Groups desiredStatus)
                                 then publishAcceleratorLedger (publish devs (st_Groups desiredStatus)) else None)
                in reconcile_finish verifyErr statusErr (kubeletPods \<noteq> None) livePodUIDs
                     (reconcile_sweep unmarshal marshal patch pods livePodUIDs r))))"

section \<open>Facts about the record of a Pod\<close>

text \<open>What the program relies on of JSON: an encoded record is a non-empty text that decodes to a map
  with the same entries.\<close>

definition json_faithful :: "encoder \<Rightarrow> decoder \<Rightarrow> bool" where
  "json_faithful marshal unmarshal \<longleftrightarrow>
     (\<forall>m text. wf_map m \<longrightarrow> marshal m = Inr text \<longrightarrow>
        text \<noteq> [] \<and> (\<exists>m'. unmarshal text = Inr (Some m') \<and> wf_map m' \<and> map_of m' = map_of m))"

lemma key_eq:
  "k = key u c \<longleftrightarrow> rk_PodUID k = u \<and> rk_Container k = c"
  "key u c = k \<longleftrightarrow> rk_PodUID k = u \<and> rk_Container k = c"
  by (cases k, auto)+

lemma map_of_reservationsFor: "map_of (reservationsFor r u) c = map_of (dr_reservations r) (key u c)"
  unfolding reservationsFor_def
  by (rule list.induct [of _ "dr_reservations r"]) (auto simp: key_eq)

lemma wf_reservationsFor:
  assumes "wf_map (dr_reservations r)"
  shows "wf_map (reservationsFor r u)"
proof -
  have "map fst (map (\<lambda>(k, v). (rk_Container k, v)) (filter (\<lambda>(k, v). rk_PodUID k = u) m))
      = map rk_Container (filter (\<lambda>k. rk_PodUID k = u) (map fst m))" for m :: "(ReservationKey, Reservation) gomap"
    by (induction m) auto
  moreover have "inj_on rk_Container (set (filter (\<lambda>k. rk_PodUID k = u) ks))" for ks :: "ReservationKey list"
    by (auto intro!: inj_onI ReservationKey.equality)
  ultimately show ?thesis
    using assms unfolding wf_map_def reservationsFor_def by (simp add: distinct_map del: set_filter)
qed

lemma map_of_fold_put:
  "wf_map m \<Longrightarrow> map_of (fold (\<lambda>(n, v) acc. if n = c then acc else map_put n (f v) acc) m acc) name
     = (if name = c then map_of acc name
        else case map_of m name of Some v \<Rightarrow> Some (f v) | None \<Rightarrow> map_of acc name)"
proof (induction m arbitrary: acc)
  case (Cons e m)
  obtain n v where e: "e = (n, v)" by (cases e)
  have "map_of m n = None" using Cons.prems by (auto simp: wf_map_def e map_of_eq_None_iff)
  moreover have "wf_map m" using Cons.prems by (simp add: wf_map_def)
  note Cons.IH [OF this, of "if n = c then acc else map_put n (f v) acc"]
  ultimately show ?case by (simp add: e split: option.split)
qed simp

lemma wf_fold_put:
  "wf_map acc \<Longrightarrow> wf_map (fold (\<lambda>(n, v) acc. if n = c then acc else map_put n (f v) acc) m acc)"
  by (rule fold_preserves [where P = wf_map]) (simp_all add: wf_put split: prod.split)

lemma overlay_lookup:
  assumes "wf_map (dr_reservations r)"
  shows "map_of (overlay_siblings r pod c allocations) name =
     (if name = c then map_of allocations name
      else case map_of (dr_reservations r) (key (pod_UID pod) name) of
        Some v \<Rightarrow> Some (reservation_record v) | None \<Rightarrow> map_of allocations name)"
  unfolding overlay_siblings_def map_of_fold_put [OF wf_reservationsFor [OF assms]] map_of_reservationsFor ..

lemma wf_overlay: "wf_map allocations \<Longrightarrow> wf_map (overlay_siblings r pod c allocations)"
  unfolding overlay_siblings_def by (rule wf_fold_put)

text \<open>What the annotation of a Pod says of one container.\<close>

definition recorded :: "decoder \<Rightarrow> Pod \<Rightarrow> string \<Rightarrow> ContainerAllocation option" where
  "recorded unmarshal pod name =
     (case AllocatedAcceleratorsOf unmarshal pod of
        Inl _ \<Rightarrow> None | Inr allocations \<Rightarrow> map_of (entries allocations) name)"

text \<open>A Pod whose annotation is missing or decodes to a map.\<close>

definition readable :: "decoder \<Rightarrow> Pod \<Rightarrow> bool" where
  "readable unmarshal pod \<longleftrightarrow>
     (\<exists>allocations. AllocatedAcceleratorsOf unmarshal pod = Inr allocations \<and> wf_map (entries allocations))"

definition expected_entry ::
    "DevicesReconciler \<Rightarrow> decoder \<Rightarrow> Pod \<Rightarrow> string \<Rightarrow> ContainerAllocation option \<Rightarrow> string \<Rightarrow> ContainerAllocation option" where
  "expected_entry r unmarshal pod c own name =
     (if name = c then own
      else case map_of (dr_reservations r) (key (pod_UID pod) name) of
        Some v \<Rightarrow> Some (reservation_record v) | None \<Rightarrow> recorded unmarshal pod name)"

lemma recorded_annotate:
  assumes "json_faithful marshal unmarshal" and "marshal m = Inr text" and "wf_map m"
  shows "recorded unmarshal (annotate pod (Some text)) = map_of m" and "readable unmarshal (annotate pod (Some text))"
proof -
  obtain m' where m': "text \<noteq> []" "unmarshal text = Inr (Some m')" "wf_map m'" "map_of m' = map_of m"
    using assms unfolding json_faithful_def by blast
  then have "AllocatedAcceleratorsOf unmarshal (annotate pod (Some text)) = Inr (Some m')"
    by (simp add: AllocatedAcceleratorsOf_def annotate_def)
  with m' show "recorded unmarshal (annotate pod (Some text)) = map_of m" "readable unmarshal (annotate pod (Some text))"
    by (auto simp: recorded_def readable_def entries_def)
qed

lemma recorded_remove: "recorded unmarshal (annotate pod None) name = None" "readable unmarshal (annotate pod None)"
  by (simp_all add: recorded_def readable_def AllocatedAcceleratorsOf_def annotate_def map_get_def entries_def wf_map_def)

lemma patch_result:
  assumes "json_faithful marshal unmarshal" and "readable unmarshal pod" and "wf_map (dr_reservations r)"
    and "patchAllocatingPod unmarshal marshal patch pod c status deviceIDs r = (Inr written, r')"
  shows "recorded unmarshal (annotate pod written) name
      = expected_entry r unmarshal pod c (Some \<lparr>ca_Devices = status, ca_DeviceIDs = deviceIDs\<rparr>) name"
    and "readable unmarshal (annotate pod written)" and "patch pod written = None"
    and "r' = dropPendingRelease (pod_UID pod) c r"
proof -
  obtain allocations where read: "AllocatedAcceleratorsOf unmarshal pod = Inr allocations" "wf_map (entries allocations)"
    using assms(2) by (auto simp: readable_def)
  let ?m = "map_put c \<lparr>ca_Devices = status, ca_DeviceIDs = deviceIDs\<rparr> (overlay_siblings r pod c (entries allocations))"
  obtain t where t: "marshal ?m = Inr t" and rest: "patch pod (Some t) = None" "written = Some t"
    "r' = dropPendingRelease (pod_UID pod) c r"
    using assms(4) read by (auto simp: patchAllocatingPod_def split: sum.splits option.splits)
  have "wf_map ?m" using read(2) by (intro wf_put wf_overlay)
  note annotated = recorded_annotate [OF assms(1) t this]
  show "recorded unmarshal (annotate pod written) name
      = expected_entry r unmarshal pod c (Some \<lparr>ca_Devices = status, ca_DeviceIDs = deviceIDs\<rparr>) name"
    using annotated(1) read(1) rest
    by (auto simp: overlay_lookup [OF assms(3)] expected_entry_def recorded_def split: option.split)
  show "readable unmarshal (annotate pod written)" "patch pod written = None"
    "r' = dropPendingRelease (pod_UID pod) c r" using annotated(2) rest by simp_all
qed

lemma unpatch_result:
  assumes "json_faithful marshal unmarshal" and "readable unmarshal pod" and "wf_map (dr_reservations r)"
    and "unpatchAllocatingPod unmarshal marshal patch pod c prior r = (Inr written, r')"
  shows "recorded unmarshal (annotate pod written) name = expected_entry r unmarshal pod c prior name"
    and "readable unmarshal (annotate pod written)" and "r' = r"
    and "written = None \<longleftrightarrow> (\<forall>name. expected_entry r unmarshal pod c prior name = None)"
proof -
  obtain allocations where read: "AllocatedAcceleratorsOf unmarshal pod = Inr allocations" "wf_map (entries allocations)"
    using assms(2) by (auto simp: readable_def)
  let ?o = "overlay_siblings r pod c (entries allocations)"
  define m where "m = (case prior of Some claim \<Rightarrow> map_put c claim ?o | None \<Rightarrow> map_delete c ?o)"
  have wf: "wf_map m" using read(2) by (auto simp: m_def wf_overlay split: option.split)
  have m: "map_of m name = expected_entry r unmarshal pod c prior name" for name
    using read(1) by (auto simp: m_def overlay_lookup [OF assms(3)] expected_entry_def recorded_def split: option.split)
  have empty: "m = [] \<longleftrightarrow> (\<forall>name. expected_entry r unmarshal pod c prior name = None)"
    using m by (cases m) (auto simp flip: m)
  have "unpatchAllocatingPod unmarshal marshal patch pod c prior r =
     (case (if m = [] then Inr None else map_sum (\<lambda>e. e) Some (marshal m)) of
        Inl err \<Rightarrow> (Inl (MarshalFailed err), r)
      | Inr text \<Rightarrow> (case patch pod text of
           Some err \<Rightarrow> (Inl (PatchFailed err), recordPendingRelease (pod_UID pod) c prior r)
         | None \<Rightarrow> (Inr text, r)))"
    by (simp add: unpatchAllocatingPod_def read(1) Let_def m_def)
  with assms(4) consider "m = []" "written = None" "r' = r"
    | t where "m \<noteq> []" "marshal m = Inr t" "written = Some t" "r' = r"
    by (cases "marshal m") (auto split: option.splits if_splits)
  then show "recorded unmarshal (annotate pod written) name = expected_entry r unmarshal pod c prior name"
    "readable unmarshal (annotate pod written)" "r' = r"
    "written = None \<longleftrightarrow> (\<forall>name. expected_entry r unmarshal pod c prior name = None)"
    using m empty recorded_remove recorded_annotate [OF assms(1) _ wf] by (cases, simp, simp)+
qed

text \<open>An accepted allocation write leaves the Pod's annotation recording the new allocation for
  its container, every sibling container as the in-memory reservation has it or else as the annotation
  had it, and drops exactly the compensating write it supersedes.\<close>

theorem patch_keeps_siblings:
  assumes "json_faithful marshal unmarshal" and "readable unmarshal pod" and "wf_map (dr_reservations r)"
    and "patchAllocatingPod unmarshal marshal patch pod c status deviceIDs r = (Inr written, r')"
  shows "recorded unmarshal (annotate pod written) name =
      (if name = c then Some \<lparr>ca_Devices = status, ca_DeviceIDs = deviceIDs\<rparr>
       else case map_of (dr_reservations r) (key (pod_UID pod) name) of
         Some v \<Rightarrow> Some \<lparr>ca_Devices = rv_Allocated v, ca_DeviceIDs = rv_DeviceIDs v\<rparr>
       | None \<Rightarrow> recorded unmarshal pod name)
    \<and> dr_reservations r' = dr_reservations r
    \<and> map_of (dr_pendingReleases r') = (map_of (dr_pendingReleases r))(key (pod_UID pod) c := None)"
  using patch_result [OF assms]
  by (simp add: expected_entry_def reservation_record_def dropPendingRelease_def split: option.split)


section \<open>Facts about the compensating writes\<close>

lemma fold_pods_absorbs:
  "\<exists>fs' :: FoldState. fold_pods unmarshal released absorbFoldFailure (pod # pods) fs
       = fold_pods unmarshal released absorbFoldFailure pods fs' \<and> fs_Live fs' = fs_Live fs @ [pod_UID pod]"
  by (auto simp: absorbFoldFailure_def Let_def split: sum.split prod.split option.split)

lemma fold_pods_live:
  "\<exists>fs'. fold_pods unmarshal released absorbFoldFailure pods fs = Inr fs' \<and> fs_Live fs' = fs_Live fs @ map pod_UID pods"
proof (induction pods arbitrary: fs)
  case (Cons pod pods)
  obtain fs1 :: FoldState where step: "fold_pods unmarshal released absorbFoldFailure (pod # pods) fs
       = fold_pods unmarshal released absorbFoldFailure pods fs1" "fs_Live fs1 = fs_Live fs @ [pod_UID pod]"
    using fold_pods_absorbs by blast
  obtain fs2 where "fold_pods unmarshal released absorbFoldFailure pods fs1 = Inr fs2"
    "fs_Live fs2 = fs_Live fs1 @ map pod_UID pods" using Cons by blast
  then show ?case unfolding step(1) using step(2) by simp
qed simp

lemma BuildDesiredStatus_live: "snd (BuildDesiredStatus unmarshal released devs pods) = map pod_UID pods"
  using fold_pods_live [of unmarshal released pods
      "\<lparr>fs_Status = initDesiredStatus devs, fs_Physical = ([], []), fs_Live = []\<rparr>"]
  by (auto simp: BuildDesiredStatus_def mergePodAllocations_def foldPodAllocations_def)

lemma length_map_put: "k \<in> fst ` set m \<Longrightarrow> length (map_put k v m) = length m"
  by (induction k v m rule: map_put.induct) auto

lemma length_map_delete: "k \<in> fst ` set m \<Longrightarrow> length (map_delete k m) < length m"
  unfolding map_delete_def by (auto intro: length_filter_less)

lemma length_map_delete_le: "length (map_delete k m) \<le> length m"
  by (simp add: map_delete_def)

text \<open>Everything but the compensating writes and their wake-up.\<close>

definition same_claims :: "DevicesReconciler \<Rightarrow> DevicesReconciler \<Rightarrow> bool" where
  "same_claims r r' \<longleftrightarrow> dr_reservations r' = dr_reservations r \<and> dr_visibilityGrants r' = dr_visibilityGrants r
     \<and> dr_notifiers r' = dr_notifiers r \<and> dr_lastLivePodUIDs r' = dr_lastLivePodUIDs r
     \<and> dr_nextChannel r' = dr_nextChannel r \<and> dr_slicedAllocateGateOff r' = dr_slicedAllocateGateOff r"

text \<open>A step that only retries: no key is added, no wake-up sent, the table stays a map.\<close>

definition retries :: "DevicesReconciler \<Rightarrow> DevicesReconciler \<Rightarrow> bool" where
  "retries r r' \<longleftrightarrow> same_claims r r' \<and> dr_pendingReleaseEvents r' = dr_pendingReleaseEvents r
     \<and> fst ` set (dr_pendingReleases r') \<subseteq> fst ` set (dr_pendingReleases r)
     \<and> length (dr_pendingReleases r') \<le> length (dr_pendingReleases r)
     \<and> (wf_map (dr_pendingReleases r) \<longrightarrow> wf_map (dr_pendingReleases r'))"

lemma retries_refl: "retries r r"
  by (simp add: retries_def same_claims_def)

lemma retries_trans:
  assumes "retries r1 r2" and "retries r2 r3"
  shows "retries r1 r3"
proof -
  have "same_claims r1 r3" "dr_pendingReleaseEvents r3 = dr_pendingReleaseEvents r1"
    "wf_map (dr_pendingReleases r1) \<longrightarrow> wf_map (dr_pendingReleases r3)"
    using assms by (simp_all add: retries_def same_claims_def)
  moreover have "fst ` set (dr_pendingReleases r3) \<subseteq> fst ` set (dr_pendingReleases r1)"
    by (rule subset_trans [of _ "fst ` set (dr_pendingReleases r2)"]) (use assms in \<open>simp_all only: retries_def\<close>)
  moreover have "length (dr_pendingReleases r3) \<le> length (dr_pendingReleases r1)"
    by (rule le_trans [of _ "length (dr_pendingReleases r2)"]) (use assms in \<open>simp_all only: retries_def\<close>)
  ultimately show ?thesis by (simp only: retries_def)
qed

lemma drop_retries: "retries r (dropPendingRelease u c r)"
  by (auto simp: retries_def same_claims_def dropPendingRelease_def map_delete_def wf_map_filter)

lemma record_retries:
  assumes "key u c \<in> fst ` set (dr_pendingReleases r)"
  shows "retries r (recordPendingRelease u c prior r)"
proof -
  have "dr_pendingReleases r \<noteq> []" using assms by auto
  then show ?thesis
    using assms by (auto simp: retries_def same_claims_def recordPendingRelease_def Let_def keys_put length_map_put)
qed

lemma unpatch_retries:
  assumes "key (pod_UID pod) c \<in> fst ` set (dr_pendingReleases r)"
    and "unpatchAllocatingPod unmarshal marshal patch pod c prior r = (res, r')"
  shows "retries r r'"
proof -
  have "r' = r \<or> r' = recordPendingRelease (pod_UID pod) c prior r"
    using assms(2) by (auto simp: unpatchAllocatingPod_def Let_def split: sum.splits option.splits)
  then show ?thesis using record_retries [OF assms(1)] retries_refl by auto
qed

lemma retry_keys_retries: "retries r (snd (retry_keys unmarshal marshal patch pod ks pending r))"
proof (induction unmarshal marshal patch pod ks pending r rule: retry_keys.induct)
  case (2 unmarshal marshal patch pod k ks pending r)
  show ?case
  proof (cases "rk_PodUID k = pod_UID pod \<and> peekPendingRelease r (rk_PodUID k) (rk_Container k) \<noteq> None")
    case True
    then obtain prior where peek: "map_of (dr_pendingReleases r) (key (rk_PodUID k) (rk_Container k)) = Some prior"
      by (auto simp: peekPendingRelease_def)
    then have mem: "key (pod_UID pod) (rk_Container k) \<in> fst ` set (dr_pendingReleases r)"
      using True map_of_SomeD [OF peek] by force
    obtain res r' where un: "unpatchAllocatingPod unmarshal marshal patch pod (rk_Container k) prior r = (res, r')"
      by fastforce
    from unpatch_retries [OF mem un] un peek True retries_trans [OF _ drop_retries] show ?thesis
      by (auto simp: peekPendingRelease_def Let_def split: sum.split)
  next
    case False
    with 2 show ?thesis by (auto simp: Let_def split: option.splits)
  qed
qed (simp add: retries_refl)

lemma retryPendingReleases_retries:
  "retries r (retryPendingReleases unmarshal marshal patch pods live r)"
proof -
  have "retries r (fold (\<lambda>k. dropPendingRelease (rk_PodUID k) (rk_Container k)) ks r)" for ks
    by (rule fold_preserves) (use retries_trans drop_retries retries_refl in blast)+
  moreover have "retries r0 (snd (fold (retry_pod unmarshal marshal patch) pods (pending, r0)))" for pending r0
    by (rule fold_preserves [where P = "\<lambda>s. retries r0 (snd s)"])
      (use retries_trans retry_keys_retries retries_refl in \<open>fastforce simp: retry_pod_def split: prod.split\<close>)+
  ultimately show ?thesis
    unfolding retryPendingReleases_def Let_def using retries_trans by blast
qed

text \<open>A pass in which nothing stands in the way of the writes: every record of the listed Pods can be
  read, encoding works, and the API server accepts what is sent.\<close>

definition accepting :: "decoder \<Rightarrow> encoder \<Rightarrow> api_patch \<Rightarrow> Pod list \<Rightarrow> bool" where
  "accepting unmarshal marshal patch pods \<longleftrightarrow> (\<forall>m. \<exists>text. marshal m = Inr text)
     \<and> (\<forall>pod \<in> set pods. (\<exists>a. AllocatedAcceleratorsOf unmarshal pod = Inr a) \<and> (\<forall>text. patch pod text = None))"

lemma unpatch_accepted:
  assumes "accepting unmarshal marshal patch [pod]"
  obtains written where "unpatchAllocatingPod unmarshal marshal patch pod c prior r = (Inr written, r)"
proof -
  obtain a where a: "AllocatedAcceleratorsOf unmarshal pod = Inr a" using assms by (auto simp: accepting_def)
  define m where "m = (case prior of Some claim \<Rightarrow> map_put c claim (overlay_siblings r pod c (entries a))
     | None \<Rightarrow> map_delete c (overlay_siblings r pod c (entries a)))"
  obtain x where x: "marshal m = Inr x" using assms by (auto simp: accepting_def)
  define t where "t = (if m = [] then None else Some x)"
  have "(if m = [] then Inr None else map_sum (\<lambda>e. e) Some (marshal m)) = (Inr t :: string + string option)"
    by (simp add: x t_def)
  moreover have "patch pod t = None" using assms by (simp add: accepting_def)
  ultimately have "unpatchAllocatingPod unmarshal marshal patch pod c prior r = (Inr t, r)"
    unfolding unpatchAllocatingPod_def Let_def a sum.case m_def [symmetric] by (simp only: sum.case option.case)
  then show thesis by (rule that)
qed

lemma retry_keys_drops:
  assumes "accepting unmarshal marshal patch [pod]"
    and "\<exists>k \<in> set ks. rk_PodUID k = pod_UID pod \<and> k \<in> fst ` set (dr_pendingReleases r)"
  shows "length (dr_pendingReleases (snd (retry_keys unmarshal marshal patch pod ks pending r)))
     < length (dr_pendingReleases r)"
  using assms(2)
proof (induction ks arbitrary: pending)
  case (Cons k ks)
  show ?case
  proof (cases "rk_PodUID k = pod_UID pod \<and> k \<in> fst ` set (dr_pendingReleases r)")
    case True
    then obtain prior where prior: "map_of (dr_pendingReleases r) k = Some prior"
      by (metis map_of_eq_None_iff option.exhaust)
    obtain c where k: "k = key (pod_UID pod) c" using True by (metis key_eq(1))
    obtain written where "unpatchAllocatingPod unmarshal marshal patch pod c prior r = (Inr written, r)"
      using unpatch_accepted [OF assms(1)] by blast
    then show ?thesis
      using prior True length_map_delete [of k "dr_pendingReleases r"]
      by (simp add: k peekPendingRelease_def dropPendingRelease_def Let_def)
  next
    case False
    then have "rk_PodUID k \<noteq> pod_UID pod \<or> peekPendingRelease r (rk_PodUID k) (rk_Container k) = None"
      by (cases k) (simp add: peekPendingRelease_def map_of_eq_None_iff)
    moreover have "\<exists>k \<in> set ks. rk_PodUID k = pod_UID pod \<and> k \<in> fst ` set (dr_pendingReleases r)"
      using Cons.prems False by auto
    ultimately show ?thesis using Cons.IH by (auto simp: Let_def)
  qed
qed simp

lemma retry_keys_skip:
  "\<forall>k \<in> set ks. rk_PodUID k \<noteq> pod_UID pod \<Longrightarrow> retry_keys unmarshal marshal patch pod ks pending r = (pending, r)"
  by (induction ks) auto

lemma retry_pods_drop:
  assumes "accepting unmarshal marshal patch pods" and "set pending \<subseteq> fst ` set (dr_pendingReleases r)"
    and "\<exists>k \<in> set pending. rk_PodUID k \<in> pod_UID ` set pods"
  shows "length (dr_pendingReleases (snd (fold (retry_pod unmarshal marshal patch) pods (pending, r))))
     < length (dr_pendingReleases r)"
  using assms
proof (induction pods)
  case (Cons pod pods)
  have acc: "accepting unmarshal marshal patch [pod]" "accepting unmarshal marshal patch pods"
    using Cons.prems(1) by (simp_all add: accepting_def)
  show ?case
  proof (cases "\<exists>k \<in> set pending. rk_PodUID k = pod_UID pod")
    case True
    obtain pending' r' where step: "retry_keys unmarshal marshal patch pod pending pending r = (pending', r')" by fastforce
    have "\<exists>k \<in> set pending. rk_PodUID k = pod_UID pod \<and> k \<in> fst ` set (dr_pendingReleases r)"
      using True Cons.prems(2) by blast
    from retry_keys_drops [OF acc(1) this, of pending] step
    have "length (dr_pendingReleases r') < length (dr_pendingReleases r)" by simp
    moreover have "retries r' (snd (fold (retry_pod unmarshal marshal patch) pods (pending', r')))"
      by (rule fold_preserves [where P = "\<lambda>s. retries r' (snd s)"])
        (use retries_trans retry_keys_retries retries_refl in \<open>fastforce simp: retry_pod_def split: prod.split\<close>)+
    moreover have "retry_pod unmarshal marshal patch pod (pending, r) = (pending', r')"
      by (simp add: retry_pod_def step)
    ultimately show ?thesis by (simp add: retries_def)
  next
    case False
    then have "retry_pod unmarshal marshal patch pod (pending, r) = (pending, r)"
      by (simp add: retry_pod_def retry_keys_skip)
    moreover have "\<exists>k \<in> set pending. rk_PodUID k \<in> pod_UID ` set pods" using Cons.prems(3) False by auto
    ultimately show ?thesis using Cons.IH [OF acc(2) Cons.prems(2)] by simp
  qed
qed simp

lemma retry_pass_drops:
  assumes "accepting unmarshal marshal patch pods" and "dr_pendingReleases r \<noteq> []"
  shows "length (dr_pendingReleases (retryPendingReleases unmarshal marshal patch pods (map pod_UID pods) r))
     < length (dr_pendingReleases r)"
proof -
  let ?keys = "map fst (dr_pendingReleases r)" and ?live = "pod_UID ` set pods"
  let ?drop = "\<lambda>k. dropPendingRelease (rk_PodUID k) (rk_Container k)"
  define dead where "dead = filter (\<lambda>k. rk_PodUID k \<notin> ?live) ?keys"
  have eq: "retryPendingReleases unmarshal marshal patch pods (map pod_UID pods) r =
     snd (fold (retry_pod unmarshal marshal patch) pods
       (filter (\<lambda>k. rk_PodUID k \<in> ?live) ?keys, fold ?drop dead r))"
    by (simp add: retryPendingReleases_def Let_def pendingReleaseKeySet_def dead_def)
  have pods: "retries r0 (snd (fold (retry_pod unmarshal marshal patch) pods (pending, r0)))" for pending r0
    by (rule fold_preserves [where P = "\<lambda>s. retries r0 (snd s)"])
      (use retries_trans retry_keys_retries retries_refl in \<open>fastforce simp: retry_pod_def split: prod.split\<close>)+
  show ?thesis
  proof (cases dead)
    case (Cons k ks)
    have "k \<in> set dead" by (simp add: Cons)
    then have "k \<in> fst ` set (dr_pendingReleases r)" by (simp add: dead_def)
    then have "length (dr_pendingReleases (?drop k r)) < length (dr_pendingReleases r)"
      by (cases k) (simp add: dropPendingRelease_def length_map_delete)
    moreover have "retries (?drop k r) (fold ?drop ks (?drop k r))"
      by (rule fold_preserves) (use retries_trans drop_retries retries_refl in blast)+
    moreover note pods [of "fold ?drop ks (?drop k r)" "filter (\<lambda>k. rk_PodUID k \<in> ?live) ?keys"]
    ultimately show ?thesis unfolding eq Cons fold_simps retries_def by linarith
  next
    case Nil
    then have all: "filter (\<lambda>k. rk_PodUID k \<in> ?live) ?keys = ?keys"
      by (auto simp: dead_def filter_empty_conv filter_id_conv)
    obtain k where k: "k \<in> set ?keys" using assms(2) by (cases "dr_pendingReleases r") auto
    then have "\<exists>k \<in> set ?keys. rk_PodUID k \<in> ?live" using all by (auto simp: filter_id_conv)
    from retry_pods_drop [OF assms(1) _ this] show ?thesis unfolding eq Nil all by simp
  qed
qed

text \<open>The inputs of one reconcile pass that reads its objects.\<close>

record ReconcileInput =
  ri_kubelet :: kubelet_lister
  ri_patch :: api_patch
  ri_publish :: "Devices \<Rightarrow> DevicesAllocationGroup list \<Rightarrow> publish_result"
  ri_devices :: Devices
  ri_pods :: "Pod list"

definition reconcile_pass ::
    "Knowns \<Rightarrow> decoder \<Rightarrow> encoder \<Rightarrow> bool \<Rightarrow> ReconcileInput \<Rightarrow> DevicesReconciler
      \<Rightarrow> (reconcile_error + requeue) \<times> DevicesReconciler" where
  "reconcile_pass kn unmarshal marshal released i r =
     Reconcile kn unmarshal marshal released (ri_kubelet i) (ri_patch i) (ri_publish i)
       (Inr (ri_devices i)) (Inr (ri_pods i)) r"

lemma notify_same [simp]:
  "dr_pendingReleases (notifyListeners r) = dr_pendingReleases r"
  "dr_reservations (notifyListeners r) = dr_reservations r"
  "dr_visibilityGrants (notifyListeners r) = dr_visibilityGrants r"
  "dr_pendingReleaseEvents (notifyListeners r) = dr_pendingReleaseEvents r"
  "dr_slicedAllocateGateOff (notifyListeners r) = dr_slicedAllocateGateOff r"
  by (simp_all add: notifyListeners_def split: option.split)

lemma finish_same:
  assumes "reconcile_finish verifyErr statusErr asksKubelet live r = (res, r')"
  shows "dr_pendingReleases r' = dr_pendingReleases r" "dr_reservations r' = dr_reservations r"
    "dr_visibilityGrants r' = dr_visibilityGrants r" "dr_pendingReleaseEvents r' = dr_pendingReleaseEvents r"
    "hasPendingReleases r' \<Longrightarrow> isl res \<or> res = Inr RequeueAfterPendingRelease"
  using assms by (auto simp: reconcile_finish_def hasPendingReleases_def Let_def split: option.splits if_splits)

lemma reconcile_pass_parts:
  obtains verifyErr statusErr where "reconcile_pass kn unmarshal marshal released i r =
    reconcile_finish verifyErr statusErr (ri_kubelet i \<noteq> None) (map pod_UID (ri_pods i))
      (reconcile_sweep unmarshal marshal (ri_patch i) (ri_pods i) (map pod_UID (ri_pods i)) r)"
  using BuildDesiredStatus_live [of unmarshal released "ri_devices i" "ri_pods i"] that
  unfolding reconcile_pass_def Reconcile_def Let_def sum.case
  by (cases "BuildDesiredStatus unmarshal released (ri_devices i) (ri_pods i)") auto

lemma reconcile_pass_pending:
  "dr_pendingReleases (snd (reconcile_pass kn unmarshal marshal released i r)) =
     dr_pendingReleases (retryPendingReleases unmarshal marshal (ri_patch i) (ri_pods i) (map pod_UID (ri_pods i))
       (pruneVisibilityGrants (map pod_UID (ri_pods i)) (pruneReservations (map pod_UID (ri_pods i)) r)))"
  by (rule reconcile_pass_parts [of kn unmarshal marshal released i r])
    (metis finish_same(1) prod.collapse reconcile_sweep_def)

text \<open>C26: Compensating writes land: with any number of them outstanding, that many reconcile passes in
  which the API server accepts writes and the listed Pods' records can be read leave none, whatever
  kubelet's records say, whether or not the ledger can be published, and whichever Pods have gone
  meanwhile.\<close>

theorem pending_releases_drain:
  assumes "\<forall>i \<in> set passes. accepting unmarshal marshal (ri_patch i) (ri_pods i)"
    and "length (dr_pendingReleases r) \<le> length passes"
  shows "\<not> hasPendingReleases (fold (\<lambda>i r. snd (reconcile_pass kn unmarshal marshal released i r)) passes r)"
  using assms
proof (induction passes arbitrary: r)
  case (Cons i passes)
  let ?live = "map pod_UID (ri_pods i)"
  let ?r = "pruneVisibilityGrants ?live (pruneReservations ?live r)"
  have same: "dr_pendingReleases ?r = dr_pendingReleases r"
    by (simp add: pruneVisibilityGrants_def pruneReservations_def)
  have acc: "accepting unmarshal marshal (ri_patch i) (ri_pods i)" using Cons.prems(1) by simp
  have "length (dr_pendingReleases (snd (reconcile_pass kn unmarshal marshal released i r))) \<le> length passes"
  proof (cases "dr_pendingReleases r = []")
    case True
    then show ?thesis
      using retryPendingReleases_retries [of ?r unmarshal marshal "ri_patch i" "ri_pods i" ?live]
      by (simp add: reconcile_pass_pending retries_def same)
  next
    case False
    then show ?thesis
      using retry_pass_drops [OF acc, of ?r] Cons.prems(2) by (simp add: reconcile_pass_pending same)
  qed
  with Cons show ?case by simp
qed (simp add: hasPendingReleases_def)

lemma dropped_keys:
  "dr_pendingReleases (fold (\<lambda>k. dropPendingRelease (rk_PodUID k) (rk_Container k)) ks r)
     = filter (\<lambda>e. fst e \<notin> set ks) (dr_pendingReleases r)"
proof (induction ks arbitrary: r)
  case (Cons k ks)
  show ?case unfolding fold_simps Cons
    by (cases k) (auto simp: dropPendingRelease_def map_delete_def intro: filter_cong)
qed simp

lemma retry_keeps_live:
  "rk_PodUID ` fst ` set (dr_pendingReleases (retryPendingReleases unmarshal marshal patch pods live r)) \<subseteq> set live"
proof -
  define r1 where "r1 = fold (\<lambda>k. dropPendingRelease (rk_PodUID k) (rk_Container k))
      (filter (\<lambda>k. rk_PodUID k \<notin> set live) (pendingReleaseKeySet r)) r"
  define pending where "pending = filter (\<lambda>k. rk_PodUID k \<in> set live) (pendingReleaseKeySet r)"
  have "rk_PodUID ` fst ` set (dr_pendingReleases r1) \<subseteq> set live"
    by (auto simp: r1_def dropped_keys pendingReleaseKeySet_def)
  moreover have "retries r1 (snd (fold (retry_pod unmarshal marshal patch) pods (pending, r1)))"
    by (rule fold_preserves [where P = "\<lambda>s. retries r1 (snd s)"])
      (use retries_trans retry_keys_retries retries_refl in \<open>fastforce simp: retry_pod_def split: prod.split\<close>)+
  then have "fst ` set (dr_pendingReleases (snd (fold (retry_pod unmarshal marshal patch) pods (pending, r1))))
      \<subseteq> fst ` set (dr_pendingReleases r1)" by (simp add: retries_def)
  ultimately show ?thesis
    unfolding retryPendingReleases_def Let_def r1_def [symmetric] pending_def [symmetric] by blast
qed

text \<open>No in-memory claim outlives its Pod: after a pass that could read its objects, every
  reservation, visibility grant and compensating write belongs to a Pod that was listed, and the claims
  of listed Pods are kept as they were.\<close>

theorem reconcile_prunes:
  "let r' = snd (reconcile_pass kn unmarshal marshal released i r) in
   rk_PodUID ` (fst ` set (dr_reservations r') \<union> set (dr_visibilityGrants r') \<union> fst ` set (dr_pendingReleases r'))
     \<subseteq> pod_UID ` set (ri_pods i)
   \<and> dr_reservations r' = filter (\<lambda>(k, v). rk_PodUID k \<in> pod_UID ` set (ri_pods i)) (dr_reservations r)
   \<and> dr_visibilityGrants r' = filter (\<lambda>k. rk_PodUID k \<in> pod_UID ` set (ri_pods i)) (dr_visibilityGrants r)"
proof -
  let ?live = "map pod_UID (ri_pods i)" and ?r' = "snd (reconcile_pass kn unmarshal marshal released i r)"
  let ?r = "pruneVisibilityGrants ?live (pruneReservations ?live r)"
  obtain verifyErr statusErr where "reconcile_pass kn unmarshal marshal released i r =
      reconcile_finish verifyErr statusErr (ri_kubelet i \<noteq> None) ?live
        (reconcile_sweep unmarshal marshal (ri_patch i) (ri_pods i) ?live r)" by (rule reconcile_pass_parts)
  then have "reconcile_finish verifyErr statusErr (ri_kubelet i \<noteq> None) ?live
      (reconcile_sweep unmarshal marshal (ri_patch i) (ri_pods i) ?live r)
      = (fst (reconcile_pass kn unmarshal marshal released i r), ?r')" by simp
  note same = finish_same [OF this]
  have "same_claims ?r (reconcile_sweep unmarshal marshal (ri_patch i) (ri_pods i) ?live r)"
    unfolding reconcile_sweep_def using retryPendingReleases_retries by (auto simp: retries_def)
  then have kept: "dr_reservations ?r' = dr_reservations ?r" "dr_visibilityGrants ?r' = dr_visibilityGrants ?r"
    by (simp_all add: same same_claims_def)
  have "rk_PodUID ` fst ` set (dr_pendingReleases ?r') \<subseteq> set ?live"
    unfolding same(1) reconcile_sweep_def by (rule retry_keeps_live)
  with kept show ?thesis
    by (auto simp: Let_def pruneVisibilityGrants_def pruneReservations_def)
qed

section \<open>The reconciler under interleaving\<close>

text \<open>The reconciler together with the work queue that runs it: whether a request is waiting (queued,
  or armed by a requeue or an error) and whether a pass is running. Allocations, compensations and the
  parts of a pass interleave in any order; each API write may be accepted or refused.\<close>

record Runtime =
  rn_r :: DevicesReconciler
  rn_queued :: bool
  rn_running :: bool

inductive runtime_step :: "decoder \<Rightarrow> encoder \<Rightarrow> Runtime \<Rightarrow> Runtime \<Rightarrow> bool" for unmarshal marshal where
  reserve: "runtime_step unmarshal marshal s (s\<lparr>rn_r := reserveDevices u c status deviceIDs (rn_r s)\<rparr>)"
| release: "runtime_step unmarshal marshal s (s\<lparr>rn_r := releaseReservation u c (rn_r s)\<rparr>)"
| grant: "runtime_step unmarshal marshal s (s\<lparr>rn_r := grantVisibility u c (rn_r s)\<rparr>)"
| revoke: "runtime_step unmarshal marshal s (s\<lparr>rn_r := revokeVisibility u c (rn_r s)\<rparr>)"
| patch: "patchAllocatingPod unmarshal marshal patch pod c status deviceIDs (rn_r s) = (res, r') \<Longrightarrow>
    runtime_step unmarshal marshal s (s\<lparr>rn_r := r'\<rparr>)"
| unpatch: "unpatchAllocatingPod unmarshal marshal patch pod c prior (rn_r s) = (res, r') \<Longrightarrow>
    runtime_step unmarshal marshal s (s\<lparr>rn_r := r'\<rparr>)"
| subscribe: "runtime_step unmarshal marshal s (s\<lparr>rn_r := snd (getReconcileNotifier m mode (rn_r s))\<rparr>)"
| unsubscribe: "runtime_step unmarshal marshal s (s\<lparr>rn_r := dropReconcileNotifier ch (rn_r s)\<rparr>)"
| watch: "runtime_step unmarshal marshal s (s\<lparr>rn_queued := True\<rparr>)"
| wake: "dr_pendingReleaseEvents (rn_r s) = Some (Suc n) \<Longrightarrow>
    runtime_step unmarshal marshal s
      (s\<lparr>rn_r := (rn_r s)\<lparr>dr_pendingReleaseEvents := Some n\<rparr>, rn_queued := True\<rparr>)"
| start: "rn_queued s \<Longrightarrow> \<not> rn_running s \<Longrightarrow>
    runtime_step unmarshal marshal s (s\<lparr>rn_queued := False, rn_running := True\<rparr>)"
| unread: "rn_running s \<Longrightarrow> runtime_step unmarshal marshal s (s\<lparr>rn_running := False, rn_queued := True\<rparr>)"
| sweep: "rn_running s \<Longrightarrow> runtime_step unmarshal marshal s
    (s\<lparr>rn_r := reconcile_sweep unmarshal marshal patch pods live (rn_r s)\<rparr>)"
| finish: "rn_running s \<Longrightarrow> reconcile_finish verifyErr statusErr asks live (rn_r s) = (res, r') \<Longrightarrow>
    runtime_step unmarshal marshal s
      (s\<lparr>rn_r := r', rn_running := False, rn_queued := rn_queued s \<or> res \<noteq> Inr NoRequeue\<rparr>)"

definition initial_runtime :: Runtime where
  "initial_runtime = \<lparr>rn_r = \<lparr>dr_notifiers = [], dr_nextChannel = 0, dr_lastLivePodUIDs = None, dr_reservations = [],
     dr_visibilityGrants = [], dr_pendingReleases = [], dr_pendingReleaseEvents = Some 0,
     dr_slicedAllocateGateOff = False\<rparr>, rn_queued = False, rn_running = False\<rparr>"

definition wf_key :: "ReservationKey \<Rightarrow> bool" where
  "wf_key k \<longleftrightarrow> rk_PodUID k \<noteq> [] \<and> rk_Container k \<noteq> []"

definition wf_reconciler :: "DevicesReconciler \<Rightarrow> bool" where
  "wf_reconciler r \<longleftrightarrow> wf_map (dr_reservations r) \<and> wf_map (dr_pendingReleases r) \<and> distinct (dr_visibilityGrants r)
     \<and> (\<forall>k \<in> fst ` set (dr_reservations r) \<union> set (dr_visibilityGrants r) \<union> fst ` set (dr_pendingReleases r). wf_key k)
     \<and> (\<forall>v \<in> snd ` set (dr_reservations r). st_Groups (rv_Allocated v) \<noteq> [])
     \<and> (\<forall>n \<in> set (dr_notifiers r). length (dn_Buffer n) \<le> 4 \<and> dn_Channel n < dr_nextChannel r)
     \<and> distinct (map dn_Channel (dr_notifiers r))
     \<and> dr_pendingReleaseEvents r \<noteq> None"

lemma wf_notify:
  assumes "wf_reconciler r"
  shows "wf_reconciler (notifyListeners r)"
proof -
  have buffer: "length (dn_Buffer n) \<le> 4 \<Longrightarrow> length (dn_Buffer (offer p n)) \<le> 4"
    and channel: "dn_Channel (offer p n) = dn_Channel n" for p n
    by (auto simp: offer_def)
  show ?thesis
    using assms buffer
    by (auto simp: wf_reconciler_def notifyListeners_def channel comp_def split: option.split)
qed

lemma wf_reserve:
  assumes "wf_reconciler r"
  shows "wf_reconciler (reserveDevices u c status deviceIDs r)"
proof (cases "u = [] \<or> c = [] \<or> st_Groups status = []")
  case False
  let ?v = "\<lparr>rv_Allocated = status, rv_DeviceIDs = deviceIDs\<rparr>"
  let ?m = "map_put (key u c) ?v (dr_reservations r)"
  have vals: "snd ` set (map_put k v m) \<subseteq> insert v (snd ` set m)" for k v and m :: "(ReservationKey, Reservation) gomap"
    by (induction k v m rule: map_put.induct) auto
  have "\<forall>w \<in> snd ` set ?m. st_Groups (rv_Allocated w) \<noteq> []"
  proof
    fix w assume "w \<in> snd ` set ?m"
    then have "w = ?v \<or> w \<in> snd ` set (dr_reservations r)" using vals by blast
    then show "st_Groups (rv_Allocated w) \<noteq> []" using False assms by (auto simp: wf_reconciler_def)
  qed
  moreover have "wf_map ?m" "\<forall>k \<in> fst ` set ?m. wf_key k"
    using assms False by (auto simp: wf_reconciler_def keys_put wf_key_def)
  ultimately have "wf_reconciler (r\<lparr>dr_reservations := ?m\<rparr>)"
    using assms unfolding wf_reconciler_def by (simp add: ball_Un)
  with False show ?thesis by (simp add: reserveDevices_def wf_notify)
qed (use assms in \<open>auto simp: reserveDevices_def\<close>)

lemma wf_release: "wf_reconciler r \<Longrightarrow> wf_reconciler (releaseReservation u c r)"
  unfolding releaseReservation_def
  by (rule wf_notify) (auto simp: wf_reconciler_def set_map_delete)

lemma wf_grant: "wf_reconciler r \<Longrightarrow> wf_reconciler (grantVisibility u c r)"
  by (auto simp: wf_reconciler_def grantVisibility_def wf_key_def)

lemma wf_revoke: "wf_reconciler r \<Longrightarrow> wf_reconciler (revokeVisibility u c r)"
  by (auto simp: wf_reconciler_def revokeVisibility_def distinct_removeAll)

lemma wf_drop: "wf_reconciler r \<Longrightarrow> wf_reconciler (dropPendingRelease u c r)"
  by (auto simp: wf_reconciler_def dropPendingRelease_def set_map_delete)

lemma wf_record: "wf_reconciler r \<Longrightarrow> wf_reconciler (recordPendingRelease u c prior r)"
  using wf_put [of "dr_pendingReleases r" "key u c" prior]
  by (auto simp: wf_reconciler_def recordPendingRelease_def Let_def keys_put wf_key_def)

lemma wf_retries:
  assumes "wf_reconciler r" and "retries r r'"
  shows "wf_reconciler r'"
proof -
  have "\<forall>k \<in> fst ` set (dr_pendingReleases r'). wf_key k"
    using assms unfolding wf_reconciler_def retries_def by blast
  with assms show ?thesis by (simp add: wf_reconciler_def retries_def same_claims_def ball_Un)
qed

lemma patch_cases:
  assumes "patchAllocatingPod unmarshal marshal patch pod c status deviceIDs r = (res, r')"
  obtains "r' = r" | "r' = dropPendingRelease (pod_UID pod) c r"
  using assms by (auto simp: patchAllocatingPod_def split: sum.splits option.splits)

lemma unpatch_cases:
  assumes "unpatchAllocatingPod unmarshal marshal patch pod c prior r = (res, r')"
  obtains "r' = r" | "r' = recordPendingRelease (pod_UID pod) c prior r"
  using assms by (auto simp: unpatchAllocatingPod_def Let_def split: sum.splits option.splits)

lemma wf_subscribe: "wf_reconciler r \<Longrightarrow> wf_reconciler (snd (getReconcileNotifier m mode r))"
  by (auto simp: wf_reconciler_def getReconcileNotifier_def Let_def less_Suc_eq split: option.split)

lemma wf_unsubscribe: "wf_reconciler r \<Longrightarrow> wf_reconciler (dropReconcileNotifier ch r)"
  by (auto simp: wf_reconciler_def dropReconcileNotifier_def distinct_map_filter)

lemma wf_prune: "wf_reconciler r \<Longrightarrow> wf_reconciler (pruneVisibilityGrants live (pruneReservations live r))"
  by (auto simp: wf_reconciler_def pruneVisibilityGrants_def pruneReservations_def)

lemma wf_sweep: "wf_reconciler r \<Longrightarrow> wf_reconciler (reconcile_sweep unmarshal marshal patch pods live r)"
  unfolding reconcile_sweep_def by (rule wf_retries [OF wf_prune retryPendingReleases_retries])

lemma wf_finish:
  assumes "wf_reconciler r" and "reconcile_finish verifyErr statusErr asks live r = (res, r')"
  shows "wf_reconciler r'"
proof -
  have "wf_reconciler (r\<lparr>dr_lastLivePodUIDs := Some live\<rparr>)" using assms(1) by (simp add: wf_reconciler_def)
  then have "wf_reconciler (notifyListeners (r\<lparr>dr_lastLivePodUIDs := Some live\<rparr>))" by (rule wf_notify)
  moreover have "r' = r \<or> r' = notifyListeners (r\<lparr>dr_lastLivePodUIDs := Some live\<rparr>)"
    using assms(2) by (auto simp: reconcile_finish_def Let_def split: option.splits)
  ultimately show ?thesis using assms(1) by auto
qed

lemmas wf_operations = wf_reserve wf_release wf_grant wf_revoke wf_drop wf_record wf_subscribe wf_unsubscribe
  wf_sweep wf_finish

lemma wf_step:
  assumes "runtime_step unmarshal marshal s s'" and "wf_reconciler (rn_r s)"
  shows "wf_reconciler (rn_r s')"
  using assms
proof cases
  case (patch patch pod c status deviceIDs res r')
  then show ?thesis using assms(2) by (auto elim!: patch_cases intro: wf_drop)
next
  case (unpatch patch pod c prior res r')
  then show ?thesis using assms(2) by (auto elim!: unpatch_cases intro: wf_record)
next
  case (wake n)
  then show ?thesis using assms(2) by (simp add: wf_reconciler_def)
next
  case (finish verifyErr statusErr asks live res r')
  then show ?thesis using wf_finish [OF assms(2)] by simp
qed (use assms(2) in \<open>simp_all add: wf_operations\<close>)

text \<open>An outstanding compensating write always has a pass coming, running or announced.\<close>

definition release_awaited :: "Runtime \<Rightarrow> bool" where
  "release_awaited s \<longleftrightarrow> (hasPendingReleases (rn_r s) \<longrightarrow>
     rn_queued s \<or> rn_running s \<or> (\<exists>n. dr_pendingReleaseEvents (rn_r s) = Some (Suc n)))"

lemma awaited_keep:
  assumes "release_awaited s" and "dr_pendingReleases r' = [] \<or> dr_pendingReleases (rn_r s) \<noteq> []"
    and "dr_pendingReleaseEvents r' = dr_pendingReleaseEvents (rn_r s)"
  shows "release_awaited (s\<lparr>rn_r := r'\<rparr>)"
  using assms by (auto simp: release_awaited_def hasPendingReleases_def)

lemma awaited_record:
  assumes "release_awaited s" and "dr_pendingReleaseEvents (rn_r s) \<noteq> None"
  shows "release_awaited (s\<lparr>rn_r := recordPendingRelease u c prior (rn_r s)\<rparr>)"
  using assms by (auto simp: release_awaited_def hasPendingReleases_def recordPendingRelease_def Let_def)

lemma awaited_step:
  assumes "runtime_step unmarshal marshal s s'" and "release_awaited s" and "dr_pendingReleaseEvents (rn_r s) \<noteq> None"
  shows "release_awaited s'"
  using assms(1)
proof cases
  case (reserve u c status deviceIDs)
  then show ?thesis using awaited_keep [OF assms(2)] by (auto simp: reserveDevices_def)
next
  case (patch patch pod c status deviceIDs res r')
  from patch(2) show ?thesis unfolding patch(1)
    by (rule patch_cases) (auto intro!: awaited_keep [OF assms(2)] simp: assms(2) dropPendingRelease_def map_delete_def)
next
  case (unpatch patch pod c prior res r')
  from unpatch(2) show ?thesis unfolding unpatch(1)
    by (rule unpatch_cases) (simp_all add: assms(2) awaited_record [OF assms(2,3)])
next
  case (sweep patch pods live)
  then show ?thesis by (simp add: release_awaited_def)
next
  case (finish verifyErr statusErr asks live res r')
  then show ?thesis using finish_same(5) [OF finish(3)] by (auto simp: release_awaited_def)
qed (use assms(2) in \<open>auto simp: release_awaited_def hasPendingReleases_def releaseReservation_def grantVisibility_def
       revokeVisibility_def getReconcileNotifier_def dropReconcileNotifier_def Let_def\<close>)

lemma reachable_invariant:
  assumes "(runtime_step unmarshal marshal)\<^sup>*\<^sup>* initial_runtime s"
  shows "wf_reconciler (rn_r s) \<and> release_awaited s"
  using assms
proof (induction rule: rtranclp_induct)
  case base
  show ?case
    by (simp add: initial_runtime_def wf_reconciler_def wf_map_def release_awaited_def hasPendingReleases_def)
next
  case (step s s')
  have "dr_pendingReleaseEvents (rn_r s) \<noteq> None" using step.IH by (simp add: wf_reconciler_def)
  with step wf_step awaited_step show ?case by blast
qed

section \<open>Examples\<close>

definition sample_encoder :: encoder where
  "sample_encoder m = (if m = sample_record [claim_on ''GPU-0'' DeviceAllocationModeShared 160000]
     then Inr ''shared'' else Inl ''unsupported'')"

definition sample_status :: DevicesStatus where
  "sample_status = zero_DevicesStatus\<lparr>st_Groups := [\<lparr>ag_ID = ''t4'', ag_Manufacturer = ''nvidia'',
     ag_Accelerators = [claim_on ''GPU-0'' DeviceAllocationModeShared 160000]\<rparr>]\<rparr>"

definition accept_all :: api_patch where
  "accept_all pod text = None"

definition refuse_all :: api_patch where
  "refuse_all pod text = Some ''refused''"

abbreviation fresh_reconciler :: DevicesReconciler where
  "fresh_reconciler \<equiv> rn_r initial_runtime"

lemma sample_json: "json_faithful sample_encoder sample_decoder"
  by (auto simp: json_faithful_def sample_encoder_def sample_decoder_def split: if_splits)

lemma sample_readable: "readable sample_decoder (sample_pod [])"
  by (simp add: readable_def AllocatedAcceleratorsOf_def sample_pod_def zero_Pod_def map_get_def entries_def wf_map_def)

lemma sample_not_recorded: "recorded sample_decoder (sample_pod []) name = None"
  by (simp add: recorded_def AllocatedAcceleratorsOf_def sample_pod_def zero_Pod_def map_get_def entries_def)

lemma fresh_reservations: "dr_reservations fresh_reconciler = []"
  by (simp add: initial_runtime_def)

lemma sample_patch:
  "patchAllocatingPod sample_decoder sample_encoder accept_all (sample_pod []) ''main'' sample_status [] fresh_reconciler
     = (Inr (Some ''shared''), fresh_reconciler)"
  by (simp add: patchAllocatingPod_def AllocatedAcceleratorsOf_def sample_pod_def zero_Pod_def map_get_def entries_def
      overlay_siblings_def reservationsFor_def sample_encoder_def sample_record_def sample_status_def accept_all_def
      dropPendingRelease_def map_delete_def initial_runtime_def)

lemma sample_unpatch:
  "unpatchAllocatingPod sample_decoder sample_encoder accept_all (annotate (sample_pod []) (Some ''shared'')) ''main''
     (recorded sample_decoder (sample_pod []) ''main'') fresh_reconciler = (Inr None, fresh_reconciler)"
  by (simp add: unpatchAllocatingPod_def AllocatedAcceleratorsOf_def annotate_def sample_decoder_def entries_def
      sample_not_recorded overlay_siblings_def reservationsFor_def fresh_reservations sample_record_def map_delete_def
      accept_all_def)

theorem patch_keeps_siblings_witness:
  "recorded sample_decoder (annotate (sample_pod []) (Some ''shared'')) ''main''
     = Some \<lparr>ca_Devices = sample_status, ca_DeviceIDs = []\<rparr>"
  using patch_keeps_siblings [OF sample_json sample_readable _ sample_patch, of "''main''"]
  by (simp add: fresh_reservations wf_map_def)


definition sample_input :: ReconcileInput where
  "sample_input = \<lparr>ri_kubelet = None, ri_patch = accept_all, ri_publish = (\<lambda>_ _. Published),
     ri_devices = sample_devices, ri_pods = [sample_pod ''shared'']\<rparr>"

definition pending_reconciler :: DevicesReconciler where
  "pending_reconciler = recordPendingRelease ''shared'' ''main'' None fresh_reconciler"

theorem pending_releases_drain_witness:
  "hasPendingReleases pending_reconciler
   \<and> \<not> hasPendingReleases (snd (reconcile_pass default_knowns sample_decoder (\<lambda>_. Inr ''shared'') True sample_input
        pending_reconciler))"
proof -
  have "accepting sample_decoder (\<lambda>_. Inr ''shared'') (ri_patch sample_input) (ri_pods sample_input)"
    by (auto simp: accepting_def sample_input_def accept_all_def AllocatedAcceleratorsOf_def sample_pod_def
        sample_decoder_def map_get_def)
  then have "\<not> hasPendingReleases (fold (\<lambda>i r. snd (reconcile_pass default_knowns sample_decoder (\<lambda>_. Inr ''shared'')
      True i r)) [sample_input] pending_reconciler)"
    by (intro pending_releases_drain)
      (simp_all add: pending_reconciler_def recordPendingRelease_def initial_runtime_def Let_def)
  then show ?thesis
    by (simp add: pending_reconciler_def recordPendingRelease_def initial_runtime_def hasPendingReleases_def Let_def)
qed

text \<open>C27: In every reachable state the in-memory tables are maps and sets over containers named by a
  Pod UID and a container name, no reservation is empty, subscriptions have distinct channels and none
  buffers more than four broadcasts.\<close>

theorem reconciler_invariant:
  assumes "(runtime_step unmarshal marshal)\<^sup>*\<^sup>* initial_runtime s"
  shows "wf_reconciler (rn_r s)"
  using reachable_invariant [OF assms] by simp

text \<open>C9: No compensating write is forgotten: in every reachable state in which one is outstanding, a
  pass is queued, running, or announced on the wake-up channel, however allocations, failing writes and
  passes interleave.\<close>

theorem no_release_forgotten:
  assumes "(runtime_step unmarshal marshal)\<^sup>*\<^sup>* initial_runtime s" and "hasPendingReleases (rn_r s)"
  shows "rn_queued s \<or> rn_running s \<or> (\<exists>n. dr_pendingReleaseEvents (rn_r s) = Some (Suc n))"
  using reachable_invariant [OF assms(1)] assms(2) by (simp add: release_awaited_def)

lemma sample_refused:
  "unpatchAllocatingPod sample_decoder sample_encoder refuse_all (sample_pod ''shared'') ''main'' None fresh_reconciler
     = (Inl (PatchFailed ''refused''), pending_reconciler)"
  by (simp add: unpatchAllocatingPod_def AllocatedAcceleratorsOf_def sample_pod_def zero_Pod_def map_get_def
      sample_decoder_def entries_def overlay_siblings_def reservationsFor_def fresh_reservations sample_record_def
      map_delete_def refuse_all_def pending_reconciler_def)

lemma sample_trace:
  "(runtime_step sample_decoder sample_encoder)\<^sup>*\<^sup>* initial_runtime (initial_runtime\<lparr>rn_r := pending_reconciler\<rparr>)"
  by (rule r_into_rtranclp, rule runtime_step.unpatch [OF sample_refused])

theorem reconciler_invariant_witness: "wf_reconciler pending_reconciler"
  using reconciler_invariant [OF sample_trace] by simp

theorem no_release_forgotten_witness:
  "hasPendingReleases pending_reconciler \<and> (\<exists>n. dr_pendingReleaseEvents pending_reconciler = Some (Suc n))"
proof -
  have "hasPendingReleases pending_reconciler"
    by (simp add: pending_reconciler_def recordPendingRelease_def initial_runtime_def hasPendingReleases_def Let_def)
  with no_release_forgotten [OF sample_trace] show ?thesis by (simp add: initial_runtime_def)
qed

end
