(* ===== verification/Candidate_Search.thy ===== *)
theory Candidate_Search
  imports Reservations
begin

text \<open>
  Which container an Allocate call is for, \<open>pkg/deviceplugin/controller.go\<close>: the device-plugin API
  does not say, so the pending containers of the node that ask for the resource are sorted into three
  tiers, narrowed to those kubelet reports as waiting, and the oldest of the best tier is taken. Go
  sorts the Pods by creation time with an unstable sort; the model sorts stably, and the order in
  which the cache lists the Pods is arbitrary.
\<close>

section \<open>Candidates\<close>

record AllocationMatch =
  am_ResourceName :: string
  am_Quantity :: Quantity
  am_SkipReserved :: bool
  am_SkipGranted :: bool
  am_Feasible :: "(Pod \<Rightarrow> Container \<Rightarrow> bool) option"
  am_Kubelet :: "KubeletPending option"

type_synonym candidate = "Pod \<times> Container"
type_synonym tiers = "candidate list \<times> candidate list \<times> candidate list"

datatype search_error =
    ListPodsFailed string
  | NoPodsOnNode
  | NoPendingPod string Quantity

definition claimed_already :: "DevicesReconciler \<Rightarrow> AllocationMatch \<Rightarrow> candidate \<Rightarrow> bool" where
  "claimed_already r match c \<longleftrightarrow>
     am_SkipReserved match \<and> reservedDevices r (pod_UID (fst c)) (ct_Name (snd c)) \<noteq> None
     \<or> am_SkipGranted match \<and> visibilityGranted r (pod_UID (fst c)) (ct_Name (snd c))"

fun classify :: "DevicesReconciler \<Rightarrow> AllocationMatch \<Rightarrow> candidate \<Rightarrow> tiers \<Rightarrow> tiers" where
  "classify r match c (feasible, infeasible, claimed) =
     (if \<not> containerRequests (snd c) (am_ResourceName match) (am_Quantity match) then (feasible, infeasible, claimed)
      else if claimed_already r match c then (feasible, infeasible, claimed @ [c])
      else case am_Feasible match of
        None \<Rightarrow> (feasible @ [c], infeasible, claimed)
      | Some test \<Rightarrow>
          if test (fst c) (snd c) then (feasible @ [c], infeasible, claimed)
          else (feasible, infeasible @ [c], claimed))"

definition pending_containers :: "Pod list \<Rightarrow> candidate list" where
  "pending_containers pods =
     concat (map (\<lambda>pod. if pod_Phase pod \<noteq> PodPhaseUnset \<and> pod_Phase pod \<noteq> PodPending then []
                       else map (Pair pod) (pod_InitContainers pod @ pod_Containers pod)) pods)"

definition classifyAllocatingCandidates :: "DevicesReconciler \<Rightarrow> Pod list \<Rightarrow> AllocationMatch \<Rightarrow> tiers" where
  "classifyAllocatingCandidates r pods match = fold (classify r match) (pending_containers pods) ([], [], [])"

fun narrowToKubeletPending :: "AllocationMatch \<Rightarrow> tiers \<Rightarrow> tiers" where
  "narrowToKubeletPending match (feasible, infeasible, claimed) =
     (case am_Kubelet match of
        None \<Rightarrow> (feasible, infeasible, claimed)
      | Some kubelet \<Rightarrow>
          if length feasible + length infeasible + length claimed = 0 then (feasible, infeasible, claimed)
          else let waiting = filter (\<lambda>c. waitsForDevice kubelet (fst c) (snd c)) in
            if length (waiting feasible) + length (waiting infeasible) + length (waiting claimed) = 0
            then ([], [], [])
            else (waiting feasible, waiting infeasible, waiting claimed))"

fun rankAllocatingCandidate :: "AllocationMatch \<Rightarrow> tiers \<Rightarrow> search_error + candidate" where
  "rankAllocatingCandidate match (feasible, infeasible, claimed) =
     (if feasible \<noteq> [] then Inr (hd feasible)
      else if infeasible \<noteq> [] then Inr (hd infeasible)
      else if claimed \<noteq> [] then Inr (hd claimed)
      else Inl (NoPendingPod (am_ResourceName match) (am_Quantity match)))"

definition getAllocatingPod ::
    "DevicesReconciler \<Rightarrow> string + Pod list \<Rightarrow> AllocationMatch \<Rightarrow> search_error + candidate" where
  "getAllocatingPod r listPods match =
     (case listPods of
        Inl err \<Rightarrow> Inl (ListPodsFailed err)
      | Inr pods \<Rightarrow>
          if pods = [] then Inl NoPodsOnNode
          else rankAllocatingCandidate match (narrowToKubeletPending match
                 (classifyAllocatingCandidates r (sort_key pod_CreationTimestamp pods) match)))"

text \<open>Five attempts, each against what the cache lists at that time.\<close>

fun getAllocatingPodWithRetry ::
    "DevicesReconciler \<Rightarrow> (string + Pod list) list \<Rightarrow> AllocationMatch \<Rightarrow> nat \<Rightarrow> search_error option
      \<Rightarrow> search_error option + candidate" where
  "getAllocatingPodWithRetry r listings match 0 err = Inl err"
| "getAllocatingPodWithRetry r [] match (Suc n) err = Inl err"
| "getAllocatingPodWithRetry r (l # listings) match (Suc n) err =
     (case getAllocatingPod r l match of
        Inr c \<Rightarrow> Inr c
      | Inl e \<Rightarrow> getAllocatingPodWithRetry r listings match n (Some e))"

section \<open>Facts about the search\<close>

text \<open>A container this call could be for: pending, asking for exactly the resource, and not ruled out by
  kubelet.\<close>

definition eligible :: "Pod list \<Rightarrow> AllocationMatch \<Rightarrow> candidate \<Rightarrow> bool" where
  "eligible pods match c \<longleftrightarrow> c \<in> set (pending_containers pods)
     \<and> containerRequests (snd c) (am_ResourceName match) (am_Quantity match)
     \<and> (case am_Kubelet match of None \<Rightarrow> True | Some kubelet \<Rightarrow> waitsForDevice kubelet (fst c) (snd c))"

definition infeasible_here :: "AllocationMatch \<Rightarrow> candidate \<Rightarrow> bool" where
  "infeasible_here match c \<longleftrightarrow> (case am_Feasible match of None \<Rightarrow> False | Some test \<Rightarrow> \<not> test (fst c) (snd c))"

lemma fold_classify:
  "fold (classify r match) cs (f, i, cl) =
     (f @ filter (\<lambda>c. containerRequests (snd c) (am_ResourceName match) (am_Quantity match)
                    \<and> \<not> claimed_already r match c \<and> \<not> infeasible_here match c) cs,
      i @ filter (\<lambda>c. containerRequests (snd c) (am_ResourceName match) (am_Quantity match)
                    \<and> \<not> claimed_already r match c \<and> infeasible_here match c) cs,
      cl @ filter (\<lambda>c. containerRequests (snd c) (am_ResourceName match) (am_Quantity match)
                    \<and> claimed_already r match c) cs)"
  by (induction cs arbitrary: f i cl) (auto simp: infeasible_here_def split: option.split)

lemma pending_containers_cong: "set pods = set pods' \<Longrightarrow> set (pending_containers pods) = set (pending_containers pods')"
  by (auto simp: pending_containers_def)

lemma narrow_waiting:
  "narrowToKubeletPending match (f, i, cl) =
     (let waiting = filter (\<lambda>c. case am_Kubelet match of None \<Rightarrow> True
        | Some kubelet \<Rightarrow> waitsForDevice kubelet (fst c) (snd c))
      in (waiting f, waiting i, waiting cl))"
  by (cases "am_Kubelet match") (simp_all add: Let_def)

text \<open>The three tiers after narrowing, as sublists of the pending containers, oldest Pod first.\<close>

lemma narrowed_tiers:
  fixes pods :: "Pod list"
  defines "cs \<equiv> pending_containers pods"
  shows "narrowToKubeletPending match (classifyAllocatingCandidates r pods match) =
    (filter (\<lambda>c. eligible pods match c \<and> \<not> claimed_already r match c \<and> \<not> infeasible_here match c) cs,
     filter (\<lambda>c. eligible pods match c \<and> \<not> claimed_already r match c \<and> infeasible_here match c) cs,
     filter (\<lambda>c. eligible pods match c \<and> claimed_already r match c) cs)"
proof -
  show ?thesis
    unfolding classifyAllocatingCandidates_def fold_classify narrow_waiting Let_def cs_def append_Nil filter_filter
    by (intro arg_cong2 [where f = Pair] filter_cong) (auto simp: eligible_def)
qed

lemma eligible_sort: "eligible (sort_key f pods) match c = eligible pods match c"
  using pending_containers_cong [of "sort_key f pods" pods] by (simp add: eligible_def)

definition candidate_key :: "candidate \<Rightarrow> ReservationKey" where
  "candidate_key c = key (pod_UID (fst c)) (ct_Name (snd c))"

lemma pending_sorted:
  "sorted (map (\<lambda>c. pod_CreationTimestamp (fst c)) (pending_containers (sort_key pod_CreationTimestamp pods)))"
proof -
  have "sorted (map pod_CreationTimestamp ps) \<Longrightarrow>
      sorted (map (\<lambda>c. pod_CreationTimestamp (fst c)) (pending_containers ps))" for ps
  proof (induction ps)
    case (Cons p ps)
    have "pod_CreationTimestamp p \<le> pod_CreationTimestamp (fst c)" if "c \<in> set (pending_containers ps)" for c
      using that Cons.prems by (auto simp: pending_containers_def split: if_splits)
    moreover have "sorted (map (\<lambda>c. pod_CreationTimestamp (fst c)) (map (Pair p) xs))" for xs :: "Container list"
      by (induction xs) auto
    ultimately show ?case
      using Cons by (auto simp: pending_containers_def sorted_append split: if_splits)
  qed (simp add: pending_containers_def)
  then show ?thesis by simp
qed

lemma hd_filter_sorted:
  assumes "sorted (map f xs)" and "filter P xs \<noteq> []" and "x \<in> set (filter P xs)"
  shows "f (hd (filter P xs)) \<le> f x"
proof -
  have "sorted (map f (filter P xs))" using assms(1) by (rule sorted_filter)
  then show ?thesis using assms(2,3) by (cases "filter P xs") auto
qed

text \<open>The tier a candidate falls in: 0 for a feasible one, 1 for an infeasible one, 2 for one already
  answered.\<close>

definition tier :: "DevicesReconciler \<Rightarrow> AllocationMatch \<Rightarrow> candidate \<Rightarrow> nat" where
  "tier r match c = (if claimed_already r match c then 2 else if infeasible_here match c then 1 else 0)"

lemma getAllocatingPod_best:
  assumes "getAllocatingPod r (Inr pods) match = Inr c"
  shows "eligible pods match c"
    and "eligible pods match c' \<Longrightarrow> tier r match c < tier r match c'
      \<or> tier r match c = tier r match c' \<and> pod_CreationTimestamp (fst c) \<le> pod_CreationTimestamp (fst c')"
proof -
  let ?ps = "sort_key pod_CreationTimestamp pods"
  let ?cs = "pending_containers ?ps"
  let ?tier = "\<lambda>t. filter (\<lambda>c. eligible pods match c \<and> tier r match c = t) ?cs"
  have tiers: "narrowToKubeletPending match (classifyAllocatingCandidates r ?ps match) = (?tier 0, ?tier 1, ?tier 2)"
    unfolding narrowed_tiers eligible_sort by (auto simp: tier_def intro!: filter_cong)
  have "rankAllocatingCandidate match (?tier 0, ?tier 1, ?tier 2) = Inr c"
    using assms by (auto simp: getAllocatingPod_def tiers split: if_splits)
  then obtain t where t: "?tier t \<noteq> []" "c = hd (?tier t)" "\<forall>u < t. ?tier u = []"
    by (auto split: if_splits simp: less_Suc_eq numeral_2_eq_2)
  then have c: "c \<in> set (?tier t)" using hd_in_set by metis
  then show "eligible pods match c" by simp
  assume el: "eligible pods match c'"
  then have "c' \<in> set ?cs"
    using pending_containers_cong [of ?ps pods] by (simp add: eligible_def)
  with el have c': "c' \<in> set (?tier (tier r match c'))" by simp
  then have "t \<le> tier r match c'" using t(3) by (metis empty_iff empty_set linorder_not_le)
  moreover have "t = tier r match c' \<Longrightarrow> pod_CreationTimestamp (fst c) \<le> pod_CreationTimestamp (fst c')"
    using hd_filter_sorted [OF pending_sorted t(1)] c' t(2) by simp
  moreover have "tier r match c = t" using c by simp
  ultimately show "tier r match c < tier r match c'
      \<or> tier r match c = tier r match c' \<and> pod_CreationTimestamp (fst c) \<le> pod_CreationTimestamp (fst c')"
    by linarith
qed

lemma getAllocatingPod_total:
  assumes "eligible pods match c"
  shows "\<exists>c. getAllocatingPod r (Inr pods) match = Inr c"
proof -
  let ?ps = "sort_key pod_CreationTimestamp pods"
  have "c \<in> set (pending_containers ?ps)" "pods \<noteq> []"
    using assms pending_containers_cong [of ?ps pods] by (auto simp: eligible_def pending_containers_def)
  then have "fst (narrowToKubeletPending match (classifyAllocatingCandidates r ?ps match)) \<noteq> []
     \<or> fst (snd (narrowToKubeletPending match (classifyAllocatingCandidates r ?ps match))) \<noteq> []
     \<or> snd (snd (narrowToKubeletPending match (classifyAllocatingCandidates r ?ps match))) \<noteq> []"
    unfolding narrowed_tiers eligible_sort using assms by (auto simp: filter_empty_conv)
  then show ?thesis
    using \<open>pods \<noteq> []\<close>
    by (cases "narrowToKubeletPending match (classifyAllocatingCandidates r ?ps match)")
      (auto simp: getAllocatingPod_def)
qed

text \<open>C29: The search answers whenever some pending container asks for the resource and kubelet does not
  rule it out, and what it answers is the best such container: no other is of a better tier (feasible
  before infeasible before already answered), and none of the same tier belongs to an older Pod.\<close>

theorem getAllocatingPod_optimal:
  assumes "eligible pods match c'"
  shows "\<exists>c. getAllocatingPod r (Inr pods) match = Inr c \<and> eligible pods match c
    \<and> (tier r match c < tier r match c'
       \<or> tier r match c = tier r match c' \<and> pod_CreationTimestamp (fst c) \<le> pod_CreationTimestamp (fst c'))"
  using getAllocatingPod_total [OF assms] getAllocatingPod_best assms by blast

section \<open>Serialized calls\<close>

text \<open>A batch of workload calls under the node's allocate mutex: each resolves its container against the
  state the previous one left and reserves devices for it.\<close>

record Call =
  cl_pods :: "Pod list"
  cl_match :: AllocationMatch
  cl_status :: DevicesStatus
  cl_deviceIDs :: "string list"

fun serve :: "Call list \<Rightarrow> DevicesReconciler \<Rightarrow> candidate list" where
  "serve [] r = []"
| "serve (call # calls) r =
     (case getAllocatingPod r (Inr (cl_pods call)) (cl_match call) of
        Inl _ \<Rightarrow> serve calls r
      | Inr c \<Rightarrow> c # serve calls (reserveDevices (pod_UID (fst c)) (ct_Name (snd c)) (cl_status call) (cl_deviceIDs call) r))"

definition reserved_keys :: "DevicesReconciler \<Rightarrow> ReservationKey set" where
  "reserved_keys r = fst ` set (dr_reservations r)"

definition workload_call :: "Call \<Rightarrow> bool" where
  "workload_call call \<longleftrightarrow> am_SkipReserved (cl_match call) \<and> \<not> am_SkipGranted (cl_match call)
     \<and> st_Groups (cl_status call) \<noteq> []
     \<and> (\<forall>c. eligible (cl_pods call) (cl_match call) c \<longrightarrow> wf_key (candidate_key c))"

definition free_keys :: "Call \<Rightarrow> DevicesReconciler \<Rightarrow> ReservationKey set" where
  "free_keys call r = {candidate_key c |c. eligible (cl_pods call) (cl_match call) c} - reserved_keys r"

lemma finite_free_keys: "finite (free_keys call r)"
proof -
  have "free_keys call r \<subseteq> candidate_key ` set (pending_containers (cl_pods call))"
    by (auto simp: free_keys_def eligible_def)
  then show ?thesis by (rule finite_subset) simp
qed

lemma claimed_reserved:
  "workload_call call \<Longrightarrow> claimed_already r (cl_match call) c \<longleftrightarrow> candidate_key c \<in> reserved_keys r"
  by (simp add: workload_call_def claimed_already_def reservedDevices_def candidate_key_def reserved_keys_def
      map_of_eq_None_iff)

lemma reserve_keys:
  assumes "wf_key (key u c)" and "st_Groups status \<noteq> []"
  shows "reserved_keys (reserveDevices u c status deviceIDs r) = insert (key u c) (reserved_keys r)"
  using assms by (simp add: reserved_keys_def reserveDevices_def wf_key_def keys_put)

lemma serve_distinct:
  assumes "\<forall>call \<in> set calls. workload_call call \<and> length calls \<le> card (free_keys call r)"
  shows "length (serve calls r) = length calls \<and> distinct (map candidate_key (serve calls r))
    \<and> candidate_key ` set (serve calls r) \<inter> reserved_keys r = {}"
  using assms
proof (induction calls arbitrary: r)
  case (Cons call calls)
  have call: "workload_call call" "free_keys call r \<noteq> {}" using Cons.prems by auto
  then obtain c' where c': "eligible (cl_pods call) (cl_match call) c'" "candidate_key c' \<notin> reserved_keys r"
    by (auto simp: free_keys_def)
  obtain c where c: "getAllocatingPod r (Inr (cl_pods call)) (cl_match call) = Inr c"
    using getAllocatingPod_total [OF c'(1)] by blast
  note best = getAllocatingPod_best [OF c]
  have "tier r (cl_match call) c' < 2" using c'(2) claimed_reserved [OF call(1)] by (simp add: tier_def)
  then have "tier r (cl_match call) c < 2" using best(2) [OF c'(1)] by linarith
  then have free: "candidate_key c \<notin> reserved_keys r"
    using claimed_reserved [OF call(1)] by (auto simp: tier_def split: if_splits)
  let ?r = "reserveDevices (pod_UID (fst c)) (ct_Name (snd c)) (cl_status call) (cl_deviceIDs call) r"
  have keys: "reserved_keys ?r = insert (candidate_key c) (reserved_keys r)"
    using reserve_keys call(1) best(1) by (simp add: workload_call_def candidate_key_def)
  have "length calls \<le> card (free_keys other ?r)" if "other \<in> set calls" for other
  proof -
    have "free_keys other ?r = free_keys other r - {candidate_key c}" by (auto simp: free_keys_def keys)
    moreover have "Suc (length calls) \<le> card (free_keys other r)" using Cons.prems that by auto
    ultimately show ?thesis
      using card_Diff_singleton_if [of "free_keys other r" "candidate_key c"] by (auto split: if_splits)
  qed
  with Cons.prems Cons.IH [of ?r] c free show ?case by (auto simp: keys)
qed simp

text \<open>C5: Serialized allocations are told apart: in a batch of workload calls whose eligible containers
  include, for each call, at least as many unreserved ones as there are calls, every call is answered,
  no two calls resolve to the same container, and none resolves to a container already reserved.\<close>

theorem serialized_calls_distinct:
  assumes "\<forall>call \<in> set calls. workload_call call \<and> length calls \<le> card (free_keys call r)"
  shows "length (serve calls r) = length calls \<and> distinct (map candidate_key (serve calls r))
    \<and> candidate_key ` set (serve calls r) \<inter> reserved_keys r = {}"
  using assms by (rule serve_distinct)

definition sample_container :: Container where
  "sample_container = zero_Container\<lparr>ct_Name := ''main'', ct_Limits := [(''nvidia.com/gpu'', quantity 1)]\<rparr>"

definition sample_pending :: "string \<Rightarrow> Pod" where
  "sample_pending u = zero_Pod\<lparr>pod_UID := u, pod_Containers := [sample_container]\<rparr>"

definition sample_call :: Call where
  "sample_call = \<lparr>cl_pods = [sample_pending ''a'', sample_pending ''b''],
     cl_match = \<lparr>am_ResourceName = ''nvidia.com/gpu'', am_Quantity = quantity 1, am_SkipReserved = True,
       am_SkipGranted = False, am_Feasible = None, am_Kubelet = None\<rparr>,
     cl_status = sample_status, cl_deviceIDs = []\<rparr>"

lemma sample_eligible:
  "eligible (cl_pods sample_call) (cl_match sample_call) c \<longleftrightarrow>
     c = (sample_pending ''a'', sample_container) \<or> c = (sample_pending ''b'', sample_container)"
  by (auto simp: eligible_def sample_call_def pending_containers_def sample_pending_def zero_Pod_def
      containerRequests_def sample_container_def)

lemma sample_candidate: "candidate_key (sample_pending u, sample_container) = key u ''main''"
  by (simp add: candidate_key_def sample_pending_def sample_container_def)

lemma sample_keys: "free_keys sample_call fresh_reconciler = {key ''a'' ''main'', key ''b'' ''main''}"
proof -
  have "{candidate_key c |c. eligible (cl_pods sample_call) (cl_match sample_call) c}
      = {candidate_key (sample_pending ''a'', sample_container), candidate_key (sample_pending ''b'', sample_container)}"
    unfolding sample_eligible by blast
  then show ?thesis by (simp add: free_keys_def sample_candidate reserved_keys_def fresh_reservations)
qed

lemma sample_workload: "workload_call sample_call"
proof -
  have "wf_key (candidate_key c)" if "eligible (cl_pods sample_call) (cl_match sample_call) c" for c
    using that unfolding sample_eligible by (auto simp: sample_candidate wf_key_def)
  then show ?thesis by (simp add: workload_call_def sample_call_def sample_status_def)
qed

theorem getAllocatingPod_optimal_witness:
  "\<exists>c. getAllocatingPod fresh_reconciler (Inr (cl_pods sample_call)) (cl_match sample_call) = Inr c"
  using getAllocatingPod_optimal [of "cl_pods sample_call" "cl_match sample_call"
      "(sample_pending ''a'', sample_container)"]
  unfolding sample_eligible by blast

theorem serialized_calls_distinct_witness:
  "distinct (map candidate_key (serve [sample_call, sample_call] fresh_reconciler))
     \<and> length (serve [sample_call, sample_call] fresh_reconciler) = 2"
  using serialized_calls_distinct [of "[sample_call, sample_call]" fresh_reconciler]
  by (simp add: sample_workload sample_keys)

end
