(* ===== verification/Sliced_Room.thy ===== *)
theory Sliced_Room
  imports Candidate_Search
begin

text \<open>
  The room a card has for a logical slice: \<open>pkg/deviceplugin/sliced_room.go\<close> (who holds how much of
  which card, and the refusal of a slice that does not fit), \<open>budget.go\<close> (the limits a slice is given)
  and \<open>allocated.go\<close> (the cards handed to a container, in enumeration order), with the readers of a
  container's claim and of the published ledger they use from \<open>server.go\<close>. A reason for a refusal is a
  value; its text is not modelled.
\<close>

section \<open>Reading a container's claim and the published ledger\<close>

definition annotated_claim :: "decoder \<Rightarrow> Pod \<Rightarrow> string \<Rightarrow> ContainerAllocation option" where
  "annotated_claim unmarshal pod container =
     (case AllocatedAcceleratorsOf unmarshal pod of
        Inl _ \<Rightarrow> None
      | Inr allocations \<Rightarrow>
          (case map_of (entries allocations) container of
             None \<Rightarrow> None
           | Some held \<Rightarrow> if st_Groups (ca_Devices held) \<noteq> [] then Some held else None))"

definition priorAllocationOf :: "decoder \<Rightarrow> DevicesReconciler \<Rightarrow> Pod \<Rightarrow> string \<Rightarrow> DevicesStatus option" where
  "priorAllocationOf unmarshal r pod container =
     (let annotated = map_option ca_Devices (annotated_claim unmarshal pod container) in
      case reservedDevices r (pod_UID pod) container of
        Some reserved \<Rightarrow> if st_Groups reserved \<noteq> [] then Some reserved else annotated
      | None \<Rightarrow> annotated)"

definition priorClaimOf :: "decoder \<Rightarrow> DevicesReconciler \<Rightarrow> Pod \<Rightarrow> string \<Rightarrow> ContainerAllocation option" where
  "priorClaimOf unmarshal r pod container =
     (let unreserved =
        (case peekPendingRelease r (pod_UID pod) container of
           Some prior \<Rightarrow> prior | None \<Rightarrow> annotated_claim unmarshal pod container)
      in case map_of (reservationsFor r (pod_UID pod)) container of
           Some held \<Rightarrow> if st_Groups (rv_Allocated held) \<noteq> [] then Some (reservation_record held) else unreserved
         | None \<Rightarrow> unreserved)"

definition status_card :: "Devices \<Rightarrow> Resource \<Rightarrow> AcceleratorAllocation option" where
  "status_card devs res = map_option snd (find (\<lambda>c. fst c = res) (claims_of (dv_Status devs)))"

definition statusModeOf :: "Devices \<Rightarrow> Resource \<Rightarrow> DeviceAllocationMode" where
  "statusModeOf devs res =
     (case status_card devs res of None \<Rightarrow> DeviceAllocationModeNone | Some acc \<Rightarrow> aa_Mode acc)"

definition statusRemainingOf :: "Devices \<Rightarrow> Resource \<Rightarrow> int" where
  "statusRemainingOf devs res =
     (case status_card devs res of None \<Rightarrow> ResourceMaxUnits | Some acc \<Rightarrow> aa_Remaining acc)"

definition capabilityOf :: "Devices \<Rightarrow> Resource \<Rightarrow> AcceleratorStatus option" where
  "capabilityOf devs res =
     map_option (\<lambda>(grp, acc). ac_Status acc)
       (find (\<lambda>(grp, acc). dg_ID grp = rs_Group res \<and> ac_ID acc = rs_Device res)
         (concat (map (\<lambda>grp. map (Pair grp) (dg_Accelerators grp)) (sp_Groups (dv_Spec devs)))))"

section \<open>The cards handed to a container\<close>

definition AllocatedAccelerators :: "Devices \<Rightarrow> (Resource, int) gomap \<Rightarrow> (DevicesGroup \<times> Accelerator) list" where
  "AllocatedAccelerators devs allocated =
     sort_key (\<lambda>(grp, acc). ac_Index acc)
       (filter (\<lambda>(grp, acc). has_key allocated \<lparr>rs_Group = dg_ID grp, rs_Device = ac_ID acc\<rparr>)
         (concat (map (\<lambda>grp. map (Pair grp) (dg_Accelerators grp)) (sp_Groups (dv_Spec devs)))))"

definition AllocatedAcceleratorIDs :: "(DevicesGroup \<times> Accelerator) list \<Rightarrow> string list" where
  "AllocatedAcceleratorIDs accels = map (\<lambda>(grp, acc). ac_ID acc) accels"

section \<open>The limits of a slice\<close>

definition SlicedCoresPercent :: "Container \<Rightarrow> string \<Rightarrow> int" where
  "SlicedCoresPercent ctr coresResName =
     (case map_of (ct_Limits ctr) coresResName of
        None \<Rightarrow> 100 | Some q \<Rightarrow> if Value q > 0 then Value q else 100)"

definition limit_value :: "Container \<Rightarrow> string \<Rightarrow> int option" where
  "limit_value ctr name =
     (case map_of (ct_Limits ctr) name of None \<Rightarrow> None | Some q \<Rightarrow> if Value q > 0 then Some (Value q) else None)"

definition SlicedMemoryMib :: "Container \<Rightarrow> string \<Rightarrow> string \<Rightarrow> int \<Rightarrow> string + int" where
  "SlicedMemoryMib ctr memPctResName memMibResName vram =
     (case limit_value ctr memPctResName of
        Some pct \<Rightarrow> Inr (min (quot (wrap64 (vram * pct)) 100) vram)
      | None \<Rightarrow>
          (case limit_value ctr memMibResName of
             Some mib \<Rightarrow> Inr (min mib vram)
           | None \<Rightarrow> Inl (ct_Name ctr)))"

definition ContainerEnvDeclared :: "Container \<Rightarrow> string \<Rightarrow> bool" where
  "ContainerEnvDeclared ctr name \<longleftrightarrow> list_ex (\<lambda>e. fst e = name) (ct_Env ctr)"

section \<open>Occupancy\<close>

type_synonym SlicedOccupancy = "(Resource, (ReservationKey, int) gomap) gomap"

definition add_slice :: "ReservationKey \<Rightarrow> claim \<Rightarrow> SlicedOccupancy \<Rightarrow> SlicedOccupancy" where
  "add_slice holder c occupied =
     (if aa_Mode (snd c) \<noteq> DeviceAllocationModeSliced then occupied
      else let held = map_get occupied (fst c) [] in
        map_put (fst c) (map_put holder (wrap32 (map_get held holder 0 + aa_Allocated (snd c))) held) occupied)"

definition add_occupancy :: "ReservationKey \<Rightarrow> DevicesStatus \<Rightarrow> SlicedOccupancy \<Rightarrow> SlicedOccupancy" where
  "add_occupancy holder held occupied = fold (add_slice holder) (claims_of held) occupied"

definition holder_names :: "decoder \<Rightarrow> DevicesReconciler \<Rightarrow> Pod \<Rightarrow> string list" where
  "holder_names unmarshal r pod =
     sort (remdups ((case AllocatedAcceleratorsOf unmarshal pod of
                       Inl _ \<Rightarrow> [] | Inr allocations \<Rightarrow> map fst (entries allocations))
                    @ map fst (reservationsFor r (pod_UID pod))))"

definition slicedOccupancy :: "decoder \<Rightarrow> bool \<Rightarrow> DevicesReconciler \<Rightarrow> Pod list \<Rightarrow> SlicedOccupancy" where
  "slicedOccupancy unmarshal released r pods =
     fold (\<lambda>pod occupied.
             fold (\<lambda>name occupied.
                     case priorClaimOf unmarshal r pod name of
                       None \<Rightarrow> occupied
                     | Some held \<Rightarrow>
                         add_occupancy (key (pod_UID pod) name) (heldAllocation released pod (ca_Devices held)) occupied)
               (holder_names unmarshal r pod) occupied)
       pods []"

definition heldExcept :: "SlicedOccupancy \<Rightarrow> Resource \<Rightarrow> ReservationKey \<Rightarrow> int \<times> int" where
  "heldExcept occupied res self =
     fold (\<lambda>(holder, u) (units, slices).
             if holder = self then (units, slices) else (wrap32 (units + u), wrap32 (slices + 1)))
       (map_get occupied res []) (0, 0)"

record SlicedRoom =
  sr_devs :: Devices
  sr_occupied :: "SlicedOccupancy option"
  sr_self :: ReservationKey

definition room_remaining :: "SlicedRoom \<Rightarrow> Resource \<Rightarrow> int" where
  "room_remaining rm res =
     (case sr_occupied rm of
        None \<Rightarrow> statusRemainingOf (sr_devs rm) res
      | Some occupied \<Rightarrow>
          max (wrap32 (ResourceMaxUnits - fst (heldExcept occupied res (sr_self rm)))) 0)"

datatype Shortage = SlotsTaken int int | UnitsShort int int

definition shortage :: "SlicedRoom \<Rightarrow> Resource \<Rightarrow> int \<Rightarrow> Shortage option" where
  "shortage rm res need =
     (let slots =
        (case sr_occupied rm of
           None \<Rightarrow> None
         | Some occupied \<Rightarrow>
             (let slices = snd (heldExcept occupied res (sr_self rm)) in
              case capabilityOf (sr_devs rm) res of
                None \<Rightarrow> None
              | Some capability \<Rightarrow>
                  if IsLogicallySliceable capability \<and> LogicalSlotsFree capability slices \<le> 0
                  then Some (SlotsTaken slices (ls_Count (as_LogicalSliced capability))) else None))
      in case slots of
           Some why \<Rightarrow> Some why
         | None \<Rightarrow>
             if room_remaining rm res < need then Some (UnitsShort (room_remaining rm res) need) else None)"

definition slicedRoomFor :: "Devices \<Rightarrow> SlicedOccupancy option \<Rightarrow> (Pod \<times> Container) option \<Rightarrow> SlicedRoom" where
  "slicedRoomFor devs occupied who =
     \<lparr>sr_devs = devs, sr_occupied = occupied,
      sr_self = (case who of None \<Rightarrow> key [] [] | Some (pod, ctr) \<Rightarrow> key (pod_UID pod) (ct_Name ctr))\<rparr>"

definition rejectSlicedOvercommit ::
    "Devices \<Rightarrow> Pod \<Rightarrow> Container \<Rightarrow> SlicedOccupancy option \<Rightarrow> CardTokens \<Rightarrow> int \<Rightarrow> (Resource \<times> Shortage) option" where
  "rejectSlicedOvercommit devs pod ctr occupied tokensByCard unitsPerToken =
     (if occupied = None then None
      else let rm = slicedRoomFor devs occupied (Some (pod, ctr)) in
        first_error (\<lambda>res.
            map_option (Pair res)
              (shortage rm res (unitsCharged unitsPerToken (length (map_get tokensByCard res [])))))
          (sort_key Resource_String (map fst tokensByCard)))"

section \<open>Facts about occupancy\<close>

definition slice_units :: "claim list \<Rightarrow> Resource \<Rightarrow> int" where
  "slice_units cs res =
     (\<Sum>c\<leftarrow>filter (\<lambda>c. fst c = res \<and> aa_Mode (snd c) = DeviceAllocationModeSliced) cs. aa_Allocated (snd c))"

text \<open>The sliced claims behind an occupancy, each with its holder, in the order they are added.\<close>

definition occupancy_claims ::
    "decoder \<Rightarrow> bool \<Rightarrow> DevicesReconciler \<Rightarrow> Pod list \<Rightarrow> (ReservationKey \<times> claim) list" where
  "occupancy_claims unmarshal released r pods =
     concat (map (\<lambda>pod. concat (map (\<lambda>name.
       case priorClaimOf unmarshal r pod name of
         None \<Rightarrow> []
       | Some held \<Rightarrow> map (Pair (key (pod_UID pod) name)) (claims_of (heldAllocation released pod (ca_Devices held))))
       (holder_names unmarshal r pod))) pods)"

lemma fold_concat: "fold f (concat xss) = fold (fold f) xss"
  by (induction xss) (auto simp: fun_eq_iff)

lemma fold_map_pair: "fold (\<lambda>(h, c). f h c) (map (Pair h) cs) s = fold (f h) cs s"
  by (induction cs arbitrary: s) auto

lemma slicedOccupancy_claims:
  "slicedOccupancy unmarshal released r pods = fold (\<lambda>(h, c). add_slice h c) (occupancy_claims unmarshal released r pods) []"
proof -
  have "(case priorClaimOf unmarshal r pod name of None \<Rightarrow> occ | Some held \<Rightarrow>
         add_occupancy (key (pod_UID pod) name) (heldAllocation released pod (ca_Devices held)) occ)
     = fold (\<lambda>(h, c). add_slice h c) (case priorClaimOf unmarshal r pod name of None \<Rightarrow> []
       | Some held \<Rightarrow> map (Pair (key (pod_UID pod) name)) (claims_of (heldAllocation released pod (ca_Devices held)))) occ"
    for pod name occ
    by (simp add: add_occupancy_def fold_map_pair split: option.split)
  then show ?thesis
    by (simp add: slicedOccupancy_def occupancy_claims_def fold_concat fold_map comp_def)
qed

definition sliced_on :: "Resource \<Rightarrow> (ReservationKey \<times> claim) \<Rightarrow> bool" where
  "sliced_on res e \<longleftrightarrow> fst (snd e) = res \<and> aa_Mode (snd (snd e)) = DeviceAllocationModeSliced"

definition sum_except :: "ReservationKey \<Rightarrow> (ReservationKey, int) gomap \<Rightarrow> int" where
  "sum_except self m = (\<Sum>(h, u)\<leftarrow>filter (\<lambda>e. fst e \<noteq> self) m. u)"

lemma heldExcept_sum: "fst (heldExcept occupied res self) = wrap32 (sum_except self (map_get occupied res []))"
proof -
  have "fst (fold (\<lambda>(holder, u) (units, slices).
             if holder = self then (units, slices) else (wrap32 (units + u), wrap32 (slices + 1))) m (wrap32 a, b))
    = wrap32 (a + sum_except self m)" for m and a b :: int
  proof (induction m arbitrary: a b)
    case (Cons e m)
    obtain h u where e: "e = (h, u)" by (cases e)
    show ?case using Cons [of a b] Cons [of "a + u" "wrap32 (b + 1)"]
      by (simp add: e sum_except_def wrap32_add_left add.assoc)
  qed (simp add: sum_except_def)
  from this [of "map_get occupied res []" 0 0] show ?thesis by (simp add: heldExcept_def wrap32_id int32_def)
qed

lemma sum_except_put:
  assumes "wf_map m"
  shows "sum_except self (map_put h v m)
    = (if h = self then sum_except self m else sum_except self m - map_get m h 0 + v)"
  using assms
proof (induction h v m rule: map_put.induct)
  case (2 h v h' v' m)
  have "map_of m h = None" if "h' = h" using 2(2) that by (auto simp: wf_map_def map_of_eq_None_iff)
  with 2 show ?case by (auto simp: sum_except_def wf_map_def map_get_def)
qed (simp add: sum_except_def map_get_def)

text \<open>An occupancy built from a list of claims: per card, a map of holders whose values sum the claims.\<close>

definition slices_of :: "(ReservationKey \<times> claim) list \<Rightarrow> SlicedOccupancy \<Rightarrow> bool" where
  "slices_of L occ \<longleftrightarrow> (\<forall>res self. wf_map (map_get occ res [])
     \<and> wrap32 (sum_except self (map_get occ res []))
       = wrap32 (\<Sum>e\<leftarrow>filter (\<lambda>e. sliced_on res e \<and> fst e \<noteq> self) L. aa_Allocated (snd (snd e))))"

lemma wrap32_cong_add: "wrap32 a = wrap32 b \<Longrightarrow> wrap32 (a + c) = wrap32 (b + c)"
  by (metis wrap32_add_left)

lemma slices_of_add:
  assumes "slices_of L occ"
  shows "slices_of (L @ [(h, c)]) (add_slice h c occ)"
proof (cases "aa_Mode (snd c) = DeviceAllocationModeSliced")
  case False
  then show ?thesis using assms by (simp add: slices_of_def add_slice_def sliced_on_def)
next
  case True
  let ?m = "map_get occ (fst c) []"
  let ?v = "wrap32 (map_get ?m h 0 + aa_Allocated (snd c))"
  have wf: "wf_map ?m" and old: "wrap32 (sum_except self (map_get occ res []))
       = wrap32 (\<Sum>e\<leftarrow>filter (\<lambda>e. sliced_on res e \<and> fst e \<noteq> self) L. aa_Allocated (snd (snd e)))" for self res
    using assms by (auto simp: slices_of_def)
  have "wrap32 (sum_except self ?m - map_get ?m h 0 + ?v) = wrap32 (sum_except self ?m + aa_Allocated (snd c))" for self
    unfolding wrap32_add_right by simp
  then have "wrap32 (sum_except self (map_put h ?v ?m)) =
      wrap32 (\<Sum>e\<leftarrow>filter (\<lambda>e. sliced_on (fst c) e \<and> fst e \<noteq> self) (L @ [(h, c)]). aa_Allocated (snd (snd e)))" for self
    using old [of self "fst c"] True wrap32_cong_add [OF old [of self "fst c"]]
    by (simp add: sum_except_put [OF wf] sliced_on_def)
  moreover have "wf_map (map_put h ?v ?m)" using wf by (rule wf_put)
  ultimately show ?thesis
    using assms True by (auto simp: slices_of_def add_slice_def Let_def sliced_on_def)
qed

lemma slicedOccupancy_slices: "slices_of (occupancy_claims unmarshal released r pods) (slicedOccupancy unmarshal released r pods)"
proof -
  have "slices_of (L0 @ L) (fold (\<lambda>(h, c). add_slice h c) L occ)" if "slices_of L0 occ" for L0 L occ
    using that
  proof (induction L arbitrary: L0 occ)
    case (Cons e L)
    obtain h c where e: "e = (h, c)" by (cases e)
    from Cons.IH [OF slices_of_add [OF Cons.prems, of h c]] show ?case by (simp add: e)
  qed simp
  from this [of "[]" "[]"] show ?thesis
    by (simp add: slicedOccupancy_claims slices_of_def wf_map_def sum_except_def)
qed

text \<open>The units one container holds on a card, and what all but one container of the node hold on it.\<close>

definition claimed_units :: "decoder \<Rightarrow> bool \<Rightarrow> DevicesReconciler \<Rightarrow> Resource \<Rightarrow> Pod \<Rightarrow> string \<Rightarrow> int" where
  "claimed_units unmarshal released r res pod name =
     (case priorClaimOf unmarshal r pod name of
        None \<Rightarrow> 0 | Some held \<Rightarrow> slice_units (claims_of (heldAllocation released pod (ca_Devices held))) res)"

definition others_units :: "decoder \<Rightarrow> bool \<Rightarrow> DevicesReconciler \<Rightarrow> Pod list \<Rightarrow> Resource \<Rightarrow> ReservationKey \<Rightarrow> int" where
  "others_units unmarshal released r pods res self =
     (\<Sum>pod\<leftarrow>pods. \<Sum>name \<in> {n \<in> set (holder_names unmarshal r pod). key (pod_UID pod) n \<noteq> self}.
        claimed_units unmarshal released r res pod name)"

definition total_units :: "decoder \<Rightarrow> bool \<Rightarrow> DevicesReconciler \<Rightarrow> Pod list \<Rightarrow> Resource \<Rightarrow> int" where
  "total_units unmarshal released r pods res =
     (\<Sum>pod\<leftarrow>pods. \<Sum>name \<in> set (holder_names unmarshal r pod). claimed_units unmarshal released r res pod name)"

lemma holder_names_distinct: "distinct (holder_names unmarshal r pod)"
  by (simp add: holder_names_def)

lemma sum_filter_claims:
  "(\<Sum>e\<leftarrow>filter (\<lambda>e. sliced_on res e \<and> fst e \<noteq> self) (map (Pair h) cs). aa_Allocated (snd (snd e)))
     = (if h = self then 0 else slice_units cs res)"
  by (induction cs) (auto simp: sliced_on_def slice_units_def)

lemma occupancy_claims_sum:
  "(\<Sum>e\<leftarrow>filter (\<lambda>e. sliced_on res e \<and> fst e \<noteq> self) (occupancy_claims unmarshal released r pods). aa_Allocated (snd (snd e)))
     = others_units unmarshal released r pods res self"
proof -
  let ?entry = "\<lambda>pod name. case priorClaimOf unmarshal r pod name of
         None \<Rightarrow> []
       | Some held \<Rightarrow> map (Pair (key (pod_UID pod) name)) (claims_of (heldAllocation released pod (ca_Devices held)))"
  let ?sum = "\<lambda>L. \<Sum>e\<leftarrow>filter (\<lambda>e. sliced_on res e \<and> fst e \<noteq> self) L. aa_Allocated (snd (snd e))"
  have concat: "?sum (concat Ls) = (\<Sum>L\<leftarrow>Ls. ?sum L)" for Ls by (induction Ls) auto
  have entry: "?sum (?entry pod name) =
      (if key (pod_UID pod) name = self then 0 else claimed_units unmarshal released r res pod name)" for pod name
    by (auto simp: claimed_units_def sum_filter_claims split: option.split)
  have "(\<Sum>name\<leftarrow>holder_names unmarshal r pod. ?sum (?entry pod name)) =
      (\<Sum>name \<in> {n \<in> set (holder_names unmarshal r pod). key (pod_UID pod) n \<noteq> self}.
         claimed_units unmarshal released r res pod name)" for pod
    unfolding entry sum_list_distinct_conv_sum_set [OF holder_names_distinct]
    by (subst sum.inter_filter, simp, rule sum.cong) auto
  then show ?thesis
    by (simp add: occupancy_claims_def concat comp_def others_units_def)
qed

lemma heldExcept_others:
  "fst (heldExcept (slicedOccupancy unmarshal released r pods) res self)
     = wrap32 (others_units unmarshal released r pods res self)"
  using slicedOccupancy_slices [of unmarshal released r pods]
  unfolding heldExcept_sum slices_of_def occupancy_claims_sum by blast

section \<open>Reserving a slice\<close>

lemma priorClaimOf_lookup:
  "priorClaimOf unmarshal r pod c =
     (let unreserved = (case map_of (dr_pendingReleases r) (key (pod_UID pod) c) of
           Some prior \<Rightarrow> prior | None \<Rightarrow> annotated_claim unmarshal pod c)
      in case map_of (dr_reservations r) (key (pod_UID pod) c) of
           Some held \<Rightarrow> if st_Groups (rv_Allocated held) \<noteq> [] then Some (reservation_record held) else unreserved
         | None \<Rightarrow> unreserved)"
  by (simp add: priorClaimOf_def map_of_reservationsFor peekPendingRelease_def)

lemma reserve_fields:
  assumes "wf_key (key u c)" and "st_Groups status \<noteq> []"
  shows "dr_reservations (reserveDevices u c status deviceIDs r)
       = map_put (key u c) \<lparr>rv_Allocated = status, rv_DeviceIDs = deviceIDs\<rparr> (dr_reservations r)"
    and "dr_pendingReleases (reserveDevices u c status deviceIDs r) = dr_pendingReleases r"
  using assms by (simp_all add: reserveDevices_def wf_key_def)

lemma priorClaimOf_reserve:
  assumes "wf_key (key u c)" and "st_Groups status \<noteq> []"
  shows "priorClaimOf unmarshal (reserveDevices u c status deviceIDs r) pod name =
     (if key (pod_UID pod) name = key u c then Some \<lparr>ca_Devices = status, ca_DeviceIDs = deviceIDs\<rparr>
      else priorClaimOf unmarshal r pod name)"
  using assms by (simp add: priorClaimOf_lookup reserve_fields reservation_record_def)

lemma set_holder_names:
  "set (holder_names unmarshal r pod) =
     (case AllocatedAcceleratorsOf unmarshal pod of Inl _ \<Rightarrow> {} | Inr a \<Rightarrow> fst ` set (entries a))
     \<union> {n. key (pod_UID pod) n \<in> fst ` set (dr_reservations r)}"
proof -
  have "n \<in> fst ` set (reservationsFor r u) \<longleftrightarrow> key u n \<in> fst ` set (dr_reservations r)" for n u
    using map_of_eq_None_iff [of "reservationsFor r u" n] map_of_eq_None_iff [of "dr_reservations r" "key u n"]
    by (simp add: map_of_reservationsFor)
  then have "fst ` set (reservationsFor r u) = {n. key u n \<in> fst ` set (dr_reservations r)}" for u by blast
  then show ?thesis by (simp add: holder_names_def split: sum.split)
qed

lemma holders_reserve:
  assumes "wf_key (key u c)" and "st_Groups status \<noteq> []"
  shows "set (holder_names unmarshal (reserveDevices u c status deviceIDs r) pod)
    = set (holder_names unmarshal r pod) \<union> (if pod_UID pod = u then {c} else {})"
  using assms by (auto simp: set_holder_names reserve_fields keys_put)

lemma claimed_reserve:
  assumes "wf_key (key u c)" and "st_Groups status \<noteq> []"
  shows "claimed_units unmarshal released (reserveDevices u c status deviceIDs r) res pod name =
     (if key (pod_UID pod) name = key u c then slice_units (claims_of (heldAllocation released pod status)) res
      else claimed_units unmarshal released r res pod name)"
  using assms by (simp add: claimed_units_def priorClaimOf_reserve)

lemma others_reserve:
  assumes "wf_key (key u c)" and "st_Groups status \<noteq> []"
  shows "others_units unmarshal released (reserveDevices u c status deviceIDs r) pods res (key u c)
    = others_units unmarshal released r pods res (key u c)"
proof -
  have "{n \<in> set (holder_names unmarshal (reserveDevices u c status deviceIDs r) pod). key (pod_UID pod) n \<noteq> key u c}
      = {n \<in> set (holder_names unmarshal r pod). key (pod_UID pod) n \<noteq> key u c}" for pod
    unfolding holders_reserve [OF assms] by auto
  then show ?thesis
    unfolding others_units_def claimed_reserve [OF assms]
    by (intro arg_cong [where f = sum_list] map_cong sum.cong) auto
qed

lemma total_split:
  assumes "distinct (map pod_UID pods)" and "pod \<in> set pods" and "c \<in> set (holder_names unmarshal r pod)"
  shows "total_units unmarshal released r pods res
    = others_units unmarshal released r pods res (key (pod_UID pod) c) + claimed_units unmarshal released r res pod c"
  using assms(1,2)
proof (induction pods)
  case (Cons p pods)
  let ?f = "\<lambda>q. \<Sum>name \<in> set (holder_names unmarshal r q). claimed_units unmarshal released r res q name"
  let ?g = "\<lambda>q. \<Sum>name \<in> {n \<in> set (holder_names unmarshal r q). key (pod_UID q) n \<noteq> key (pod_UID pod) c}.
     claimed_units unmarshal released r res q name"
  have other: "?g q = ?f q" if "pod_UID q \<noteq> pod_UID pod" for q
    using that by (intro sum.cong) auto
  have self: "?f pod = claimed_units unmarshal released r res pod c + ?g pod"
  proof -
    have "{n \<in> set (holder_names unmarshal r pod). key (pod_UID pod) n \<noteq> key (pod_UID pod) c}
        = set (holder_names unmarshal r pod) - {c}" by auto
    then show ?thesis using assms(3) by (simp add: sum.remove)
  qed
  show ?case
  proof (cases "p = pod")
    case True
    then have "pod_UID q \<noteq> pod_UID pod" if "q \<in> set pods" for q
      using Cons.prems(1) imageI [OF that, of pod_UID] by auto
    then have "(\<Sum>q\<leftarrow>pods. ?g q) = (\<Sum>q\<leftarrow>pods. ?f q)"
      by (intro arg_cong [where f = sum_list] map_cong refl other)
    then show ?thesis using self True by (simp add: total_units_def others_units_def)
  next
    case False
    then have "pod \<in> set pods" "pod_UID p \<noteq> pod_UID pod" using Cons.prems by auto
    then show ?thesis using Cons.IH Cons.prems(1) other [of p] by (simp add: total_units_def others_units_def)
  qed
qed simp

definition occupancy_ok :: "decoder \<Rightarrow> bool \<Rightarrow> DevicesReconciler \<Rightarrow> Pod list \<Rightarrow> bool" where
  "occupancy_ok unmarshal released r pods \<longleftrightarrow>
     (\<forall>res. total_units unmarshal released r pods res \<le> ResourceMaxUnits
        \<and> (\<forall>pod \<in> set pods. \<forall>name. 0 \<le> claimed_units unmarshal released r res pod name))"

lemma others_bounds:
  assumes "occupancy_ok unmarshal released r pods"
  shows "0 \<le> others_units unmarshal released r pods res self"
    and "others_units unmarshal released r pods res self \<le> ResourceMaxUnits"
proof -
  have nonneg: "0 \<le> claimed_units unmarshal released r res pod name" if "pod \<in> set pods" for pod name
    using assms that by (auto simp: occupancy_ok_def)
  show "0 \<le> others_units unmarshal released r pods res self"
    unfolding others_units_def by (rule sum_list_nonneg) (auto intro: sum_nonneg nonneg)
  have "others_units unmarshal released r pods res self \<le> total_units unmarshal released r pods res"
    unfolding others_units_def total_units_def
    by (rule sum_list_mono) (auto intro!: sum_mono2 nonneg)
  then show "others_units unmarshal released r pods res self \<le> ResourceMaxUnits"
    using assms by (auto simp: occupancy_ok_def intro: order_trans)
qed

lemma shortage_None_fits:
  assumes "occupancy_ok unmarshal released r pods" and "0 < need"
    and "shortage \<lparr>sr_devs = devs, sr_occupied = Some (slicedOccupancy unmarshal released r pods), sr_self = self\<rparr> res need = None"
  shows "others_units unmarshal released r pods res self + need \<le> ResourceMaxUnits"
proof -
  let ?o = "others_units unmarshal released r pods res self"
  note b = others_bounds [OF assms(1), of res self]
  have "need \<le> max (wrap32 (ResourceMaxUnits - wrap32 ?o)) 0"
    using assms(3)
    by (auto simp: shortage_def room_remaining_def heldExcept_others Let_def split: option.splits if_splits)
  moreover have "wrap32 ?o = ?o" "wrap32 (ResourceMaxUnits - ?o) = ResourceMaxUnits - ?o"
    using b by (simp_all add: wrap32_id int32_def)
  ultimately show ?thesis using assms(2) by simp
qed

lemma reserve_occupancy_ok:
  assumes "occupancy_ok unmarshal released r pods" and "distinct (map pod_UID pods)" and "pod \<in> set pods"
    and "wf_key (key (pod_UID pod) c)" and "st_Groups status \<noteq> []"
    and "\<And>res. 0 \<le> slice_units (claims_of (heldAllocation released pod status)) res"
    and "\<And>res. others_units unmarshal released r pods res (key (pod_UID pod) c)
          + slice_units (claims_of (heldAllocation released pod status)) res \<le> ResourceMaxUnits"
  shows "occupancy_ok unmarshal released (reserveDevices (pod_UID pod) c status deviceIDs r) pods"
proof -
  let ?r = "reserveDevices (pod_UID pod) c status deviceIDs r"
  have "c \<in> set (holder_names unmarshal ?r pod)" by (simp add: holders_reserve [OF assms(4,5)])
  then have "total_units unmarshal released ?r pods res \<le> ResourceMaxUnits" for res
    using total_split [OF assms(2,3), of c unmarshal ?r released res] assms(7) [of res]
    by (simp add: others_reserve [OF assms(4,5)] claimed_reserve [OF assms(4,5)])
  moreover have "0 \<le> claimed_units unmarshal released ?r res q name" if "q \<in> set pods" for res q name
  proof (cases "key (pod_UID q) name = key (pod_UID pod) c")
    case True
    then have "q = pod" using assms(2,3) that by (simp add: distinct_map inj_on_def)
    then show ?thesis using True assms(6) by (simp add: claimed_reserve [OF assms(4,5)])
  next
    case False
    then show ?thesis using assms(1) that unfolding claimed_reserve [OF assms(4,5)] occupancy_ok_def by auto
  qed
  ultimately show ?thesis by (simp add: occupancy_ok_def)
qed

end
