(* ===== verification/Workload_Allocate.thy ===== *)
theory Workload_Allocate
  imports Sliced_Room
begin

text \<open>
  The Allocate call of the device plugin, \<open>pkg/deviceplugin/server.go\<close>: the serialized decision
  (\<open>decideAllocation\<close>: which container, which cards, at what cost, then the reservation), the
  phases after the node's allocate mutex is released (actuating a partition, rendering the response,
  writing the durable record, giving an allocation back), and the visibility call. The vendor
  responders are a record of functions, as the Go interfaces are; what the caches, kubelet and the
  API server answer is collected in one record. Tearing down a partition (the Rollback of the
  actuator) acts on hardware only and leaves no trace in this state. A request carries one container,
  as kubelet sends it: its device IDs. The response of an actuator or of a logical placer is a
  pointer, absent when the vendor leaves it to the general responder.
\<close>

section \<open>Inputs\<close>

record AllocEnv =
  en_knowns :: Knowns
  en_unmarshal :: decoder
  en_marshal :: encoder
  en_released :: bool
  en_kubelet :: kubelet_lister
  en_patch :: api_patch
  en_verifyDevices :: "string + Devices"
  en_getDevices :: "string + Devices"
  en_listVerify :: "string + Pod list"
  en_listPhysical :: "string + Pod list"
  en_listLogical :: "string + Pod list"
  en_listSliced :: "string + Pod list"
  en_listCandidates :: "string + Pod list"

record 'r PhysicalSlicedAllocation =
  ph_Profile :: string
  ph_Placements :: Placements
  ph_IDs :: "(Resource, string) gomap"
  ph_Response :: "'r option"

record 'r PhysicalSlicedResponder =
  pr_Actuate :: "Pod \<Rightarrow> Container \<Rightarrow> Devices \<Rightarrow> (Resource, int) gomap \<Rightarrow> string \<Rightarrow> string + 'r PhysicalSlicedAllocation"
  pr_Visibility :: "Pod \<Rightarrow> Container \<Rightarrow> Devices \<Rightarrow> (Resource, int) gomap \<Rightarrow> string \<Rightarrow> string + 'r"

record 'r LogicalSlicedResponder =
  lr_Place :: "Pod \<Rightarrow> Container \<Rightarrow> Devices \<Rightarrow> (Resource, int) gomap \<Rightarrow> Placements \<Rightarrow> string + Placements"
  lr_Response :: "Pod \<Rightarrow> Container \<Rightarrow> Devices \<Rightarrow> (Resource, int) gomap \<Rightarrow> Placements \<Rightarrow> string + 'r option"

record 'r Responder =
  rp_Allocate :: "Pod \<Rightarrow> Container \<Rightarrow> Devices \<Rightarrow> (Resource, int) gomap \<Rightarrow> string + 'r"
  rp_Physical :: "'r PhysicalSlicedResponder option"
  rp_Logical :: "'r LogicalSlicedResponder option"

datatype CardVerdict =
    ExcludedUnhealthy string
  | ExcludedNoPlacement string string
  | ExcludedOtherMode string DeviceAllocationMode
  | EveryPlacementTaken string "AcceleratorPlacement list"
  | OneInstancePerRequest string

datatype alloc_error =
    UnconfiguredResponder
  | VerifyBeforeAllocation "string + verify_error"
  | InvalidDeviceID string token_error
  | RepeatedSharedCard nat Resource nat
  | GetDevicesFailed string
  | OccupiedFailed string
  | NoAllocatingPod search_error
  | ConflictingReplay string string string
  | NoPartitionProfile string string string
  | NoCardForProfile nat string "CardVerdict list"
  | CrossModeCard Resource DeviceAllocationMode DeviceAllocationMode
  | SlicedOvercommit string string string Resource Shortage
  | PlaceLogicalFailed string
  | CannotActuate string
  | ActuateFailed string
  | LogicalResponseFailed string
  | PersistFailed patch_error
  | ResponderRefused string
  | OwnerUnreadable string string string
  | NoCoAllocation string string string
  | StaleCoAllocation nat nat nat
  | OwnerMissing string
  | CannotNamePartition string string
  | PartitionUnnamed string string string

section \<open>Occupied placements\<close>

definition LivePhysicalOccupied :: "decoder \<Rightarrow> Pod list \<Rightarrow> Placements" where
  "LivePhysicalOccupied unmarshal pods =
     fst (fold (\<lambda>pod acc. case allocatedStatusOf unmarshal pod of
                  Inl _ \<Rightarrow> acc | Inr podStatus \<Rightarrow> accumulatePhysicalOccupied podStatus acc) pods ([], []))"

definition LiveLogicalOccupied :: "decoder \<Rightarrow> bool \<Rightarrow> Pod list \<Rightarrow> Placements" where
  "LiveLogicalOccupied unmarshal released pods =
     fold (\<lambda>pod occupied. case allocatedStatusOf unmarshal pod of
             Inl _ \<Rightarrow> occupied
           | Inr podStatus \<Rightarrow> accumulateLogicalOccupied (heldAllocation released pod podStatus) occupied) pods []"

definition liveDeviceIDs :: "decoder \<Rightarrow> DevicesReconciler \<Rightarrow> Pod list \<Rightarrow> string list" where
  "liveDeviceIDs unmarshal r pods =
     remdups (concat (map (\<lambda>pod. case AllocatedAcceleratorsOf unmarshal pod of
                Inl _ \<Rightarrow> [] | Inr allocations \<Rightarrow> concat (map (\<lambda>(name, ca). ca_DeviceIDs ca) (entries allocations))) pods)
              @ concat (map (\<lambda>(k, v). rv_DeviceIDs v) (dr_reservations r)))"

definition union_placements :: "Placements \<Rightarrow> Placements \<Rightarrow> Placements" where
  "union_placements added occupied =
     fold (\<lambda>(res, placements) occupied. map_put res (map_get occupied res [] @ placements) occupied) added occupied"

definition occupiedPhysicalPlacements :: "decoder \<Rightarrow> DevicesReconciler \<Rightarrow> Pod list \<Rightarrow> Placements" where
  "occupiedPhysicalPlacements unmarshal r pods =
     union_placements (reservedPhysicalOccupied r) (LivePhysicalOccupied unmarshal pods)"

definition occupiedLogicalPlacements :: "decoder \<Rightarrow> bool \<Rightarrow> DevicesReconciler \<Rightarrow> Pod list \<Rightarrow> Placements" where
  "occupiedLogicalPlacements unmarshal released r pods =
     union_placements (reservedLogicalOccupied r) (LiveLogicalOccupied unmarshal released pods)"

section \<open>Cards\<close>

definition cardHeldInOtherMode ::
    "ResourceServer \<Rightarrow> Devices \<Rightarrow> DevicesReconciler \<Rightarrow> Resource \<Rightarrow> DeviceAllocationMode option" where
  "cardHeldInOtherMode s devs r res =
     (let m = statusModeOf devs res in
      if m \<noteq> DeviceAllocationModeNone \<and> m \<noteq> rv_AllocationMode s then Some m
      else let m = fst (reservedModeForResource r (rs_Group res) (rs_Device res)) in
        if m \<noteq> DeviceAllocationModeNone \<and> m \<noteq> rv_AllocationMode s then Some m else None)"

definition rejectCrossModeCards ::
    "ResourceServer \<Rightarrow> Devices \<Rightarrow> DevicesReconciler \<Rightarrow> CardTokens \<Rightarrow> alloc_error option" where
  "rejectCrossModeCards s devs r cardTokens =
     first_error (\<lambda>(res, tokens).
       map_option (\<lambda>mode. CrossModeCard res mode (rv_AllocationMode s)) (cardHeldInOtherMode s devs r res)) cardTokens"

definition rejectRepeatedSharedCards :: "ResourceServer \<Rightarrow> nat \<Rightarrow> CardTokens \<Rightarrow> alloc_error option" where
  "rejectRepeatedSharedCards s requested cardTokens =
     (if rv_AllocationMode s \<noteq> DeviceAllocationModeShared then None
      else case sort_key Resource_String (map fst (filter (\<lambda>(res, tokens). length tokens > 1) cardTokens)) of
        [] \<Rightarrow> None
      | res # _ \<Rightarrow> Some (RepeatedSharedCard requested res (length (map_get cardTokens res []))))"

fun partition_profile :: "Knowns \<Rightarrow> (string, Quantity) gomap \<Rightarrow> string option" where
  "partition_profile kn [] = None"
| "partition_profile kn ((name, q) # limits) =
     (case VendorPartitionedProfileOf kn name of
        Some profile \<Rightarrow> Some profile | None \<Rightarrow> partition_profile kn limits)"

definition partitionProfileOf :: "Knowns \<Rightarrow> Container \<Rightarrow> string option" where
  "partitionProfileOf kn ctr = partition_profile kn (ct_Limits ctr)"

definition profilePlacements :: "AcceleratorPhysicalSlicedProfile list \<Rightarrow> string \<Rightarrow> AcceleratorPlacement list" where
  "profilePlacements profiles profile =
     (case find (\<lambda>p. pp_Name p = profile) profiles of None \<Rightarrow> [] | Some p \<Rightarrow> pp_Placements p)"

type_synonym CandidateState = "PartitionCandidate list \<times> (string, Resource) gomap \<times> CardVerdict list"

definition partition_candidate ::
    "ResourceServer \<Rightarrow> Devices \<Rightarrow> DevicesReconciler \<Rightarrow> Placements \<Rightarrow> string \<Rightarrow> DevicesGroup \<Rightarrow> Accelerator
      \<Rightarrow> CandidateState \<Rightarrow> CandidateState" where
  "partition_candidate s devs r occupied profile grp acc st =
     (case st of (candidates, byID, excluded) \<Rightarrow>
      if \<not> IsPartitioned (ac_Status acc) then st
      else if as_Unhealthy (ac_Status acc) then (candidates, byID, excluded @ [ExcludedUnhealthy (ac_ID acc)])
      else let possible = profilePlacements (ps_Profiles (as_PhysicalSliced (ac_Status acc))) profile in
        if possible = [] then (candidates, byID, excluded @ [ExcludedNoPlacement (ac_ID acc) profile])
        else let res = \<lparr>rs_Group = dg_ID grp, rs_Device = ac_ID acc\<rparr> in
          case cardHeldInOtherMode s devs r res of
            Some mode \<Rightarrow> (candidates, byID, excluded @ [ExcludedOtherMode (ac_ID acc) mode])
          | None \<Rightarrow>
              (candidates @ [\<lparr>cand_ID = Resource_String res, cand_Possible = possible,
                              cand_Occupied = map_get occupied res []\<rparr>],
               map_put (Resource_String res) res byID, excluded))"

definition partitionCandidates ::
    "ResourceServer \<Rightarrow> Devices \<Rightarrow> DevicesReconciler \<Rightarrow> Placements \<Rightarrow> string \<Rightarrow> CandidateState" where
  "partitionCandidates s devs r occupied profile =
     fold (\<lambda>grp st. if dg_Manufacturer grp \<noteq> rv_Manufacturer s then st
                    else fold (partition_candidate s devs r occupied profile grp) (dg_Accelerators grp) st)
       (sp_Groups (dv_Spec devs)) ([], [], [])"

definition zero_Resource :: Resource where
  "zero_Resource = \<lparr>rs_Group = [], rs_Device = []\<rparr>"

definition partitionRefusalDetail :: "CandidateState \<Rightarrow> CardVerdict list" where
  "partitionRefusalDetail st =
     (case st of (candidates, byID, excluded) \<Rightarrow>
       excluded @ map (\<lambda>c. let i = rs_Device (map_get byID (cand_ID c) zero_Resource) in
                        if PartitionCandidateFull c then EveryPlacementTaken i (cand_Occupied c)
                        else OneInstancePerRequest i) candidates)"

section \<open>Units\<close>

definition unitsResourceName :: "Knowns \<Rightarrow> ResourceServer \<Rightarrow> string" where
  "unitsResourceName kn s =
     (case rv_AllocationMode s of
        DeviceAllocationModeSliced \<Rightarrow> GetAcceleratableSlicedUnitsResourceName kn (rv_Manufacturer s)
      | DeviceAllocationModePartitioned \<Rightarrow> GetAcceleratablePartitionedUnitsResourceName kn (rv_Manufacturer s)
      | _ \<Rightarrow> [])"

definition requestedUnits :: "Knowns \<Rightarrow> ResourceServer \<Rightarrow> Container \<Rightarrow> int \<times> bool" where
  "requestedUnits kn s ctr =
     (if unitsResourceName kn s \<noteq> []
      then case limit_value ctr (unitsResourceName kn s) of Some v \<Rightarrow> (v, True) | None \<Rightarrow> (1, False)
      else (1, False))"

definition profile_units :: "ResourceServer \<Rightarrow> string \<Rightarrow> DevicesGroup \<Rightarrow> int list" where
  "profile_units s profile grp =
     (if dg_Manufacturer grp \<noteq> rv_Manufacturer s \<or> dg_Memory grp = 0 then []
      else concat (map (\<lambda>acc.
             if \<not> IsPartitioned (ac_Status acc) then []
             else map (\<lambda>prof. MemoryMibToUnits (pp_MemoryMib prof) (int (dg_Memory grp)))
                    (filter (\<lambda>prof. pp_Name prof = profile \<and> pp_MemoryMib prof > 0)
                      (ps_Profiles (as_PhysicalSliced (ac_Status acc)))))
           (dg_Accelerators grp)))"

definition partitionProfileUnits :: "ResourceServer \<Rightarrow> Devices \<Rightarrow> string \<Rightarrow> int" where
  "partitionProfileUnits s devs profile =
     (case concat (map (profile_units s profile) (sp_Groups (dv_Spec devs))) of [] \<Rightarrow> 0 | u # _ \<Rightarrow> u)"

section \<open>The tokens of a partition\<close>

definition add_index :: "Resource \<Rightarrow> CardTokens \<Rightarrow> CardTokens" where
  "add_index res tokens =
     add_token \<lparr>rt_Resource = res, rt_Index = length (map_get tokens res [])\<rparr> tokens"

definition priorPartitionTokens :: "DevicesStatus \<Rightarrow> CardTokens \<times> Placements" where
  "priorPartitionTokens prior =
     fold (\<lambda>(res, acc) (tokens, placements).
             (add_index res tokens,
              if aa_AllocatedPhysicalProfile acc \<noteq> [] \<and> aa_AllocatedPhysicalPlacements acc \<noteq> []
              then map_put res (aa_AllocatedPhysicalPlacements acc) placements else placements))
       (claims_of prior) ([], [])"

definition partitionTokens :: "PartitionSelection list \<Rightarrow> (string, Resource) gomap \<Rightarrow> CardTokens \<times> Placements" where
  "partitionTokens selections byID =
     fold (\<lambda>sel (tokens, placements).
             let res = map_get byID (sel_ID sel) zero_Resource in
             (add_index res tokens, map_put res (map_get placements res [] @ [sel_Placement sel]) placements))
       selections ([], [])"

definition choosePartitionCards ::
    "AllocEnv \<Rightarrow> ResourceServer \<Rightarrow> DevicesReconciler \<Rightarrow> Devices \<Rightarrow> Pod \<Rightarrow> Container \<Rightarrow> Placements \<Rightarrow> nat
      \<Rightarrow> int \<times> bool \<Rightarrow> alloc_error + (string \<times> CardTokens \<times> Placements \<times> int)" where
  "choosePartitionCards en s r devs pod ctr occupied wanted units =
     (case partitionProfileOf (en_knowns en) ctr of
        None \<Rightarrow> Inl (NoPartitionProfile (pod_Namespace pod) (pod_Name pod) (ct_Name ctr))
      | Some profile \<Rightarrow>
          (let folded = partitionProfileUnits s devs profile;
               unitsPerToken = (if \<not> snd units \<and> folded > 0 then folded else fst units)
           in case priorAllocationOf (en_unmarshal en) r pod (ct_Name ctr) of
                Some prior \<Rightarrow>
                  (let (cardTokens, placements) = priorPartitionTokens prior in
                   Inr (profile, cardTokens, placements, unitsPerToken))
              | None \<Rightarrow>
                  (let st = partitionCandidates s devs r occupied profile in
                   case SelectPartitionPlacements (fst st) (int wanted) of
                     None \<Rightarrow> Inl (NoCardForProfile wanted profile (partitionRefusalDetail st))
                   | Some selections \<Rightarrow>
                       (let (cardTokens, placements) = partitionTokens selections (fst (snd st)) in
                        Inr (profile, cardTokens, placements, unitsPerToken)))))"

section \<open>The serialized decision\<close>

definition list_placements :: "(string + Pod list) \<Rightarrow> (Pod list \<Rightarrow> Placements) \<Rightarrow> alloc_error + Placements" where
  "list_placements listPods f = (case listPods of Inl err \<Rightarrow> Inl (OccupiedFailed err) | Inr pods \<Rightarrow> Inr (f pods))"

definition snapshotForAllocate ::
    "AllocEnv \<Rightarrow> ResourceServer \<Rightarrow> DevicesReconciler \<Rightarrow> bool \<Rightarrow> alloc_error + (Devices \<times> Placements \<times> Placements)" where
  "snapshotForAllocate en s r placesLogical =
     (case en_getDevices en of
        Inl err \<Rightarrow> Inl (GetDevicesFailed err)
      | Inr devs \<Rightarrow>
          (case (if rv_AllocationMode s = DeviceAllocationModePartitioned
                 then list_placements (en_listPhysical en) (occupiedPhysicalPlacements (en_unmarshal en) r)
                 else Inr []) of
             Inl err \<Rightarrow> Inl err
           | Inr occupied \<Rightarrow>
               (case (if placesLogical
                      then list_placements (en_listLogical en)
                             (occupiedLogicalPlacements (en_unmarshal en) (en_released en) r)
                      else Inr []) of
                  Inl err \<Rightarrow> Inl err
                | Inr occupiedLogical \<Rightarrow> Inr (devs, occupied, occupiedLogical))))"

definition slicedOccupancyForAllocate ::
    "AllocEnv \<Rightarrow> ResourceServer \<Rightarrow> DevicesReconciler \<Rightarrow> alloc_error + SlicedOccupancy option" where
  "slicedOccupancyForAllocate en s r =
     (if rv_AllocationMode s \<noteq> DeviceAllocationModeSliced \<or> dr_slicedAllocateGateOff r then Inr None
      else case en_listSliced en of
        Inl err \<Rightarrow> Inl (OccupiedFailed err)
      | Inr pods \<Rightarrow> Inr (Some (slicedOccupancy (en_unmarshal en) (en_released en) r pods)))"

definition candidateFeasible ::
    "Knowns \<Rightarrow> ResourceServer \<Rightarrow> DevicesReconciler \<Rightarrow> Devices \<Rightarrow> CardTokens \<Rightarrow> Placements \<Rightarrow> SlicedOccupancy option
      \<Rightarrow> (Pod \<Rightarrow> Container \<Rightarrow> bool) option" where
  "candidateFeasible kn s r devs accelerators occupied sliced =
     (case rv_AllocationMode s of
        DeviceAllocationModeSliced \<Rightarrow> Some (\<lambda>pod ctr.
          case limit_value ctr (GetAcceleratableSlicedUnitsResourceName kn (rv_Manufacturer s)) of
            None \<Rightarrow> True
          | Some units \<Rightarrow>
              list_all (\<lambda>(res, tokens).
                shortage (slicedRoomFor devs sliced (Some (pod, ctr))) res (unitsCharged units (length tokens)) = None)
                accelerators)
      | DeviceAllocationModePartitioned \<Rightarrow> Some (\<lambda>pod ctr.
          case partitionProfileOf kn ctr of
            None \<Rightarrow> True
          | Some profile \<Rightarrow>
              SelectPartitionPlacements (fst (partitionCandidates s devs r occupied profile)) 1 \<noteq> None)
      | _ \<Rightarrow> None)"

definition priorLogicalPlacements :: "decoder \<Rightarrow> DevicesReconciler \<Rightarrow> Pod \<Rightarrow> string \<Rightarrow> Placements option" where
  "priorLogicalPlacements unmarshal r pod container =
     (case priorAllocationOf unmarshal r pod container of
        None \<Rightarrow> None
      | Some prior \<Rightarrow>
          (let placements = accumulateLogicalOccupied prior [] in
           if placements = [] then None else Some placements))"

definition placeLogicalSlice ::
    "decoder \<Rightarrow> DevicesReconciler \<Rightarrow> 'r LogicalSlicedResponder \<Rightarrow> Pod \<Rightarrow> Container \<Rightarrow> Devices
      \<Rightarrow> (Resource, int) gomap \<Rightarrow> Placements \<Rightarrow> alloc_error + Placements" where
  "placeLogicalSlice unmarshal r placer pod ctr devs allocation occupiedLogical =
     (case priorLogicalPlacements unmarshal r pod (ct_Name ctr) of
        Some prior \<Rightarrow> Inr prior
      | None \<Rightarrow>
          (case lr_Place placer pod ctr devs allocation occupiedLogical of
             Inl err \<Rightarrow> Inl (PlaceLogicalFailed err)
           | Inr placements \<Rightarrow> Inr placements))"

record AllocationDecision =
  dc_Pod :: Pod
  dc_Container :: Container
  dc_Devices :: Devices
  dc_Profile :: string
  dc_Status :: DevicesStatus
  dc_Allocation :: "(Resource, int) gomap"
  dc_LogicalPlacements :: Placements
  dc_PriorClaim :: "ContainerAllocation option"

text \<open>The family's own step: a partition chooses its cards, every other family takes the offered ones.\<close>

definition choose_cards ::
    "AllocEnv \<Rightarrow> ResourceServer \<Rightarrow> DevicesReconciler \<Rightarrow> Devices \<Rightarrow> Pod \<Rightarrow> Container \<Rightarrow> Placements \<Rightarrow> string list
      \<Rightarrow> CardTokens \<Rightarrow> alloc_error + (string \<times> CardTokens \<times> Placements \<times> int)" where
  "choose_cards en s r devs pod ctr occupied deviceIDs tokensByCard =
     (let units = requestedUnits (en_knowns en) s ctr in
      if rv_AllocationMode s = DeviceAllocationModePartitioned
      then choosePartitionCards en s r devs pod ctr occupied (length deviceIDs) units
      else Inr ([], tokensByCard, [], fst units))"

definition conflicting_replay :: "ResourceServer \<Rightarrow> ContainerAllocation option \<Rightarrow> CardTokens \<Rightarrow> bool" where
  "conflicting_replay s prior tokensByCard \<longleftrightarrow>
     (case prior of
        None \<Rightarrow> False
      | Some claim \<Rightarrow> rv_AllocationMode s \<noteq> DeviceAllocationModePartitioned
          \<and> fst ` set (claims_of (ca_Devices claim)) \<noteq> fst ` set tokensByCard)"

definition charge_and_place ::
    "AllocEnv \<Rightarrow> ResourceServer \<Rightarrow> DevicesReconciler \<Rightarrow> 'r LogicalSlicedResponder option \<Rightarrow> Devices \<Rightarrow> Pod
      \<Rightarrow> Container \<Rightarrow> Placements \<Rightarrow> (string \<times> CardTokens \<times> Placements \<times> int)
      \<Rightarrow> alloc_error + (DevicesStatus \<times> (Resource, int) gomap \<times> Placements)" where
  "charge_and_place en s r placer devs pod ctr occupiedLogical choice =
     (case choice of (profile, cardTokens, placements, unitsPerToken) \<Rightarrow>
        (let (status, allocation) = accumulateAllocation s devs cardTokens unitsPerToken in
         case (case placer of
                 None \<Rightarrow> Inr []
               | Some p \<Rightarrow> placeLogicalSlice (en_unmarshal en) r p pod ctr devs allocation occupiedLogical) of
           Inl err \<Rightarrow> Inl err
         | Inr logical \<Rightarrow>
             (let status = (if Option.is_none placer then status else applyLogicalPlacements logical status);
                  status = (if placements = [] then status else applyPhysicalPlacements profile placements [] status)
              in Inr (status, allocation, logical))))"

definition decideAllocation ::
    "AllocEnv \<Rightarrow> ResourceServer \<Rightarrow> 'r LogicalSlicedResponder option \<Rightarrow> KubeletPending option \<Rightarrow> string list
      \<Rightarrow> CardTokens \<Rightarrow> DevicesReconciler \<Rightarrow> (alloc_error + AllocationDecision) \<times> DevicesReconciler" where
  "decideAllocation en s placer kubelet deviceIDs tokensByCard r =
     (case snapshotForAllocate en s r (\<not> Option.is_none placer) of
        Inl err \<Rightarrow> (Inl err, r)
      | Inr (devs, occupied, occupiedLogical) \<Rightarrow>
     (case slicedOccupancyForAllocate en s r of
        Inl err \<Rightarrow> (Inl err, r)
      | Inr sliced \<Rightarrow>
     (case getAllocatingPod r (en_listCandidates en)
             \<lparr>am_ResourceName = ResourceName (en_knowns en) s, am_Quantity = quantity (int (length deviceIDs)),
              am_SkipReserved = True, am_SkipGranted = False,
              am_Feasible = candidateFeasible (en_knowns en) s r devs tokensByCard occupied sliced,
              am_Kubelet = kubelet\<rparr> of
        Inl err \<Rightarrow> (Inl (NoAllocatingPod err), r)
      | Inr (pod, ctr) \<Rightarrow>
     (let prior = priorClaimOf (en_unmarshal en) r pod (ct_Name ctr) in
      if conflicting_replay s prior tokensByCard
      then (Inl (ConflictingReplay (pod_Namespace pod) (pod_Name pod) (ct_Name ctr)), r)
      else
     (case choose_cards en s r devs pod ctr occupied deviceIDs tokensByCard of
        Inl err \<Rightarrow> (Inl err, r)
      | Inr (profile, cardTokens, placements, unitsPerToken) \<Rightarrow>
     (case rejectCrossModeCards s devs r cardTokens of
        Some err \<Rightarrow> (Inl err, r)
      | None \<Rightarrow>
     (case rejectSlicedOvercommit devs pod ctr sliced cardTokens unitsPerToken of
        Some (res, why) \<Rightarrow>
          (Inl (SlicedOvercommit (pod_Namespace pod) (pod_Name pod) (ct_Name ctr) res why), r)
      | None \<Rightarrow>
     (case charge_and_place en s r placer devs pod ctr occupiedLogical (profile, cardTokens, placements, unitsPerToken) of
        Inl err \<Rightarrow> (Inl err, r)
      | Inr (status, allocation, logical) \<Rightarrow>
          (Inr \<lparr>dc_Pod = pod, dc_Container = ctr, dc_Devices = devs, dc_Profile = profile, dc_Status = status,
                dc_Allocation = allocation, dc_LogicalPlacements = logical, dc_PriorClaim = prior\<rparr>,
           reserveDevices (pod_UID pod) (ct_Name ctr) status deviceIDs r)))))))))"

section \<open>After the mutex\<close>

definition actuatePartition ::
    "'r Responder \<Rightarrow> AllocationDecision \<Rightarrow> string list \<Rightarrow> DevicesReconciler
      \<Rightarrow> (alloc_error + ('r PhysicalSlicedAllocation option \<times> AllocationDecision)) \<times> DevicesReconciler" where
  "actuatePartition rp d deviceIDs r =
     (if dc_Profile d = [] then (Inr (None, d), r)
      else case rp_Physical rp of
        None \<Rightarrow> (Inl (CannotActuate (dc_Profile d)), releaseReservation (pod_UID (dc_Pod d)) (ct_Name (dc_Container d)) r)
      | Some actuator \<Rightarrow>
          (case pr_Actuate actuator (dc_Pod d) (dc_Container d) (dc_Devices d) (dc_Allocation d) (dc_Profile d) of
             Inl err \<Rightarrow> (Inl (ActuateFailed err), releaseReservation (pod_UID (dc_Pod d)) (ct_Name (dc_Container d)) r)
           | Inr physical \<Rightarrow>
               (let status = applyPhysicalPlacements (ph_Profile physical) (ph_Placements physical) (ph_IDs physical)
                               (dc_Status d)
                in (Inr (Some physical, d\<lparr>dc_Status := status\<rparr>),
                    reserveDevices (pod_UID (dc_Pod d)) (ct_Name (dc_Container d)) status deviceIDs r))))"

definition renderPrePatchResponse ::
    "AllocationDecision \<Rightarrow> 'r PhysicalSlicedAllocation option \<Rightarrow> 'r LogicalSlicedResponder option \<Rightarrow> DevicesReconciler
      \<Rightarrow> (alloc_error + 'r option) \<times> DevicesReconciler" where
  "renderPrePatchResponse d physical placer r =
     (case physical of
        Some p \<Rightarrow> (Inr (ph_Response p), r)
      | None \<Rightarrow>
          (case placer of
             None \<Rightarrow> (Inr None, r)
           | Some lp \<Rightarrow>
               (case lr_Response lp (dc_Pod d) (dc_Container d) (dc_Devices d) (dc_Allocation d)
                       (dc_LogicalPlacements d) of
                  Inl err \<Rightarrow>
                    (Inl (LogicalResponseFailed err),
                     releaseReservation (pod_UID (dc_Pod d)) (ct_Name (dc_Container d)) r)
                | Inr resp \<Rightarrow> (Inr resp, r))))"

definition persistAllocation ::
    "AllocEnv \<Rightarrow> AllocationDecision \<Rightarrow> string list \<Rightarrow> DevicesReconciler
      \<Rightarrow> alloc_error option \<times> DevicesReconciler" where
  "persistAllocation en d deviceIDs r =
     (case patchAllocatingPod (en_unmarshal en) (en_marshal en) (en_patch en) (dc_Pod d) (ct_Name (dc_Container d))
             (dc_Status d) deviceIDs r of
        (Inr written, r) \<Rightarrow> (None, r)
      | (Inl err, r) \<Rightarrow>
          (Some (PersistFailed err), releaseReservation (pod_UID (dc_Pod d)) (ct_Name (dc_Container d)) r))"

definition releaseAllocation :: "AllocEnv \<Rightarrow> AllocationDecision \<Rightarrow> DevicesReconciler \<Rightarrow> DevicesReconciler" where
  "releaseAllocation en d r =
     (let r = (case dc_PriorClaim d of
          Some prior \<Rightarrow>
            reserveDevices (pod_UID (dc_Pod d)) (ct_Name (dc_Container d)) (ca_Devices prior) (ca_DeviceIDs prior) r
        | None \<Rightarrow> releaseReservation (pod_UID (dc_Pod d)) (ct_Name (dc_Container d)) r)
      in snd (unpatchAllocatingPod (en_unmarshal en) (en_marshal en) (en_patch en) (dc_Pod d)
                (ct_Name (dc_Container d)) (dc_PriorClaim d) r))"

text \<open>The phases after the decision, in the order of \<open>Allocate\<close>.\<close>

definition finish_allocation ::
    "AllocEnv \<Rightarrow> 'r Responder \<Rightarrow> 'r LogicalSlicedResponder option \<Rightarrow> AllocationDecision \<Rightarrow> string list
      \<Rightarrow> DevicesReconciler \<Rightarrow> (alloc_error + 'r) \<times> DevicesReconciler" where
  "finish_allocation en rp placer d deviceIDs r =
     (case actuatePartition rp d deviceIDs r of
        (Inl err, r) \<Rightarrow> (Inl err, r)
      | (Inr (physical, d), r) \<Rightarrow>
     (case renderPrePatchResponse d physical placer r of
        (Inl err, r) \<Rightarrow> (Inl err, r)
      | (Inr ctrResp, r) \<Rightarrow>
     (case persistAllocation en d deviceIDs r of
        (Some err, r) \<Rightarrow> (Inl err, r)
      | (None, r) \<Rightarrow>
     (case ctrResp of
        Some resp \<Rightarrow> (Inr resp, r)
      | None \<Rightarrow>
          (case rp_Allocate rp (dc_Pod d) (dc_Container d) (dc_Devices d) (dc_Allocation d) of
             Inl err \<Rightarrow> (Inl (ResponderRefused err), releaseAllocation en d r)
           | Inr resp \<Rightarrow> (Inr resp, r))))))"

section \<open>Visibility\<close>

definition claimVisibilityContainer ::
    "AllocEnv \<Rightarrow> ResourceServer \<Rightarrow> KubeletPending option \<Rightarrow> nat \<Rightarrow> DevicesReconciler
      \<Rightarrow> (search_error + candidate) \<times> DevicesReconciler" where
  "claimVisibilityContainer en s kubelet wanted r =
     (case getAllocatingPod r (en_listCandidates en)
             \<lparr>am_ResourceName = ResourceName (en_knowns en) s, am_Quantity = quantity (int wanted),
              am_SkipReserved = False, am_SkipGranted = True, am_Feasible = None, am_Kubelet = kubelet\<rparr> of
        Inl err \<Rightarrow> (Inl err, r)
      | Inr (pod, ctr) \<Rightarrow> (Inr (pod, ctr), grantVisibility (pod_UID pod) (ct_Name ctr) r))"

definition coAllocatedAccelerators ::
    "decoder \<Rightarrow> DevicesReconciler \<Rightarrow> Pod \<Rightarrow> string \<Rightarrow> alloc_error + (DevicesStatus \<times> string)" where
  "coAllocatedAccelerators unmarshal r pod self =
     (let annotated =
        (case AllocatedAcceleratorsOf unmarshal pod of
           Inl err \<Rightarrow> Inl (OwnerUnreadable (pod_Namespace pod) (pod_Name pod) err)
         | Inr allocations \<Rightarrow>
             (let owner = pickAcceleratorOwner (map fst (entries allocations)) self [] in
              if owner = [] then Inr (zero_DevicesStatus, [])
              else Inr (ca_Devices (map_get (entries allocations) owner zero_ContainerAllocation), owner)))
      in case reservedAcceleratorDevices r (pod_UID pod) self of
           Some (reserved, owner) \<Rightarrow> if st_Groups reserved \<noteq> [] then Inr (reserved, owner) else annotated
         | None \<Rightarrow> annotated)"

definition validateVisibilityReservation ::
    "Devices \<Rightarrow> DevicesStatus \<Rightarrow> nat \<Rightarrow> alloc_error + (Resource, int) gomap" where
  "validateVisibilityReservation devs reserved requestCount =
     (let present = concat (map (\<lambda>grp. map (\<lambda>acc. \<lparr>rs_Group = dg_ID grp, rs_Device = ac_ID acc\<rparr>) (dg_Accelerators grp))
                       (sp_Groups (dv_Spec devs)));
          reservedCount = length (claims_of reserved);
          allocated = fold (\<lambda>(res, acc) allocated.
                              if res \<in> set present then map_put res (aa_Allocated acc) allocated else allocated)
                        (claims_of reserved) []
      in if length allocated \<noteq> reservedCount \<or> reservedCount \<noteq> requestCount
         then Inl (StaleCoAllocation reservedCount (length allocated) requestCount)
         else Inr allocated)"

definition containerByName :: "Pod \<Rightarrow> string \<Rightarrow> Container option" where
  "containerByName pod name = find (\<lambda>c. ct_Name c = name) (pod_InitContainers pod @ pod_Containers pod)"

definition visibilityResponse ::
    "Knowns \<Rightarrow> 'r Responder \<Rightarrow> Pod \<Rightarrow> Container \<Rightarrow> Devices \<Rightarrow> (Resource, int) gomap \<Rightarrow> string \<Rightarrow> alloc_error + 'r" where
  "visibilityResponse kn rp pod ctr devs allocated owner =
     (case containerByName pod owner of
        None \<Rightarrow> Inl (OwnerMissing owner)
      | Some ownerCtr \<Rightarrow>
          (case partitionProfileOf kn ownerCtr of
             None \<Rightarrow> map_sum ResponderRefused (\<lambda>x. x) (rp_Allocate rp pod ctr devs allocated)
           | Some profile \<Rightarrow>
               (case rp_Physical rp of
                  None \<Rightarrow> Inl (CannotNamePartition profile owner)
                | Some responder \<Rightarrow>
                    map_sum (PartitionUnnamed profile owner) (\<lambda>x. x)
                      (pr_Visibility responder pod ctr devs allocated owner))))"

definition allocateVisibility ::
    "AllocEnv \<Rightarrow> ResourceServer \<Rightarrow> 'r Responder \<Rightarrow> KubeletPending option \<Rightarrow> nat \<Rightarrow> DevicesReconciler
      \<Rightarrow> (alloc_error + 'r) \<times> DevicesReconciler" where
  "allocateVisibility en s rp kubelet wanted r =
     (case claimVisibilityContainer en s kubelet wanted r of
        (Inl err, r) \<Rightarrow> (Inl (NoAllocatingPod err), r)
      | (Inr (pod, ctr), r) \<Rightarrow>
          (let refuse = (\<lambda>err. (Inl err, revokeVisibility (pod_UID pod) (ct_Name ctr) r)) in
           case coAllocatedAccelerators (en_unmarshal en) r pod (ct_Name ctr) of
             Inl err \<Rightarrow> refuse err
           | Inr (reserved, owner) \<Rightarrow>
               if st_Groups reserved = []
               then refuse (NoCoAllocation (pod_Namespace pod) (pod_Name pod) (ct_Name ctr))
               else case en_getDevices en of
                 Inl err \<Rightarrow> refuse (GetDevicesFailed err)
               | Inr devs \<Rightarrow>
                   (case validateVisibilityReservation devs reserved wanted of
                      Inl err \<Rightarrow> refuse err
                    | Inr allocated \<Rightarrow>
                        (case visibilityResponse (en_knowns en) rp pod ctr devs allocated owner of
                           Inl err \<Rightarrow> refuse err
                         | Inr resp \<Rightarrow> (Inr resp, r)))))"

section \<open>Allocate\<close>

definition Allocate ::
    "AllocEnv \<Rightarrow> ResourceServer \<Rightarrow> 'r Responder option \<Rightarrow> string list \<Rightarrow> DevicesReconciler
      \<Rightarrow> (alloc_error + 'r) \<times> DevicesReconciler" where
  "Allocate en s responder requested r =
     (case responder of
        None \<Rightarrow> (Inl UnconfiguredResponder, r)
      | Some rp \<Rightarrow>
     (case verifiedKubeletPending (en_knowns en) (en_unmarshal en) (en_kubelet en) (en_verifyDevices en)
             (en_listVerify en) (ResourceName (en_knowns en) s) of
        Inl err \<Rightarrow> (Inl (VerifyBeforeAllocation err), r)
      | Inr kubelet \<Rightarrow>
          if rv_AllocationMode s = DeviceAllocationModeVisibility
          then allocateVisibility en s rp kubelet (length requested) r
          else
     (let deviceIDs = sort requested in
      case tokens_by_card deviceIDs [] of
        Inl (i, err) \<Rightarrow> (Inl (InvalidDeviceID i err), r)
      | Inr tokensByCard \<Rightarrow>
     (case rejectRepeatedSharedCards s (length deviceIDs) tokensByCard of
        Some err \<Rightarrow> (Inl err, r)
      | None \<Rightarrow>
     (let placer = (if rv_AllocationMode s = DeviceAllocationModeSliced then rp_Logical rp else None) in
      case decideAllocation en s placer kubelet deviceIDs tokensByCard r of
        (Inl err, r) \<Rightarrow> (Inl err, r)
      | (Inr d, r) \<Rightarrow> finish_allocation en rp placer d deviceIDs r)))))"

section \<open>Examples\<close>

definition sample_ids :: "string list" where
  "sample_ids = [''t4:GPU-0:0000'']"

definition sample_whole :: DevicesStatus where
  "sample_whole = fst (accumulateAllocation (sample_server DeviceAllocationModeExclusive) sample_devices sample_tokens 1)"

definition sample_writer :: encoder where
  "sample_writer m = (if m = [(''main'', \<lparr>ca_Devices = sample_whole, ca_DeviceIDs = sample_ids\<rparr>)]
     then Inr ''whole'' else Inl ''unsupported'')"

definition sample_reader :: decoder where
  "sample_reader t = (if t = ''whole'' then Inr (Some [(''main'', \<lparr>ca_Devices = sample_whole, ca_DeviceIDs = sample_ids\<rparr>)])
     else Inl ''invalid'')"

definition sample_env :: "api_patch \<Rightarrow> Pod list \<Rightarrow> AllocEnv" where
  "sample_env patch pods = \<lparr>en_knowns = sample_knowns, en_unmarshal = sample_reader, en_marshal = sample_writer,
     en_released = True, en_kubelet = None, en_patch = patch, en_verifyDevices = Inr sample_devices,
     en_getDevices = Inr sample_devices, en_listVerify = Inr pods, en_listPhysical = Inr pods,
     en_listLogical = Inr pods, en_listSliced = Inr pods, en_listCandidates = Inr pods\<rparr>"

definition sample_responder :: "string + unit \<Rightarrow> unit Responder" where
  "sample_responder answer = \<lparr>rp_Allocate = (\<lambda>_ _ _ _. answer), rp_Physical = None, rp_Logical = None\<rparr>"

definition sample_pods :: "Pod list" where
  "sample_pods = [sample_pending ''a'']"

definition sample_run :: "api_patch \<Rightarrow> string + unit \<Rightarrow> (alloc_error + unit) \<times> DevicesReconciler" where
  "sample_run patch answer =
     (case decideAllocation (sample_env patch sample_pods) (sample_server DeviceAllocationModeExclusive)
             (None :: unit LogicalSlicedResponder option) None sample_ids sample_tokens fresh_reconciler of
        (Inl err, r) \<Rightarrow> (Inl err, r)
      | (Inr d, r) \<Rightarrow> finish_allocation (sample_env patch sample_pods) (sample_responder answer) None d sample_ids r)"

lemma Allocate_decides:
  fixes rp :: "'r Responder"
  assumes "en_kubelet en = None" and "rv_AllocationMode s = DeviceAllocationModeExclusive"
    and "tokens_by_card (sort requested) [] = Inr tokensByCard"
  shows "Allocate en s (Some rp) requested r =
     (case decideAllocation en s (None :: 'r LogicalSlicedResponder option) None (sort requested) tokensByCard r of
        (Inl err, r) \<Rightarrow> (Inl err, r)
      | (Inr d, r) \<Rightarrow> finish_allocation en rp None d (sort requested) r)"
  using assms by (simp add: Allocate_def verifiedKubeletPending_def rejectRepeatedSharedCards_def Let_def)

lemma sample_allocate:
  "Allocate (sample_env patch sample_pods) (sample_server DeviceAllocationModeExclusive) (Some (sample_responder answer))
     sample_ids fresh_reconciler = sample_run patch answer"
proof -
  have sorted: "sort sample_ids = sample_ids" by (simp add: sample_ids_def)
  have env: "en_kubelet (sample_env patch sample_pods) = None"
    "rv_AllocationMode (sample_server DeviceAllocationModeExclusive) = DeviceAllocationModeExclusive"
    "tokens_by_card (sort sample_ids) [] = Inr sample_tokens"
    unfolding sorted by (simp_all add: sample_env_def sample_server_def sample_ids_def sample_tokens_parsed del: tokens_by_card.simps)
  show ?thesis unfolding Allocate_decides [OF env] sorted sample_run_def ..
qed

lemma sample_success: "fst (sample_run accept_all (Inr ())) = Inr ()" by code_simp
lemma sample_refusal: "fst (sample_run accept_all (Inl ''refused'')) = Inl (ResponderRefused ''refused'')" by code_simp
lemma sample_unwritten: "fst (sample_run refuse_all (Inr ())) = Inl (PersistFailed (PatchFailed ''refused''))" by code_simp

text \<open>A node with one container waiting for a logical slice, and one with a container waiting for a
  partition beside a Pod that holds one.\<close>

definition sample_sliced_pod :: Pod where
  "sample_sliced_pod = zero_Pod\<lparr>pod_UID := ''a'', pod_Containers := [zero_Container\<lparr>ct_Name := ''main'', ct_Limits :=
     [(GetAcceleratableResourceName sample_knowns ''nvidia'' DeviceAllocationModeSliced, quantity 1),
      (GetAcceleratableSlicedUnitsResourceName sample_knowns ''nvidia'', quantity 400000)]\<rparr>]\<rparr>"

definition sample_slice :: "(alloc_error + AllocationDecision) \<times> DevicesReconciler" where
  "sample_slice = decideAllocation (sample_env accept_all [sample_sliced_pod]) (sample_server DeviceAllocationModeSliced)
     (None :: unit LogicalSlicedResponder option) None sample_ids sample_tokens fresh_reconciler"

lemma sample_sliced: "\<not> isl (fst sample_slice)" by code_simp

definition sample_partition_pod :: Pod where
  "sample_partition_pod = zero_Pod\<lparr>pod_UID := ''a'', pod_Containers := [zero_Container\<lparr>ct_Name := ''main'', ct_Limits :=
     [(GetAcceleratableResourceName sample_knowns ''nvidia'' DeviceAllocationModePartitioned, quantity 1),
      (''nvidia.com/gpu.partitioned.mig-1g'', quantity 1)]\<rparr>]\<rparr>"

definition sample_partition_env :: AllocEnv where
  "sample_partition_env = (sample_env accept_all [sample_pod ''part'', sample_partition_pod])\<lparr>en_unmarshal := sample_decoder\<rparr>"

definition sample_partition :: "(alloc_error + AllocationDecision) \<times> DevicesReconciler" where
  "sample_partition = decideAllocation sample_partition_env (sample_server DeviceAllocationModePartitioned)
     (None :: unit LogicalSlicedResponder option) None sample_ids sample_tokens fresh_reconciler"

lemma sample_partitioned_at:
  "map_sum (\<lambda>e. ()) (\<lambda>d. map (\<lambda>c. (rs_Device (fst c), aa_AllocatedPhysicalPlacements (snd c))) (claims_of (dc_Status d)))
     (fst sample_partition) = Inr [(''GPU-2'', [\<lparr>pl_Start = 1, pl_Length = 1\<rparr>])]" by code_simp

lemma sample_partition_facts:
  "map_sum (\<lambda>e. ()) (\<lambda>d. (priorAllocationOf sample_decoder fresh_reconciler (dc_Pod d) (ct_Name (dc_Container d)),
       dc_Devices d = sample_devices)) (fst sample_partition) = Inr (None, True)" by code_simp

text \<open>A Pod whose second container may see what the first one holds.\<close>

definition sample_viewed_pod :: Pod where
  "sample_viewed_pod = zero_Pod\<lparr>pod_UID := ''a'', pod_Containers := [zero_Container\<lparr>ct_Name := ''main''\<rparr>,
     zero_Container\<lparr>ct_Name := ''viewer'', ct_Limits :=
       [(GetAcceleratableResourceName sample_knowns ''nvidia'' DeviceAllocationModeVisibility, quantity 1)]\<rparr>]\<rparr>"

definition sample_view :: "(alloc_error + unit) \<times> DevicesReconciler" where
  "sample_view = Allocate (sample_env accept_all [sample_viewed_pod]) (sample_server DeviceAllocationModeVisibility)
     (Some (sample_responder (Inr ()))) sample_ids (reserveDevices ''a'' ''main'' sample_status [] fresh_reconciler)"

lemma sample_viewed: "fst sample_view = Inr ()" by code_simp

end
