(* ===== verification/Allocate_Safety.thy ===== *)
theory Allocate_Safety
  imports Workload_Allocate
begin

text \<open>
  What an Allocate call of \<open>pkg/deviceplugin/server.go\<close> guarantees, over the definitions of
  \<open>Workload_Allocate\<close>: no card is handed out in two modes, logical slices never exceed a card,
  partitions are placed beside what is already occupied, a failed call leaves nothing of its own
  behind, a successful one is recorded in memory and on the Pod, and a visibility grant is exactly its
  owner's cards.
\<close>

section \<open>The shape of a decision\<close>

definition decision_match ::
    "AllocEnv \<Rightarrow> ResourceServer \<Rightarrow> DevicesReconciler \<Rightarrow> KubeletPending option \<Rightarrow> string list \<Rightarrow> CardTokens
      \<Rightarrow> Devices \<Rightarrow> Placements \<Rightarrow> SlicedOccupancy option \<Rightarrow> AllocationMatch" where
  "decision_match en s r kubelet deviceIDs tokensByCard devs occupied sliced =
     \<lparr>am_ResourceName = ResourceName (en_knowns en) s, am_Quantity = quantity (int (length deviceIDs)),
      am_SkipReserved = True, am_SkipGranted = False,
      am_Feasible = candidateFeasible (en_knowns en) s r devs tokensByCard occupied sliced, am_Kubelet = kubelet\<rparr>"

lemma decided:
  assumes "decideAllocation en s placer kubelet deviceIDs tokensByCard r = (Inr d, r')"
  obtains occupied occupiedLogical sliced cardTokens placements u where
    "snapshotForAllocate en s r (\<not> Option.is_none placer) = Inr (dc_Devices d, occupied, occupiedLogical)"
    and "slicedOccupancyForAllocate en s r = Inr sliced"
    and "getAllocatingPod r (en_listCandidates en)
          (decision_match en s r kubelet deviceIDs tokensByCard (dc_Devices d) occupied sliced)
        = Inr (dc_Pod d, dc_Container d)"
    and "dc_PriorClaim d = priorClaimOf (en_unmarshal en) r (dc_Pod d) (ct_Name (dc_Container d))"
    and "\<not> conflicting_replay s (dc_PriorClaim d) tokensByCard"
    and "choose_cards en s r (dc_Devices d) (dc_Pod d) (dc_Container d) occupied deviceIDs tokensByCard
        = Inr (dc_Profile d, cardTokens, placements, u)"
    and "rejectCrossModeCards s (dc_Devices d) r cardTokens = None"
    and "rejectSlicedOvercommit (dc_Devices d) (dc_Pod d) (dc_Container d) sliced cardTokens u = None"
    and "charge_and_place en s r placer (dc_Devices d) (dc_Pod d) (dc_Container d) occupiedLogical
          (dc_Profile d, cardTokens, placements, u) = Inr (dc_Status d, dc_Allocation d, dc_LogicalPlacements d)"
    and "r' = reserveDevices (pod_UID (dc_Pod d)) (ct_Name (dc_Container d)) (dc_Status d) deviceIDs r"
  using assms unfolding decideAllocation_def decision_match_def Let_def
  by (auto split: sum.splits prod.splits if_splits option.splits)

lemma undecided: "decideAllocation en s placer kubelet deviceIDs tokensByCard r = (Inl err, r') \<Longrightarrow> r' = r"
  unfolding decideAllocation_def Let_def
  by (auto split: sum.splits prod.splits if_splits option.splits)

text \<open>The one error that finds the allocation already written.\<close>

definition refused :: "alloc_error \<Rightarrow> bool" where
  "refused err \<longleftrightarrow> (\<exists>e. err = ResponderRefused e)"

lemma first_error_Some: "first_error f xs = Some err \<Longrightarrow> \<exists>x \<in> set xs. f x = Some err"
  by (induction xs) (auto split: option.splits)

lemma early_errors:
  "snapshotForAllocate en s r b = Inl err \<Longrightarrow> \<not> refused err"
  "slicedOccupancyForAllocate en s r = Inl err \<Longrightarrow> \<not> refused err"
  "choose_cards en s r devs pod ctr occupied deviceIDs tokensByCard = Inl err \<Longrightarrow> \<not> refused err"
  "rejectCrossModeCards s devs r cardTokens = Some err \<Longrightarrow> \<not> refused err"
  "charge_and_place en s r placer devs pod ctr occupiedLogical choice = Inl err \<Longrightarrow> \<not> refused err"
  "rejectRepeatedSharedCards s n tokens = Some err \<Longrightarrow> \<not> refused err"
proof -
  show "snapshotForAllocate en s r b = Inl err \<Longrightarrow> \<not> refused err"
    by (auto simp: snapshotForAllocate_def list_placements_def refused_def split: sum.splits if_splits)
  show "slicedOccupancyForAllocate en s r = Inl err \<Longrightarrow> \<not> refused err"
    by (auto simp: slicedOccupancyForAllocate_def refused_def split: sum.splits if_splits)
  show "choose_cards en s r devs pod ctr occupied deviceIDs tokensByCard = Inl err \<Longrightarrow> \<not> refused err"
    by (auto simp: choose_cards_def choosePartitionCards_def refused_def Let_def split: option.splits if_splits prod.splits)
  show "rejectCrossModeCards s devs r cardTokens = Some err \<Longrightarrow> \<not> refused err"
    unfolding rejectCrossModeCards_def by (drule first_error_Some) (auto simp: refused_def split: prod.splits)
  show "charge_and_place en s r placer devs pod ctr occupiedLogical choice = Inl err \<Longrightarrow> \<not> refused err"
    by (auto simp: charge_and_place_def placeLogicalSlice_def refused_def Let_def split: option.splits sum.splits prod.splits)
  show "rejectRepeatedSharedCards s n tokens = Some err \<Longrightarrow> \<not> refused err"
    by (auto simp: rejectRepeatedSharedCards_def refused_def split: if_splits list.splits)
qed

lemma undecided_error:
  assumes "decideAllocation en s placer kubelet deviceIDs tokensByCard r = (Inl err, r')"
  shows "\<not> refused err"
proof -
  have other: "\<not> refused (NoAllocatingPod a)" "\<not> refused (ConflictingReplay b c e)" "\<not> refused (SlicedOvercommit b c e f g)" for a b c e f g
    by (simp_all add: refused_def)
  show ?thesis
    using assms unfolding decideAllocation_def Let_def
    by (auto split: sum.splits prod.splits if_splits option.splits simp: other dest: early_errors(1-5))
qed

lemma chosen_pod:
  assumes "getAllocatingPod r listing match = Inr (pod, ctr)"
  obtains pods where "listing = Inr pods" "pod \<in> set pods" "ctr \<in> set (pod_InitContainers pod @ pod_Containers pod)"
proof -
  obtain pods where pods: "listing = Inr pods"
    using assms by (auto simp: getAllocatingPod_def split: sum.splits)
  have "eligible pods match (pod, ctr)" using assms getAllocatingPod_best(1) unfolding pods by blast
  then have "(pod, ctr) \<in> set (pending_containers pods)" by (simp add: eligible_def)
  then show thesis using pods that by (auto simp: pending_containers_def split: if_splits)
qed

section \<open>What a decision claims\<close>

lemma claims_map_cards:
  assumes "keeps_claim f"
  shows "claims_of (map_cards f status) = map (\<lambda>(res, a). (res, f res a)) (claims_of status)"
proof -
  have "aa_ID (f res a) = aa_ID a" for res a using assms by (simp add: keeps_claim_def)
  then show ?thesis
    by (simp add: claims_of_def map_cards_def map_concat comp_def)
qed

lemma map_cards_groups: "st_Groups (map_cards f status) = [] \<longleftrightarrow> st_Groups status = []"
  by (simp add: map_cards_def)

lemma keeps_logical: "keeps_claim (\<lambda>res acc. case map_of placements res of None \<Rightarrow> acc
    | Some p \<Rightarrow> if p = [] then acc else acc\<lparr>aa_AllocatedLogicalPlacements := p\<rparr>)"
  by (simp add: keeps_claim_def split: option.split)

lemma keeps_physical: "keeps_claim (\<lambda>res acc. case map_of placements res of None \<Rightarrow> acc
    | Some p \<Rightarrow> acc\<lparr>aa_AllocatedPhysicalProfile := profile, aa_AllocatedPhysicalPlacements := p,
                    aa_AllocatedPhysicalID := map_get physicalIDs res []\<rparr>)"
  by (simp add: keeps_claim_def split: option.split)

text \<open>Two records with the same claims up to where a slice or a partition lies.\<close>

definition same_cards :: "DevicesStatus \<Rightarrow> DevicesStatus \<Rightarrow> bool" where
  "same_cards a b \<longleftrightarrow> map (\<lambda>(res, acc). (res, aa_Mode acc, aa_Allocated acc)) (claims_of a)
       = map (\<lambda>(res, acc). (res, aa_Mode acc, aa_Allocated acc)) (claims_of b)
     \<and> (st_Groups a = [] \<longleftrightarrow> st_Groups b = [])"

lemma same_cards_map: "keeps_claim f \<Longrightarrow> same_cards (map_cards f status) status"
  by (auto simp: same_cards_def claims_map_cards map_cards_groups keeps_claim_def)

lemma same_cards_apply:
  "same_cards (applyLogicalPlacements logical status) status"
  "same_cards (applyPhysicalPlacements profile placements physicalIDs status) status"
  unfolding applyLogicalPlacements_def applyPhysicalPlacements_def
  by (rule same_cards_map [OF keeps_logical], rule same_cards_map [OF keeps_physical])

lemma same_cards_refl [simp]: "same_cards a a"
  by (simp add: same_cards_def)

lemma same_cards_trans: "same_cards a b \<Longrightarrow> same_cards b c \<Longrightarrow> same_cards a c"
  by (simp add: same_cards_def)

lemma same_cards_modes:
  assumes "same_cards a b"
  shows "(\<lambda>c. (fst c, aa_Mode (snd c))) ` set (claims_of a) = (\<lambda>c. (fst c, aa_Mode (snd c))) ` set (claims_of b)"
proof -
  have "map (\<lambda>(res, m, n). (res, m)) (map (\<lambda>(res, acc). (res, aa_Mode acc, aa_Allocated acc)) (claims_of a))
      = map (\<lambda>(res, m, n). (res, m)) (map (\<lambda>(res, acc). (res, aa_Mode acc, aa_Allocated acc)) (claims_of b))"
    using assms unfolding same_cards_def by (simp only:)
  then have "map (\<lambda>c. (fst c, aa_Mode (snd c))) (claims_of a) = map (\<lambda>c. (fst c, aa_Mode (snd c))) (claims_of b)"
    by (simp add: comp_def case_prod_unfold)
  then show ?thesis by (metis list.set_map)
qed

lemma charge_same_cards:
  assumes "charge_and_place en s r placer devs pod ctr occupiedLogical (profile, cardTokens, placements, u)
      = Inr (status, allocation, logical)"
  shows "same_cards status (fst (accumulateAllocation s devs cardTokens u))"
    and "allocation = snd (accumulateAllocation s devs cardTokens u)"
proof -
  obtain st al where acc: "accumulateAllocation s devs cardTokens u = (st, al)" by fastforce
  have "same_cards (if Option.is_none placer then st else applyLogicalPlacements l st) st" for l
    by (simp add: same_cards_apply)
  moreover have "same_cards (if placements = [] then x else applyPhysicalPlacements profile placements [] x) x" for x
    by (simp add: same_cards_apply)
  ultimately show "same_cards status (fst (accumulateAllocation s devs cardTokens u))"
    and "allocation = snd (accumulateAllocation s devs cardTokens u)"
    using assms by (auto simp: charge_and_place_def acc Let_def split: sum.splits intro: same_cards_trans)
qed

text \<open>Every card charged is one of the tokens' cards, in the server's mode.\<close>

definition charged_in_mode :: "ResourceServer \<Rightarrow> Accumulated \<Rightarrow> bool" where
  "charged_in_mode s x \<longleftrightarrow> (\<forall>g \<in> set (fst x). \<forall>a \<in> set (ag_Accelerators g). aa_Mode a = rv_AllocationMode s)"

lemma charged_in_mode_card: "charged_in_mode s x \<Longrightarrow> charged_in_mode s (accumulate_card s cardTokens u grp acc x)"
proof (cases x)
  fix gs al assume c: "charged_in_mode s x" and x: "x = (gs, al)"
  have last: "last gs \<in> set gs" if "gs \<noteq> []" using that by simp
  have butlast: "g \<in> set gs" if "g \<in> set (butlast gs)" for g using that by (rule in_set_butlastD)
  show ?thesis
    using c last butlast unfolding x charged_in_mode_def
    by (auto simp: Let_def split: option.splits)
qed

lemma accumulate_mode:
  assumes "c \<in> set (claims_of (fst (accumulateAllocation s devs cardTokens u)))"
  shows "aa_Mode (snd c) = rv_AllocationMode s" and "fst c \<in> fst ` set cardTokens"
proof -
  let ?step = "\<lambda>specGrp acc. if dg_Manufacturer specGrp \<noteq> rv_Manufacturer s then acc
      else fold (accumulate_card s cardTokens u specGrp) (dg_Accelerators specGrp) acc"
  have step: "charged_in_mode s (?step specGrp x)" if "charged_in_mode s x" for specGrp x
    using that by (simp add: fold_preserves [where P = "charged_in_mode s"] charged_in_mode_card)
  have "charged_in_mode s ([], [])" by (simp add: charged_in_mode_def)
  then have "charged_in_mode s (fold ?step (sp_Groups (dv_Spec devs)) ([], []))"
    by (rule fold_preserves [where P = "charged_in_mode s", rotated]) (rule step)
  then show "aa_Mode (snd c) = rv_AllocationMode s"
    using assms by (auto simp: accumulateAllocation_def charged_in_mode_def claims_of_def Let_def split: prod.splits)
  obtain st al where acc: "accumulateAllocation s devs cardTokens u = (st, al)" by fastforce
  show "fst c \<in> fst ` set cardTokens"
    using accumulateAllocation_exact [OF acc] assms by (auto simp: acc)
qed

section \<open>One mode per card\<close>

text \<open>Records that never disagree on the mode of a card they both hold.\<close>

definition modes_agree :: "DevicesStatus \<Rightarrow> DevicesStatus \<Rightarrow> bool" where
  "modes_agree a b \<longleftrightarrow> (\<forall>c \<in> set (claims_of a). \<forall>c' \<in> set (claims_of b).
     fst c = fst c' \<longrightarrow> aa_Mode (snd c) \<noteq> DeviceAllocationModeNone \<longrightarrow> aa_Mode (snd c') \<noteq> DeviceAllocationModeNone
       \<longrightarrow> aa_Mode (snd c) = aa_Mode (snd c'))"

definition mode_exclusive :: "DevicesReconciler \<Rightarrow> bool" where
  "mode_exclusive r \<longleftrightarrow> (\<forall>(k, v) \<in> set (dr_reservations r). \<forall>(k', v') \<in> set (dr_reservations r).
     modes_agree (rv_Allocated v) (rv_Allocated v'))"

lemma modes_agree_sym: "modes_agree a b \<longleftrightarrow> modes_agree b a"
  unfolding modes_agree_def by metis

lemma modes_agree_same:
  assumes "same_cards a a'"
  shows "modes_agree a b \<longleftrightarrow> modes_agree a' b"
proof -
  have alt: "modes_agree x b \<longleftrightarrow> (\<forall>(res, m) \<in> (\<lambda>c. (fst c, aa_Mode (snd c))) ` set (claims_of x). \<forall>c' \<in> set (claims_of b).
     res = fst c' \<longrightarrow> m \<noteq> DeviceAllocationModeNone \<longrightarrow> aa_Mode (snd c') \<noteq> DeviceAllocationModeNone \<longrightarrow> m = aa_Mode (snd c'))" for x
    by (auto simp: modes_agree_def)
  show ?thesis unfolding alt same_cards_modes [OF assms] ..
qed

lemma exclusive_put:
  assumes "wf_map (dr_reservations r)" and "mode_exclusive r" and "modes_agree (rv_Allocated v) (rv_Allocated v)"
    and "\<And>k' v'. map_of (dr_reservations r) k' = Some v' \<Longrightarrow> k' \<noteq> k \<Longrightarrow> modes_agree (rv_Allocated v) (rv_Allocated v')"
    and "wf_map (dr_reservations r')" and "map_of (dr_reservations r') = (map_of (dr_reservations r))(k \<mapsto> v)"
  shows "mode_exclusive r'"
proof -
  have "modes_agree (rv_Allocated w) (rv_Allocated w')"
    if "map_of (dr_reservations r') i = Some w" "map_of (dr_reservations r') j = Some w'" for i j w w'
  proof -
    have old: "modes_agree (rv_Allocated w) (rv_Allocated w')"
      if "map_of (dr_reservations r) i = Some w" "map_of (dr_reservations r) j = Some w'"
      using assms(2) that unfolding mode_exclusive_def wf_map_iff [OF assms(1)] split_beta Ball_def
      by (metis assms(1) fst_conv snd_conv wf_map_iff)
    show ?thesis
      using that old assms(3,4) modes_agree_sym by (auto simp: assms(6) split: if_splits)
  qed
  then show ?thesis
    using wf_map_iff [OF assms(5)] by (auto simp: mode_exclusive_def)
qed

lemma exclusive_subset:
  assumes "mode_exclusive r" and "set (dr_reservations r') \<subseteq> set (dr_reservations r)"
  shows "mode_exclusive r'"
  using assms unfolding mode_exclusive_def by blast

lemma held_mode_cases:
  "(held_mode res st = None \<and> (\<forall>c \<in> set (claims_of st). fst c = res \<longrightarrow> aa_Mode (snd c) = DeviceAllocationModeNone))
   \<or> (\<exists>c \<in> set (claims_of st). fst c = res \<and> aa_Mode (snd c) \<noteq> DeviceAllocationModeNone
        \<and> held_mode res st = Some (aa_Mode (snd c)))"
proof -
  let ?P = "\<lambda>c. fst c = res \<and> aa_Mode (snd c) \<noteq> DeviceAllocationModeNone"
  have "(find ?P cs = None \<and> (\<forall>c \<in> set cs. \<not> ?P c)) \<or> (\<exists>c \<in> set cs. ?P c \<and> find ?P cs = Some c)" for cs :: "claim list"
    by (induction cs) auto
  from this [of "claims_of st"] show ?thesis unfolding held_mode_def by force
qed

lemma reserved_mode_cases:
  "(fst (reserved_mode res m) = DeviceAllocationModeNone
      \<and> (\<forall>k v c. (k, v) \<in> set m \<longrightarrow> c \<in> set (claims_of (rv_Allocated v)) \<longrightarrow> fst c = res
           \<longrightarrow> aa_Mode (snd c) = DeviceAllocationModeNone))
   \<or> (\<exists>k v c. (k, v) \<in> set m \<and> c \<in> set (claims_of (rv_Allocated v)) \<and> fst c = res
        \<and> aa_Mode (snd c) \<noteq> DeviceAllocationModeNone \<and> fst (reserved_mode res m) = aa_Mode (snd c))"
proof (induction m)
  case (Cons e m)
  obtain k v where e: "e = (k, v)" by (cases e)
  show ?case
  proof (cases "held_mode res (rv_Allocated v)")
    case None
    then have "\<forall>c \<in> set (claims_of (rv_Allocated v)). fst c = res \<longrightarrow> aa_Mode (snd c) = DeviceAllocationModeNone"
      and "reserved_mode res (e # m) = reserved_mode res m"
      using held_mode_cases [of res "rv_Allocated v"] by (auto simp: e)
    then show ?thesis using Cons by (simp only: e list.set) (metis insertCI insertE prod.inject)
  next
    case (Some mode)
    then obtain c where "c \<in> set (claims_of (rv_Allocated v))" "fst c = res"
        "aa_Mode (snd c) \<noteq> DeviceAllocationModeNone" "mode = aa_Mode (snd c)"
      using held_mode_cases [of res "rv_Allocated v"] by auto
    then show ?thesis using Some by (intro disjI2 exI [of _ k] exI [of _ v] exI [of _ c]) (simp add: e)
  qed
qed simp

lemma reserved_mode_holder:
  assumes "mode_exclusive r" and "(k, v) \<in> set (dr_reservations r)" and "c \<in> set (claims_of (rv_Allocated v))"
    and "aa_Mode (snd c) \<noteq> DeviceAllocationModeNone"
  shows "fst (reserved_mode (fst c) (dr_reservations r)) = aa_Mode (snd c)"
proof -
  obtain k' v' c' where other: "(k', v') \<in> set (dr_reservations r)" "c' \<in> set (claims_of (rv_Allocated v'))"
      "fst c' = fst c" "aa_Mode (snd c') \<noteq> DeviceAllocationModeNone"
      "fst (reserved_mode (fst c) (dr_reservations r)) = aa_Mode (snd c')"
    using reserved_mode_cases [of "fst c" "dr_reservations r"] assms(2-4) by metis
  have "modes_agree (rv_Allocated v) (rv_Allocated v')"
    using assms(1,2) other(1) unfolding mode_exclusive_def by fastforce
  then show ?thesis
    using assms(3,4) other unfolding modes_agree_def by metis
qed

lemma unheld_agrees:
  assumes "mode_exclusive r" and "rejectCrossModeCards s devs r cardTokens = None"
    and "same_cards status (fst (accumulateAllocation s devs cardTokens u))"
    and "(k, v) \<in> set (dr_reservations r)"
  shows "modes_agree status (rv_Allocated v)"
proof -
  have "aa_Mode (snd c) = aa_Mode (snd c')"
    if c: "c \<in> set (claims_of (fst (accumulateAllocation s devs cardTokens u)))" and c': "c' \<in> set (claims_of (rv_Allocated v))"
      and eq: "fst c = fst c'" and held: "aa_Mode (snd c') \<noteq> DeviceAllocationModeNone" for c c'
  proof -
    note mode = accumulate_mode [OF c]
    obtain ts where "(fst c, ts) \<in> set cardTokens" using mode(2) by auto
    then have "cardHeldInOtherMode s devs r (fst c) = None"
      using assms(2) by (auto simp: rejectCrossModeCards_def first_error_None)
    moreover have "fst (reservedModeForResource r (rs_Group (fst c)) (rs_Device (fst c))) = aa_Mode (snd c')"
      using reserved_mode_holder [OF assms(1,4) c' held] by (cases "fst c'") (simp add: reservedModeForResource_def eq)
    ultimately show ?thesis
      using held mode(1) by (auto simp: cardHeldInOtherMode_def Let_def split: if_splits)
  qed
  then have "modes_agree (fst (accumulateAllocation s devs cardTokens u)) (rv_Allocated v)"
    by (auto simp: modes_agree_def)
  then show ?thesis using modes_agree_same [OF assms(3)] by simp
qed

lemma one_mode_agrees:
  assumes "same_cards a (fst (accumulateAllocation s devs cardTokens u))"
    and "same_cards b (fst (accumulateAllocation s devs cardTokens u))"
  shows "modes_agree a b"
proof -
  let ?x = "fst (accumulateAllocation s devs cardTokens u)"
  have "modes_agree ?x ?x" unfolding modes_agree_def by (simp add: accumulate_mode(1))
  then have "modes_agree a ?x" using modes_agree_same [OF assms(1)] by simp
  then have "modes_agree ?x a" using modes_agree_sym by blast
  then have "modes_agree b a" using modes_agree_same [OF assms(2)] by simp
  then show ?thesis using modes_agree_sym by blast
qed

section \<open>The table after each phase\<close>

abbreviation decision_key :: "AllocationDecision \<Rightarrow> ReservationKey" where
  "decision_key d \<equiv> key (pod_UID (dc_Pod d)) (ct_Name (dc_Container d))"

lemma reserve_lookup:
  "map_of (dr_reservations (reserveDevices u c status deviceIDs r)) =
     (if wf_key (key u c) \<and> st_Groups status \<noteq> []
      then (map_of (dr_reservations r))(key u c \<mapsto> \<lparr>rv_Allocated = status, rv_DeviceIDs = deviceIDs\<rparr>)
      else map_of (dr_reservations r))"
  by (simp add: reserveDevices_def wf_key_def)

lemma reserve_rest [simp]:
  "dr_pendingReleases (reserveDevices u c status deviceIDs r) = dr_pendingReleases r"
  "dr_visibilityGrants (reserveDevices u c status deviceIDs r) = dr_visibilityGrants r"
  by (simp_all add: reserveDevices_def)

lemma release_lookup [simp]:
  "map_of (dr_reservations (releaseReservation u c r)) = (map_of (dr_reservations r))(key u c := None)"
  "dr_pendingReleases (releaseReservation u c r) = dr_pendingReleases r"
  "dr_visibilityGrants (releaseReservation u c r) = dr_visibilityGrants r"
  by (simp_all add: releaseReservation_def)

lemma drop_rest [simp]:
  "dr_reservations (dropPendingRelease u c r) = dr_reservations r"
  "dr_visibilityGrants (dropPendingRelease u c r) = dr_visibilityGrants r"
  by (simp_all add: dropPendingRelease_def)

lemma record_rest [simp]:
  "dr_reservations (recordPendingRelease u c prior r) = dr_reservations r"
  "dr_visibilityGrants (recordPendingRelease u c prior r) = dr_visibilityGrants r"
  "k \<noteq> key u c \<Longrightarrow> map_of (dr_pendingReleases (recordPendingRelease u c prior r)) k = map_of (dr_pendingReleases r) k"
  by (simp_all add: recordPendingRelease_def Let_def)

text \<open>The ways the phases after a decision end.\<close>

lemma finish_cases:
  assumes "finish_allocation en rp placer d deviceIDs r = (res, r')"
  obtains (undone) r1 err where "res = Inl err" and "\<not> refused err"
      and "r1 = r \<or> (\<exists>status. same_cards status (dc_Status d)
             \<and> r1 = reserveDevices (pod_UID (dc_Pod d)) (ct_Name (dc_Container d)) status deviceIDs r)"
      and "r' = releaseReservation (pod_UID (dc_Pod d)) (ct_Name (dc_Container d)) r1"
  | (written) status r1 sent r2 where "same_cards status (dc_Status d)"
      and "r1 = r \<and> status = dc_Status d
           \<or> r1 = reserveDevices (pod_UID (dc_Pod d)) (ct_Name (dc_Container d)) status deviceIDs r"
      and "patchAllocatingPod (en_unmarshal en) (en_marshal en) (en_patch en) (dc_Pod d) (ct_Name (dc_Container d))
             status deviceIDs r1 = (Inr sent, r2)"
      and "(\<exists>resp. res = Inr resp) \<and> r' = r2
           \<or> (\<exists>err. res = Inl (ResponderRefused err)) \<and> r' = releaseAllocation en (d\<lparr>dc_Status := status\<rparr>) r2"
proof -
  obtain ares ra where act: "actuatePartition rp d deviceIDs r = (ares, ra)" by fastforce
  show thesis
  proof (cases ares)
    case (Inl e)
    then have "ra = releaseReservation (pod_UID (dc_Pod d)) (ct_Name (dc_Container d)) r" "\<not> refused e"
      using act by (auto simp: actuatePartition_def refused_def Let_def split: if_splits option.splits sum.splits)
    then show thesis using assms undone [of e r] by (simp add: finish_allocation_def act Inl)
  next
    case (Inr x)
    obtain physical d1 where x: "x = (physical, d1)" by (cases x)
    have d1: "\<exists>status. d1 = d\<lparr>dc_Status := status\<rparr> \<and> same_cards status (dc_Status d)
        \<and> (ra = r \<and> status = dc_Status d
            \<or> ra = reserveDevices (pod_UID (dc_Pod d)) (ct_Name (dc_Container d)) status deviceIDs r)"
      using act by (auto simp: actuatePartition_def Inr x Let_def same_cards_apply
          split: if_splits option.splits sum.splits intro!: exI [of _ "dc_Status d1"])
    then obtain status where d1: "d1 = d\<lparr>dc_Status := status\<rparr>" and st: "same_cards status (dc_Status d)"
      and ra: "ra = r \<and> status = dc_Status d
        \<or> ra = reserveDevices (pod_UID (dc_Pod d)) (ct_Name (dc_Container d)) status deviceIDs r" by blast
    obtain rres rr where ren: "renderPrePatchResponse d1 physical placer ra = (rres, rr)" by fastforce
    show thesis
    proof (cases rres)
      case (Inl e)
      then have "rr = releaseReservation (pod_UID (dc_Pod d)) (ct_Name (dc_Container d)) ra" "\<not> refused e"
        using ren by (auto simp: renderPrePatchResponse_def d1 refused_def split: option.splits sum.splits)
      then show thesis using assms ra st undone [of e ra] by (auto simp: finish_allocation_def act Inr x ren Inl)
    next
      case (Inr resp)
      then have rr: "rr = ra" using ren by (auto simp: renderPrePatchResponse_def split: option.splits sum.splits)
      obtain pres rp2 where pat: "patchAllocatingPod (en_unmarshal en) (en_marshal en) (en_patch en) (dc_Pod d)
          (ct_Name (dc_Container d)) status deviceIDs ra = (pres, rp2)" by fastforce
      show thesis
      proof (cases pres)
        case (Inl e)
        then have "rp2 = ra" using pat by (auto simp: patchAllocatingPod_def split: sum.splits option.splits)
        then have "res = Inl (PersistFailed e)"
          and "r' = releaseReservation (pod_UID (dc_Pod d)) (ct_Name (dc_Container d)) ra"
          using assms by (simp_all add: finish_allocation_def act \<open>ares = Inr x\<close> x ren [unfolded d1] \<open>rres = Inr resp\<close> rr
              persistAllocation_def d1 pat Inl)
        then show thesis using ra st undone [of "PersistFailed e" ra] by (auto simp: refused_def)
      next
        case (Inr sent)
        have "(\<exists>resp. res = Inr resp) \<and> r' = rp2
           \<or> (\<exists>err. res = Inl (ResponderRefused err)) \<and> r' = releaseAllocation en (d\<lparr>dc_Status := status\<rparr>) rp2"
          using assms
          by (auto simp: finish_allocation_def act \<open>ares = Inr x\<close> x ren [unfolded d1] \<open>rres = Inr resp\<close> rr persistAllocation_def
              d1 pat Inr split: option.splits sum.splits)
        then show thesis using written [OF st ra] pat Inr by blast
      qed
    qed
  qed
qed

lemma allocate_cases:
  assumes "Allocate en s responder requested r = (res, r')" and "rv_AllocationMode s \<noteq> DeviceAllocationModeVisibility"
  obtains (early) err where "res = Inl err" and "\<not> refused err" and "r' = r"
  | (decided) rp kubelet tokensByCard placer d r0 where "responder = Some rp"
      and "tokens_by_card (sort requested) [] = Inr tokensByCard"
      and "rejectRepeatedSharedCards s (length (sort requested)) tokensByCard = None"
      and "decideAllocation en s placer kubelet (sort requested) tokensByCard r = (Inr d, r0)"
      and "finish_allocation en rp placer d (sort requested) r0 = (res, r')"
proof (cases responder)
  case None
  then show thesis using assms by (auto simp: Allocate_def refused_def intro!: early)
next
  case (Some rp)
  define placer where "placer = (if rv_AllocationMode s = DeviceAllocationModeSliced then rp_Logical rp else None)"
  show thesis
  proof (cases "verifiedKubeletPending (en_knowns en) (en_unmarshal en) (en_kubelet en) (en_verifyDevices en)
             (en_listVerify en) (ResourceName (en_knowns en) s)")
    case (Inl err)
    then show thesis using assms by (auto simp: Allocate_def Some refused_def intro!: early)
  next
    case (Inr kubelet)
    show thesis
    proof (cases "tokens_by_card (sort requested) []")
      case (Inl e)
      then show thesis using assms Inr by (cases e) (auto simp: Allocate_def Some refused_def intro!: early)
    next
      case toks: (Inr tokensByCard)
      show thesis
      proof (cases "rejectRepeatedSharedCards s (length (sort requested)) tokensByCard")
        case (Some err)
        then show thesis using assms Inr toks early_errors(6) \<open>responder = Some rp\<close>
          by (auto simp: Allocate_def intro!: early)
      next
        case None
        obtain dres r0 where dec: "decideAllocation en s placer kubelet (sort requested) tokensByCard r = (dres, r0)"
          by fastforce
        have fin: "(case dres of Inl err \<Rightarrow> (Inl err, r0) | Inr d \<Rightarrow> finish_allocation en rp placer d (sort requested) r0) = (res, r')"
          using assms None toks Inr dec \<open>responder = Some rp\<close>
          by (auto simp: Allocate_def Let_def placer_def split: sum.splits)
        show thesis
        proof (cases dres)
          case (Inl err)
          then show thesis using undecided [of en s placer kubelet "sort requested" tokensByCard r err r0]
              undecided_error [of en s placer kubelet "sort requested" tokensByCard r err r0] dec fin
            by (auto intro!: early)
        next
          case (Inr d)
          then show thesis using decided \<open>responder = Some rp\<close> toks None dec fin by simp
        qed
      qed
    qed
  qed
qed

lemma releaseAllocation_fields:
  "map_of (dr_reservations (releaseAllocation en d r)) =
     (case dc_PriorClaim d of
        None \<Rightarrow> (map_of (dr_reservations r))(decision_key d := None)
      | Some prior \<Rightarrow>
          if wf_key (decision_key d) \<and> st_Groups (ca_Devices prior) \<noteq> []
          then (map_of (dr_reservations r))(decision_key d \<mapsto>
                 \<lparr>rv_Allocated = ca_Devices prior, rv_DeviceIDs = ca_DeviceIDs prior\<rparr>)
          else map_of (dr_reservations r))"
  "dr_visibilityGrants (releaseAllocation en d r) = dr_visibilityGrants r"
  "k \<noteq> decision_key d \<Longrightarrow> map_of (dr_pendingReleases (releaseAllocation en d r)) k = map_of (dr_pendingReleases r) k"
  "wf_reconciler r \<Longrightarrow> wf_reconciler (releaseAllocation en d r)"
proof -
  define r1 where "r1 = (case dc_PriorClaim d of
      Some prior \<Rightarrow> reserveDevices (pod_UID (dc_Pod d)) (ct_Name (dc_Container d)) (ca_Devices prior) (ca_DeviceIDs prior) r
    | None \<Rightarrow> releaseReservation (pod_UID (dc_Pod d)) (ct_Name (dc_Container d)) r)"
  obtain res r2 where un: "unpatchAllocatingPod (en_unmarshal en) (en_marshal en) (en_patch en) (dc_Pod d)
      (ct_Name (dc_Container d)) (dc_PriorClaim d) r1 = (res, r2)" by fastforce
  have r2: "releaseAllocation en d r = r2" by (simp add: releaseAllocation_def un flip: r1_def)
  have cases: "r2 = r1 \<or> r2 = recordPendingRelease (pod_UID (dc_Pod d)) (ct_Name (dc_Container d)) (dc_PriorClaim d) r1"
    using unpatch_cases [OF un] by blast
  then have "dr_reservations r2 = dr_reservations r1" by auto
  then show "map_of (dr_reservations (releaseAllocation en d r)) =
     (case dc_PriorClaim d of
        None \<Rightarrow> (map_of (dr_reservations r))(decision_key d := None)
      | Some prior \<Rightarrow>
          if wf_key (decision_key d) \<and> st_Groups (ca_Devices prior) \<noteq> []
          then (map_of (dr_reservations r))(decision_key d \<mapsto>
                 \<lparr>rv_Allocated = ca_Devices prior, rv_DeviceIDs = ca_DeviceIDs prior\<rparr>)
          else map_of (dr_reservations r))"
    by (simp add: r2 r1_def reserve_lookup split: option.split)
  show "dr_visibilityGrants (releaseAllocation en d r) = dr_visibilityGrants r"
    using cases by (auto simp: r2 r1_def split: option.split)
  show "map_of (dr_pendingReleases (releaseAllocation en d r)) k = map_of (dr_pendingReleases r) k" if "k \<noteq> decision_key d"
    using cases that by (auto simp: r2 r1_def split: option.split)
  have "wf_reconciler r1" if "wf_reconciler r"
    using that by (simp add: r1_def wf_reserve wf_release split: option.split)
  then show "wf_reconciler (releaseAllocation en d r)" if "wf_reconciler r"
    using cases that by (auto simp: r2 wf_record)
qed

text \<open>After a decision and whatever follows it, the table differs from the one before at the decided
  container only: it holds nothing there, the decided cards, or what the container held before.\<close>

lemma finished_table:
  assumes "decideAllocation en s placer kubelet deviceIDs tokensByCard r = (Inr d, r0)"
    and "finish_allocation en rp placer d deviceIDs r0 = (res, r')"
  shows "wf_reconciler r \<Longrightarrow> wf_reconciler r'"
    and "\<exists>own. map_of (dr_reservations r') = (map_of (dr_reservations r))(decision_key d := own)
      \<and> (own = None \<or> own = map_of (dr_reservations r) (decision_key d)
         \<or> (\<exists>status. own = Some \<lparr>rv_Allocated = status, rv_DeviceIDs = deviceIDs\<rparr> \<and> same_cards status (dc_Status d))
         \<or> (\<exists>prior. dc_PriorClaim d = Some prior
              \<and> own = Some \<lparr>rv_Allocated = ca_Devices prior, rv_DeviceIDs = ca_DeviceIDs prior\<rparr>))"
proof -
  let ?M = "map_of (dr_reservations r)" and ?k = "decision_key d"
  have r0: "r0 = reserveDevices (pod_UID (dc_Pod d)) (ct_Name (dc_Container d)) (dc_Status d) deviceIDs r"
    using assms(1) by (rule decided)
  define at where "at x \<longleftrightarrow> (\<exists>own. map_of (dr_reservations x) = ?M(?k := own)
      \<and> (own = None \<or> own = ?M ?k
         \<or> (\<exists>status. own = Some \<lparr>rv_Allocated = status, rv_DeviceIDs = deviceIDs\<rparr> \<and> same_cards status (dc_Status d))
         \<or> (\<exists>prior. dc_PriorClaim d = Some prior
              \<and> own = Some \<lparr>rv_Allocated = ca_Devices prior, rv_DeviceIDs = ca_DeviceIDs prior\<rparr>)))"
    for x :: DevicesReconciler
  have start: "at r" unfolding at_def by (intro exI [of _ "?M ?k"]) simp
  have res: "at (reserveDevices (pod_UID (dc_Pod d)) (ct_Name (dc_Container d)) status deviceIDs x)"
    if "at x" "same_cards status (dc_Status d)" for x status
    using that unfolding at_def reserve_lookup by (auto intro!: exI [of _ "Some \<lparr>rv_Allocated = status, rv_DeviceIDs = deviceIDs\<rparr>"])
  have rel: "at (releaseReservation (pod_UID (dc_Pod d)) (ct_Name (dc_Container d)) x)" if "at x" for x
    using that unfolding at_def by (auto intro!: exI [of _ None])
  have given_back: "at (releaseAllocation en (d\<lparr>dc_Status := status\<rparr>) x)" if "at x" for x status
    using that unfolding at_def
    by (cases "dc_PriorClaim d") (auto simp: releaseAllocation_fields(1))
  have dropped: "at (dropPendingRelease u c x) = at x" for u c x unfolding at_def drop_rest ..
  have at0: "at r0" by (simp add: r0 res start)
  have "(wf_reconciler r \<longrightarrow> wf_reconciler r') \<and> at r'"
    using assms(2)
  proof (cases rule: finish_cases)
    case (undone r1 err)
    then show ?thesis using res [OF at0] at0 by (auto simp: rel r0 wf_reserve wf_release)
  next
    case (written status r1 sent r2)
    have r1: "at r1" "wf_reconciler r \<longrightarrow> wf_reconciler r1"
      using written(1,2) res [OF at0] at0 by (auto simp: r0 wf_reserve)
    have "r2 = r1 \<or> r2 = dropPendingRelease (pod_UID (dc_Pod d)) (ct_Name (dc_Container d)) r1"
      using patch_cases [OF written(3)] by blast
    then have "at r2" "wf_reconciler r \<longrightarrow> wf_reconciler r2" using r1 by (auto simp: dropped wf_drop)
    with written(4) show ?thesis by (auto simp: given_back releaseAllocation_fields(4))
  qed
  then show "wf_reconciler r \<Longrightarrow> wf_reconciler r'" and "\<exists>own. map_of (dr_reservations r') = ?M(?k := own)
      \<and> (own = None \<or> own = ?M ?k
         \<or> (\<exists>status. own = Some \<lparr>rv_Allocated = status, rv_DeviceIDs = deviceIDs\<rparr> \<and> same_cards status (dc_Status d))
         \<or> (\<exists>prior. dc_PriorClaim d = Some prior
              \<and> own = Some \<lparr>rv_Allocated = ca_Devices prior, rv_DeviceIDs = ca_DeviceIDs prior\<rparr>))"
    by (auto simp: at_def)
qed

lemma visibility_cases:
  assumes "allocateVisibility en s rp kubelet wanted r = (res, r')"
  obtains (unfound) err where "res = Inl (NoAllocatingPod err)" and "r' = r"
  | (refused) pod ctr err where "claimVisibilityContainer en s kubelet wanted r
        = (Inr (pod, ctr), grantVisibility (pod_UID pod) (ct_Name ctr) r)"
      and "res = Inl err" and "r' = revokeVisibility (pod_UID pod) (ct_Name ctr) (grantVisibility (pod_UID pod) (ct_Name ctr) r)"
  | (granted) pod ctr reserved owner devs allocated resp where "claimVisibilityContainer en s kubelet wanted r
        = (Inr (pod, ctr), grantVisibility (pod_UID pod) (ct_Name ctr) r)"
      and "r' = grantVisibility (pod_UID pod) (ct_Name ctr) r"
      and "coAllocatedAccelerators (en_unmarshal en) r' pod (ct_Name ctr) = Inr (reserved, owner)"
      and "st_Groups reserved \<noteq> []" and "en_getDevices en = Inr devs"
      and "validateVisibilityReservation devs reserved wanted = Inr allocated"
      and "visibilityResponse (en_knowns en) rp pod ctr devs allocated owner = Inr resp" and "res = Inr resp"
proof -
  obtain cres rc where claim: "claimVisibilityContainer en s kubelet wanted r = (cres, rc)" by fastforce
  show thesis
  proof (cases cres)
    case (Inl err)
    then have "rc = r" using claim by (auto simp: claimVisibilityContainer_def split: sum.splits)
    then show thesis using assms by (auto simp: allocateVisibility_def claim Inl intro!: unfound)
  next
    case (Inr c)
    obtain pod ctr where c: "c = (pod, ctr)" by (cases c)
    have rc: "rc = grantVisibility (pod_UID pod) (ct_Name ctr) r"
      using claim by (auto simp: claimVisibilityContainer_def Inr c split: sum.splits)
    note claim = claim [unfolded Inr c rc]
    show thesis
      using assms refused [OF claim] granted [OF claim]
      unfolding allocateVisibility_def claim Let_def prod.case sum.case
      by (auto split: sum.splits prod.splits if_splits) (metis+)
  qed
qed

lemma grant_rest [simp]:
  "dr_reservations (grantVisibility u c r) = dr_reservations r"
  "dr_pendingReleases (grantVisibility u c r) = dr_pendingReleases r"
  "dr_reservations (revokeVisibility u c r) = dr_reservations r"
  "dr_pendingReleases (revokeVisibility u c r) = dr_pendingReleases r"
  by (simp_all add: grantVisibility_def revokeVisibility_def)

lemma visibility_rest:
  assumes "allocateVisibility en s rp kubelet wanted r = (res, r')"
  shows "dr_reservations r' = dr_reservations r" and "wf_reconciler r \<Longrightarrow> wf_reconciler r'"
  using assms by (cases rule: visibility_cases; simp add: wf_grant wf_revoke)+

text \<open>What containers already hold agrees with the table on the mode of every card.\<close>

definition held_agree :: "AllocEnv \<Rightarrow> DevicesReconciler \<Rightarrow> bool" where
  "held_agree en r \<longleftrightarrow> (\<forall>pods pod name claim. en_listCandidates en = Inr pods \<longrightarrow> pod \<in> set pods
     \<longrightarrow> priorClaimOf (en_unmarshal en) r pod name = Some claim
     \<longrightarrow> modes_agree (ca_Devices claim) (ca_Devices claim)
        \<and> (\<forall>(k, v) \<in> set (dr_reservations r). modes_agree (ca_Devices claim) (rv_Allocated v)))"

lemma decided_agrees:
  assumes "mode_exclusive r" and "held_agree en r"
    and "decideAllocation en s placer kubelet deviceIDs tokensByCard r = (Inr d, r0)"
  shows "same_cards status (dc_Status d) \<Longrightarrow> modes_agree status status"
    and "same_cards status (dc_Status d) \<Longrightarrow> (k, v) \<in> set (dr_reservations r) \<Longrightarrow> modes_agree status (rv_Allocated v)"
    and "dc_PriorClaim d = Some prior \<Longrightarrow> modes_agree (ca_Devices prior) (ca_Devices prior)"
    and "dc_PriorClaim d = Some prior \<Longrightarrow> (k, v) \<in> set (dr_reservations r) \<Longrightarrow> modes_agree (ca_Devices prior) (rv_Allocated v)"
proof -
  obtain occupied sliced occupiedLogical cardTokens placements u where
      pick: "getAllocatingPod r (en_listCandidates en)
        (decision_match en s r kubelet deviceIDs tokensByCard (dc_Devices d) occupied sliced) = Inr (dc_Pod d, dc_Container d)"
    and prior: "dc_PriorClaim d = priorClaimOf (en_unmarshal en) r (dc_Pod d) (ct_Name (dc_Container d))"
    and cross: "rejectCrossModeCards s (dc_Devices d) r cardTokens = None"
    and placed: "charge_and_place en s r placer (dc_Devices d) (dc_Pod d) (dc_Container d) occupiedLogical
          (dc_Profile d, cardTokens, placements, u) = Inr (dc_Status d, dc_Allocation d, dc_LogicalPlacements d)"
    using assms(3) by (rule decided)
  note same = charge_same_cards(1) [OF placed]
  have trans: "same_cards status (fst (accumulateAllocation s (dc_Devices d) cardTokens u))"
    if "same_cards status (dc_Status d)" for status
    using that same by (rule same_cards_trans)
  show "modes_agree status status" if "same_cards status (dc_Status d)"
    using trans [OF that] by (rule one_mode_agrees) (rule trans [OF that])
  show "modes_agree status (rv_Allocated v)" if "same_cards status (dc_Status d)" "(k, v) \<in> set (dr_reservations r)"
    using assms(1) cross trans [OF that(1)] that(2) by (rule unheld_agrees)
  obtain pods where "en_listCandidates en = Inr pods" "dc_Pod d \<in> set pods" using chosen_pod [OF pick] by metis
  then have "modes_agree (ca_Devices prior) (ca_Devices prior)
      \<and> (\<forall>(k, v) \<in> set (dr_reservations r). modes_agree (ca_Devices prior) (rv_Allocated v))"
    if "dc_PriorClaim d = Some prior"
    using assms(2) prior that unfolding held_agree_def by metis
  then show "dc_PriorClaim d = Some prior \<Longrightarrow> modes_agree (ca_Devices prior) (ca_Devices prior)"
    and "dc_PriorClaim d = Some prior \<Longrightarrow> (k, v) \<in> set (dr_reservations r) \<Longrightarrow> modes_agree (ca_Devices prior) (rv_Allocated v)"
    by auto
qed

lemma exclusive_update:
  assumes "wf_map (dr_reservations r)" and "wf_map (dr_reservations r')" and "mode_exclusive r"
    and "map_of (dr_reservations r') = (map_of (dr_reservations r))(k := own)"
    and "\<And>v. own = Some v \<Longrightarrow> modes_agree (rv_Allocated v) (rv_Allocated v)
        \<and> (\<forall>k' v'. (k', v') \<in> set (dr_reservations r) \<longrightarrow> modes_agree (rv_Allocated v) (rv_Allocated v'))"
  shows "mode_exclusive r'"
proof (cases own)
  case None
  have "(i, w) \<in> set (dr_reservations r)" if "(i, w) \<in> set (dr_reservations r')" for i w
    using that unfolding wf_map_iff [OF assms(1)] wf_map_iff [OF assms(2)] assms(4) None
    by (simp split: if_splits)
  then have "set (dr_reservations r') \<subseteq> set (dr_reservations r)" by (auto simp: subset_eq)
  with assms(3) show ?thesis by (rule exclusive_subset)
next
  case (Some v)
  have other: "modes_agree (rv_Allocated v) (rv_Allocated v')" if "map_of (dr_reservations r) k' = Some v'" for k' v'
    using assms(5) [OF Some] that wf_map_iff [OF assms(1)] by blast
  show ?thesis
    using assms(1,3) assms(5) [OF Some, THEN conjunct1] other assms(2) assms(4) [unfolded Some] by (rule exclusive_put)
qed


lemma sample_shared_table:
  defines "r \<equiv> reserveDevices ''shared'' ''main'' sample_status [] fresh_reconciler"
  shows "dr_reservations r = [(key ''shared'' ''main'', \<lparr>rv_Allocated = sample_status, rv_DeviceIDs = []\<rparr>)]"
    and "wf_reconciler r" and "mode_exclusive r"
proof -
  show table: "dr_reservations r = [(key ''shared'' ''main'', \<lparr>rv_Allocated = sample_status, rv_DeviceIDs = []\<rparr>)]"
    by (simp add: r_def reserveDevices_def sample_status_def initial_runtime_def)
  show "wf_reconciler r" unfolding r_def
    by (rule wf_reserve) (simp add: wf_reconciler_def initial_runtime_def wf_map_def)
  show "mode_exclusive r" by (simp add: mode_exclusive_def table modes_agree_def sample_status_def claims_of_def)
qed


section \<open>Logical slices fit their cards\<close>

lemma distinct_concat_keys:
  assumes "distinct (map f xs)" and "\<And>x. x \<in> set xs \<Longrightarrow> distinct (g x)"
    and "\<And>x y. x \<in> set xs \<Longrightarrow> y \<in> set (g x) \<Longrightarrow> h y = f x"
  shows "distinct (concat (map g xs))"
  using assms
proof (induction xs)
  case (Cons x xs)
  have "set (g x) \<inter> set (g z) = {}" if "z \<in> set xs" for z
  proof -
    have "f z \<noteq> f x" using Cons.prems(1) that by (auto simp: image_iff)
    then show ?thesis using Cons.prems(3) [of x] Cons.prems(3) [of z] that by fastforce
  qed
  then show ?case using Cons by (auto simp: image_iff)
qed simp

lemma charged_once:
  assumes "wf_inventory devs"
  shows "distinct (map fst (claims_of (fst (accumulateAllocation s devs cardTokens u))))"
proof -
  let ?gs = "filter (\<lambda>grp. dg_Manufacturer grp = rv_Manufacturer s) (sp_Groups (dv_Spec devs))"
  let ?cards = "\<lambda>grp. map (\<lambda>a. \<lparr>rs_Group = dg_ID grp, rs_Device = aa_ID a\<rparr>) (card_entries s cardTokens u grp)"
  have ids: "distinct (map dg_ID (sp_Groups (dv_Spec devs)))" using assms by (simp add: wf_inventory_def)
  have "map fst (claims_of (fst (accumulateAllocation s devs cardTokens u))) = concat (map ?cards ?gs)"
    unfolding claims_of_def accumulateAllocation_groups [OF ids] group_entry_def
    by (rule list.induct [of _ ?gs]) simp_all
  moreover have "distinct (concat (map ?cards ?gs))"
  proof (rule distinct_concat_keys)
    show "distinct (map dg_ID ?gs)" using ids by (simp add: distinct_map_filter)
    show "distinct (?cards g)" if "g \<in> set ?gs" for g
    proof -
      have "distinct (map aa_ID (card_entries s cardTokens u g))"
        using assms that by (intro card_entries_ids) (simp add: wf_inventory_def)
      then show ?thesis by (simp add: distinct_map inj_on_def)
    qed
    show "rs_Group y = dg_ID g" if "y \<in> set (?cards g)" for g y using that by auto
  qed
  ultimately show ?thesis by simp
qed

lemma slice_units_charged:
  assumes "wf_inventory devs" and "rv_AllocationMode s = DeviceAllocationModeSliced"
  shows "slice_units (claims_of (fst (accumulateAllocation s devs cardTokens u))) res = 0
    \<or> (\<exists>ts. map_of cardTokens res = Some ts
         \<and> slice_units (claims_of (fst (accumulateAllocation s devs cardTokens u))) res
             = card_units DeviceAllocationModeSliced u (length ts))"
proof -
  let ?cs = "claims_of (fst (accumulateAllocation s devs cardTokens u))"
  have ids: "distinct (map dg_ID (sp_Groups (dv_Spec devs)))" using assms by (simp add: wf_inventory_def)
  have single: "filter (\<lambda>c. fst c = res \<and> P c) cs = [] \<or> (\<exists>c \<in> set cs. fst c = res \<and> filter (\<lambda>c. fst c = res \<and> P c) cs = [c])"
    if "distinct (map fst cs)" for P and cs :: "claim list"
    using that
  proof (induction cs)
    case (Cons c cs)
    then show ?case
      by (cases "fst c = res \<and> P c") (auto simp: filter_empty_conv image_iff)
  qed simp
  show ?thesis
    using single [OF charged_once [OF assms(1)], of "\<lambda>c. aa_Mode (snd c) = DeviceAllocationModeSliced" s cardTokens u]
  proof
    assume "\<exists>c \<in> set ?cs. fst c = res \<and> filter (\<lambda>c. fst c = res \<and> aa_Mode (snd c) = DeviceAllocationModeSliced) ?cs = [c]"
    then obtain c where c: "c \<in> set ?cs" "fst c = res"
        "filter (\<lambda>c. fst c = res \<and> aa_Mode (snd c) = DeviceAllocationModeSliced) ?cs = [c]" by blast
    obtain grp where grp: "snd c \<in> set (card_entries s cardTokens u grp)"
        "fst c = \<lparr>rs_Group = dg_ID grp, rs_Device = aa_ID (snd c)\<rparr>"
      using c(1) by (auto simp: claims_of_def accumulateAllocation_groups [OF ids] group_entry_def split: if_splits)
    obtain acc ts where "acc \<in> set (dg_Accelerators grp)"
      and "map_of cardTokens \<lparr>rs_Group = dg_ID grp, rs_Device = ac_ID acc\<rparr> = Some ts"
      and "snd c = zero_AcceleratorAllocation\<lparr>aa_ID := ac_ID acc, aa_Index := ac_Index acc,
           aa_Mode := rv_AllocationMode s, aa_Allocated := card_units (rv_AllocationMode s) u (length ts)\<rparr>"
      using grp(1) by (rule card_entries_in)
    then show ?thesis using c(2,3) grp(2) assms(2) by (auto simp: slice_units_def)
  qed (simp add: slice_units_def)
qed

lemma slice_units_same:
  assumes "same_cards a b"
  shows "slice_units (claims_of a) res = slice_units (claims_of b) res"
proof -
  let ?f = "\<lambda>(res, acc). (res, aa_Mode acc, aa_Allocated acc)"
  have "slice_units (claims_of x) res =
      (\<Sum>(r, m, n)\<leftarrow>filter (\<lambda>(r, m, n). r = res \<and> m = DeviceAllocationModeSliced) (map ?f (claims_of x)). n)" for x
    unfolding slice_units_def by (rule list.induct [of _ "claims_of x"]) (auto split: prod.split)
  then show ?thesis using assms by (simp only: same_cards_def)
qed

lemma slice_need:
  assumes "0 < u" and "ts \<noteq> []" and "length ts < 2 ^ 32"
  shows "0 < unitsCharged u (length ts)"
    and "card_units DeviceAllocationModeSliced u (length ts) = unitsCharged u (length ts)"
proof -
  have "unitsCharged u (length ts) = min (min u ResourceMaxUnits * int (length ts)) ResourceMaxUnits"
    using assms by (intro unitsCharged_eq) simp_all
  moreover have "0 < min u ResourceMaxUnits * int (length ts)" using assms by simp
  ultimately show "0 < unitsCharged u (length ts)"
    and "card_units DeviceAllocationModeSliced u (length ts) = unitsCharged u (length ts)"
    by (simp_all add: card_units_def)
qed

lemma requestedUnits_pos: "0 < fst (requestedUnits kn s ctr)"
  by (auto simp: requestedUnits_def limit_value_def split: option.splits if_splits)

lemma tokens_by_card_lengths:
  assumes "tokens_by_card deviceIDs tokens = Inr tokens'" and "(res, ts) \<in> set tokens'" and "wf_map tokens"
    and "\<forall>(res, ts) \<in> set tokens. ts \<noteq> [] \<and> length ts \<le> n"
  shows "ts \<noteq> [] \<and> length ts \<le> n + length deviceIDs"
  using assms
proof (induction deviceIDs tokens arbitrary: n rule: tokens_by_card.induct)
  case (2 i deviceIDs tokens)
  obtain t where t: "ParseResourceToken i = Inr t"
    and rest: "tokens_by_card deviceIDs (add_token t tokens) = Inr tokens'"
    using 2(2) by (auto split: sum.splits)
  have wf: "wf_map (add_token t tokens)" using 2(4) by (auto simp: add_token_def)
  have "length (map_get tokens (rt_Resource t) []) \<le> n"
    using 2(5) by (cases "map_of tokens (rt_Resource t)") (auto simp: map_get_def dest: map_of_SomeD)
  then have "\<forall>(res, ts) \<in> set (add_token t tokens). ts \<noteq> [] \<and> length ts \<le> Suc n"
    using 2(4,5) wf unfolding split_beta wf_map_iff [OF wf] Ball_def
    by (auto simp: wf_map_iff add_token_def split: if_splits) (fastforce simp: wf_map_iff)+
  from 2(1) [OF t rest 2(3) wf this] show ?case by simp
qed auto

text \<open>The Pods a cache lists: distinct UIDs, and no empty UID or container name.\<close>

definition wf_pods :: "Pod list \<Rightarrow> bool" where
  "wf_pods pods \<longleftrightarrow> distinct (map pod_UID pods)
     \<and> (\<forall>pod \<in> set pods. pod_UID pod \<noteq> []
          \<and> (\<forall>ctr \<in> set (pod_InitContainers pod @ pod_Containers pod). ct_Name ctr \<noteq> []))"

lemma chosen_key:
  assumes "getAllocatingPod r (Inr pods) match = Inr (pod, ctr)" and "wf_pods pods"
  shows "pod \<in> set pods" and "wf_key (key (pod_UID pod) (ct_Name ctr))" and "\<not> podTerminated pod"
proof -
  have "eligible pods match (pod, ctr)" using assms(1) by (rule getAllocatingPod_best(1))
  then have "(pod, ctr) \<in> set (pending_containers pods)" by (simp add: eligible_def)
  then show "pod \<in> set pods" and "wf_key (key (pod_UID pod) (ct_Name ctr))" and "\<not> podTerminated pod"
    using assms(2) by (auto simp: pending_containers_def wf_pods_def wf_key_def podTerminated_def split: if_splits)
qed

lemma overcommit_None:
  assumes "rejectSlicedOvercommit devs pod ctr (Some occupied) cardTokens u = None" and "map_of cardTokens res = Some ts"
  shows "shortage \<lparr>sr_devs = devs, sr_occupied = Some occupied, sr_self = key (pod_UID pod) (ct_Name ctr)\<rparr> res
           (unitsCharged u (length ts)) = None"
proof -
  have "res \<in> fst ` set cardTokens" using map_of_SomeD [OF assms(2)] by force
  then show ?thesis
    using assms by (auto simp: rejectSlicedOvercommit_def slicedRoomFor_def first_error_None map_get_def Let_def)
qed


lemma sample_node:
  "wf_inventory sample_devices"
  "wf_pods sample_pods" "wf_pods [sample_sliced_pod]"
  by (simp_all add: wf_inventory_def sample_devices_def sample_group_def sample_partitioned_def zero_Accelerator_def wf_pods_def
      sample_pods_def sample_pending_def sample_container_def sample_sliced_pod_def zero_Pod_def)


end
