(* ===== verification/Partition_Decision.thy ===== *)
theory Partition_Decision
  imports Allocate_Safety
begin

text \<open>
  Where a partition is placed: the candidates \<open>partitionCandidates\<close> of \<open>pkg/deviceplugin/server.go\<close>
  builds, the selection of \<open>pkg/device\<close> over them, and the record \<open>decideAllocation\<close> reserves. A fresh
  partition request gets one free, legal interval on each of as many cards as it asked instances for.
\<close>

section \<open>What is occupied\<close>

definition recorded_claims :: "decoder \<Rightarrow> Pod \<Rightarrow> claim list" where
  "recorded_claims unmarshal pod = (case allocatedStatusOf unmarshal pod of Inl _ \<Rightarrow> [] | Inr st \<Rightarrow> claims_of st)"

definition intervals_on :: "Resource \<Rightarrow> claim list \<Rightarrow> AcceleratorPlacement list" where
  "intervals_on res cs = concat (map aa_AllocatedPhysicalPlacements (partition_claims (claims_to res cs)))"

lemma fold_occupy_at: "map_get (fst (fold occupy cs ([], []))) res [] = intervals_on res cs"
  using fold_occupy [of res cs] by (simp add: occupancy_of_def intervals_on_def)

lemma LivePhysicalOccupied_at:
  "map_get (LivePhysicalOccupied unmarshal pods) res [] = intervals_on res (concat (map (recorded_claims unmarshal) pods))"
proof -
  have "(\<lambda>pod acc. case allocatedStatusOf unmarshal pod of Inl _ \<Rightarrow> acc | Inr st \<Rightarrow> accumulatePhysicalOccupied st acc)
      = (\<lambda>pod. fold occupy (recorded_claims unmarshal pod))"
    by (auto simp: fun_eq_iff recorded_claims_def accumulatePhysicalOccupied_def split: sum.split)
  then show ?thesis
    by (simp add: LivePhysicalOccupied_def fold_concat fold_map comp_def flip: fold_occupy_at)
qed

lemma reserved_fold:
  "reservedPhysicalOccupied r = fst (fold occupy (concat (map (\<lambda>(k, v). claims_of (rv_Allocated v)) (dr_reservations r))) ([], []))"
proof -
  have "(\<lambda>(k :: ReservationKey, v :: Reservation). accumulatePhysicalOccupied (rv_Allocated v))
      = fold occupy \<circ> (\<lambda>(k, v). claims_of (rv_Allocated v))"
    by (auto simp: fun_eq_iff accumulatePhysicalOccupied_def)
  then show ?thesis by (simp add: reservedPhysicalOccupied_def fold_concat fold_map)
qed

lemma wf_fold_occupy: "wf_map (fst (fold occupy cs ([], [])))"
proof -
  have "wf_map (fst (occupy c x))" if "wf_map (fst x)" for c x
    using that by (cases c, cases x) (auto simp: Let_def)
  then show ?thesis by (rule fold_preserves [where P = "\<lambda>x. wf_map (fst x)"]) (simp_all add: wf_map_def)
qed

lemma union_at:
  assumes "wf_map added"
  shows "map_get (union_placements added occupied) res [] = map_get occupied res [] @ map_get added res []"
  using assms
proof (induction added arbitrary: occupied)
  case (Cons e added)
  obtain q ps where e: "e = (q, ps)" by (cases e)
  have "map_of added q = None" and wf: "wf_map added"
    using Cons.prems by (auto simp: wf_map_def e map_of_eq_None_iff)
  moreover have "union_placements (e # added) occupied
      = union_placements added (map_put q (map_get occupied q [] @ ps) occupied)"
    by (simp add: union_placements_def e)
  ultimately show ?case
    using Cons.IH [OF wf, of "map_put q (map_get occupied q [] @ ps) occupied"] by (auto simp: e map_get_def)
qed (simp add: union_placements_def)

lemma occupied_at:
  "map_get (occupiedPhysicalPlacements unmarshal r pods) res [] =
     intervals_on res (concat (map (recorded_claims unmarshal) pods))
     @ intervals_on res (concat (map (\<lambda>(k, v). claims_of (rv_Allocated v)) (dr_reservations r)))"
  unfolding occupiedPhysicalPlacements_def reserved_fold union_at [OF wf_fold_occupy] LivePhysicalOccupied_at fold_occupy_at ..

text \<open>An interval of a card that no Pod's record and no reservation overlaps.\<close>

definition free_on :: "decoder \<Rightarrow> DevicesReconciler \<Rightarrow> Pod list \<Rightarrow> Resource \<Rightarrow> AcceleratorPlacement \<Rightarrow> bool" where
  "free_on unmarshal r pods res slot \<longleftrightarrow>
     (\<forall>cs \<in> set (map (recorded_claims unmarshal) pods) \<union> set (map (\<lambda>(k, v). claims_of (rv_Allocated v)) (dr_reservations r)).
        \<forall>acc \<in> set (partition_claims (claims_to res cs)). \<not> placementOverlapsAny slot (aa_AllocatedPhysicalPlacements acc))"

lemma overlaps_concat: "placementOverlapsAny slot (concat pss) \<longleftrightarrow> (\<exists>ps \<in> set pss. placementOverlapsAny slot ps)"
  by (auto simp: placementOverlapsAny_def Let_def)

lemma not_overlapping_free:
  assumes "\<not> placementOverlapsAny slot (map_get (occupiedPhysicalPlacements unmarshal r pods) res [])"
  shows "free_on unmarshal r pods res slot"
proof -
  have split: "set (partition_claims (claims_to res (concat css))) = (\<Union>cs \<in> set css. set (partition_claims (claims_to res cs)))" for css
    by (induction css) (auto simp: partition_claims_def claims_to_def)
  have "\<not> placementOverlapsAny slot (intervals_on res (concat css)) \<longleftrightarrow>
      (\<forall>cs \<in> set css. \<forall>acc \<in> set (partition_claims (claims_to res cs)). \<not> placementOverlapsAny slot (aa_AllocatedPhysicalPlacements acc))" for css
    by (auto simp: intervals_on_def overlaps_concat split)
  then show ?thesis
    using assms unfolding occupied_at placementOverlapsAny_append free_on_def by (auto simp: ball_Un)
qed

section \<open>The candidates\<close>

text \<open>The candidate one card gives, with the card it stands for.\<close>

definition card_candidate ::
    "ResourceServer \<Rightarrow> Devices \<Rightarrow> DevicesReconciler \<Rightarrow> Placements \<Rightarrow> string \<Rightarrow> DevicesGroup \<Rightarrow> Accelerator
      \<Rightarrow> (Resource \<times> PartitionCandidate) list" where
  "card_candidate s devs r occupied profile grp acc =
     (let res = \<lparr>rs_Group = dg_ID grp, rs_Device = ac_ID acc\<rparr>;
          possible = profilePlacements (ps_Profiles (as_PhysicalSliced (ac_Status acc))) profile
      in if IsPartitioned (ac_Status acc) \<and> \<not> as_Unhealthy (ac_Status acc) \<and> possible \<noteq> []
            \<and> cardHeldInOtherMode s devs r res = None
         then [(res, \<lparr>cand_ID = Resource_String res, cand_Possible = possible, cand_Occupied = map_get occupied res []\<rparr>)]
         else [])"

definition node_candidates ::
    "ResourceServer \<Rightarrow> Devices \<Rightarrow> DevicesReconciler \<Rightarrow> Placements \<Rightarrow> string \<Rightarrow> (Resource \<times> PartitionCandidate) list" where
  "node_candidates s devs r occupied profile =
     concat (map (\<lambda>grp. concat (map (card_candidate s devs r occupied profile grp) (dg_Accelerators grp)))
       (filter (\<lambda>grp. dg_Manufacturer grp = rv_Manufacturer s) (sp_Groups (dv_Spec devs))))"

definition index_candidates :: "(Resource \<times> PartitionCandidate) list \<Rightarrow> (string, Resource) gomap \<Rightarrow> (string, Resource) gomap" where
  "index_candidates = fold (\<lambda>(res, c). map_put (cand_ID c) res)"

lemma partition_candidate_step:
  "fst (partition_candidate s devs r occupied profile grp acc st)
     = fst st @ map snd (card_candidate s devs r occupied profile grp acc)"
  "fst (snd (partition_candidate s devs r occupied profile grp acc st))
     = index_candidates (card_candidate s devs r occupied profile grp acc) (fst (snd st))"
  by (auto simp: partition_candidate_def card_candidate_def index_candidates_def Let_def split: prod.splits option.splits)

lemma partitionCandidates_eq:
  "fst (partitionCandidates s devs r occupied profile) = map snd (node_candidates s devs r occupied profile)"
  "fst (snd (partitionCandidates s devs r occupied profile)) = index_candidates (node_candidates s devs r occupied profile) []"
proof -
  let ?cards = "\<lambda>grp. concat (map (card_candidate s devs r occupied profile grp) (dg_Accelerators grp))"
  let ?fold = "\<lambda>grp. fold (partition_candidate s devs r occupied profile grp)"
  have index: "index_candidates (xs @ ys) m = index_candidates ys (index_candidates xs m)" for xs ys m
    by (simp add: index_candidates_def)
  have accs: "fst (?fold grp accs st) = fst st @ map snd (concat (map (card_candidate s devs r occupied profile grp) accs))
      \<and> fst (snd (?fold grp accs st))
        = index_candidates (concat (map (card_candidate s devs r occupied profile grp) accs)) (fst (snd st))" for grp accs st
    by (induction accs arbitrary: st) (simp_all add: partition_candidate_step index, simp add: index_candidates_def)
  let ?step = "\<lambda>grp st. if dg_Manufacturer grp \<noteq> rv_Manufacturer s then st else ?fold grp (dg_Accelerators grp) st"
  let ?all = "\<lambda>gs. concat (map ?cards (filter (\<lambda>grp. dg_Manufacturer grp = rv_Manufacturer s) gs))"
  have "fst (fold ?step gs st) = fst st @ map snd (?all gs)
      \<and> fst (snd (fold ?step gs st)) = index_candidates (?all gs) (fst (snd st))" for gs st
    by (induction gs arbitrary: st) (simp_all add: accs index, simp add: index_candidates_def)
  from this [of "sp_Groups (dv_Spec devs)" "([], [], [])"]
  show "fst (partitionCandidates s devs r occupied profile) = map snd (node_candidates s devs r occupied profile)"
    and "fst (snd (partitionCandidates s devs r occupied profile)) = index_candidates (node_candidates s devs r occupied profile) []"
    by (simp_all add: partitionCandidates_def node_candidates_def)
qed

lemma Resource_String_inj:
  assumes "CHR '':'' \<notin> set (rs_Group a)" and "CHR '':'' \<notin> set (rs_Group b)" and "Resource_String a = Resource_String b"
  shows "a = b"
proof -
  have "Cut (rs_Group a @ CHR '':'' # rs_Device a) CHR '':'' = Cut (rs_Group b @ CHR '':'' # rs_Device b) CHR '':''"
    using assms(3) by (simp add: Resource_String_def)
  then show ?thesis using assms(1,2) by (cases a, cases b) simp
qed

text \<open>Group IDs without the separator of a device token, as the tokens require.\<close>

definition plain_groups :: "Devices \<Rightarrow> bool" where
  "plain_groups devs \<longleftrightarrow> (\<forall>grp \<in> set (sp_Groups (dv_Spec devs)). CHR '':'' \<notin> set (dg_ID grp))"

lemma node_candidates_in:
  assumes "(res, c) \<in> set (node_candidates s devs r occupied profile)"
  obtains grp acc where "grp \<in> set (sp_Groups (dv_Spec devs))" and "dg_Manufacturer grp = rv_Manufacturer s"
    and "acc \<in> set (dg_Accelerators grp)" and "IsPartitioned (ac_Status acc)" and "\<not> as_Unhealthy (ac_Status acc)"
    and "res = \<lparr>rs_Group = dg_ID grp, rs_Device = ac_ID acc\<rparr>"
    and "c = \<lparr>cand_ID = Resource_String res,
          cand_Possible = profilePlacements (ps_Profiles (as_PhysicalSliced (ac_Status acc))) profile,
          cand_Occupied = map_get occupied res []\<rparr>"
  using assms by (auto simp: node_candidates_def card_candidate_def Let_def split: if_splits)

lemma node_candidates_distinct:
  assumes "wf_inventory devs"
  shows "distinct (map fst (node_candidates s devs r occupied profile))"
proof -
  let ?gs = "filter (\<lambda>grp. dg_Manufacturer grp = rv_Manufacturer s) (sp_Groups (dv_Spec devs))"
  let ?f = "\<lambda>grp. map fst (concat (map (card_candidate s devs r occupied profile grp) (dg_Accelerators grp)))"
  have "map fst (node_candidates s devs r occupied profile) = concat (map ?f ?gs)"
    by (simp add: node_candidates_def map_concat comp_def)
  moreover have "distinct (concat (map ?f ?gs))"
  proof (rule distinct_concat_keys)
    show "distinct (map dg_ID ?gs)" using assms by (simp add: wf_inventory_def distinct_map_filter)
    show "rs_Group y = dg_ID g" if "y \<in> set (?f g)" for g y
      using that by (auto simp: card_candidate_def Let_def split: if_splits)
    show "distinct (?f g)" if "g \<in> set ?gs" for g
    proof -
      have "distinct (concat (map (\<lambda>acc. map fst (card_candidate s devs r occupied profile g acc)) (dg_Accelerators g)))"
        by (rule distinct_concat_keys [where f = ac_ID and h = rs_Device])
          (use assms that in \<open>auto simp: wf_inventory_def card_candidate_def Let_def\<close>)
      then show ?thesis by (simp add: map_concat comp_def)
    qed
  qed
  ultimately show ?thesis by simp
qed

lemma index_lookup:
  assumes "\<And>q d. (q, d) \<in> set pairs \<Longrightarrow> cand_ID d = Resource_String q"
    and "\<And>q q' d d'. (q, d) \<in> set pairs \<Longrightarrow> (q', d') \<in> set pairs \<Longrightarrow> Resource_String q = Resource_String q' \<Longrightarrow> q = q'"
    and "(res, c) \<in> set pairs"
  shows "map_of (index_candidates pairs m) (cand_ID c) = Some res"
  using assms
proof (induction pairs rule: rev_induct)
  case (snoc p pairs)
  obtain q d where p: "p = (q, d)" by (cases p)
  have step: "index_candidates (pairs @ [p]) m = map_put (cand_ID d) q (index_candidates pairs m)"
    by (simp add: index_candidates_def p)
  show ?case
  proof (cases "cand_ID c = cand_ID d")
    case True
    then have "q = res" using snoc.prems by (metis in_set_conv_decomp p)
    then show ?thesis using True by (simp add: step)
  next
    case False
    then have mem: "(res, c) \<in> set pairs" using snoc.prems(3) p by auto
    have ids: "cand_ID d' = Resource_String q'" if "(q', d') \<in> set pairs" for q' d'
      using snoc.prems(1) that by simp
    have inj: "a = b" if "(a, x) \<in> set pairs" "(b, y) \<in> set pairs" "Resource_String a = Resource_String b" for a b x y
      using snoc.prems(2) [of a x b y] that by simp
    from snoc.IH [OF ids inj mem] show ?thesis using False by (simp add: step)
  qed
qed simp

section \<open>The selected cards\<close>

text \<open>A selection over distinct cards, as its tokens and its intervals.\<close>

lemma map_put_new: "k \<notin> fst ` set m \<Longrightarrow> map_put k v m = m @ [(k, v)]"
  by (induction m) auto

lemma map_get_absent: "k \<notin> fst ` set m \<Longrightarrow> map_get m k zero = zero"
  by (simp add: map_get_def map_of_eq_None_iff [THEN iffD2])

lemma partitionTokens_distinct:
  assumes "distinct (map (\<lambda>sel. map_get byID (sel_ID sel) zero_Resource) sels)"
  shows "partitionTokens sels byID =
     (map (\<lambda>sel. let res = map_get byID (sel_ID sel) zero_Resource in (res, [\<lparr>rt_Resource = res, rt_Index = 0\<rparr>])) sels,
      map (\<lambda>sel. (map_get byID (sel_ID sel) zero_Resource, [sel_Placement sel])) sels)"
  using assms
proof (induction sels rule: rev_induct)
  case (snoc sel sels)
  let ?res = "map_get byID (sel_ID sel) zero_Resource"
  have new: "?res \<notin> (\<lambda>sel. map_get byID (sel_ID sel) zero_Resource) ` set sels"
    using snoc.prems by auto
  have absent: "map_get (map (\<lambda>sel. (map_get byID (sel_ID sel) zero_Resource, f sel)) sels) ?res [] = []" for f :: "PartitionSelection \<Rightarrow> 'b list"
    using new by (intro map_get_absent) (simp add: image_image)
  show ?case
    using snoc new
    by (simp add: partitionTokens_def Let_def add_index_def add_token_def absent map_put_new image_image)
qed (simp add: partitionTokens_def)

definition selected_cards :: "ResourceServer \<Rightarrow> Devices \<Rightarrow> DevicesReconciler \<Rightarrow> Placements \<Rightarrow> string
    \<Rightarrow> (Resource \<times> AcceleratorPlacement) list \<Rightarrow> bool" where
  "selected_cards s devs r occupied profile picks \<longleftrightarrow> distinct (map fst picks)
     \<and> (\<forall>(res, slot) \<in> set picks. \<exists>c. (res, c) \<in> set (node_candidates s devs r occupied profile)
          \<and> slot \<in> set (cand_Possible c) \<and> \<not> placementOverlapsAny slot (cand_Occupied c))"

lemma selection_cards:
  assumes "wf_inventory devs" and "plain_groups devs"
    and "SelectPartitionPlacements (fst (partitionCandidates s devs r occupied profile)) (int n) = Some sels"
  obtains picks where "selected_cards s devs r occupied profile picks" and "length picks = n"
    and "partitionTokens sels (fst (snd (partitionCandidates s devs r occupied profile)))
        = (map (\<lambda>(res, slot). (res, [\<lparr>rt_Resource = res, rt_Index = 0\<rparr>])) picks,
           map (\<lambda>(res, slot). (res, [slot])) picks)"
proof -
  let ?pairs = "node_candidates s devs r occupied profile"
  let ?cs = "map snd ?pairs"
  let ?byID = "index_candidates ?pairs []"
  obtain idxs where len: "length idxs = n" and sel: "selected ?cs {k. k < length ?cs \<and> \<not> PartitionCandidateFull (?cs ! k)} idxs sels"
    using assms(3) selection_indices [of ?cs "int n" sels] by (auto simp: partitionCandidates_eq)
  define picks where "picks = map (\<lambda>i. (fst (?pairs ! i), the (slot_of (snd (?pairs ! i))))) idxs"
  have idx: "i < length ?pairs" "\<not> PartitionCandidateFull (snd (?pairs ! i))" if "i \<in> set idxs" for i
    using sel that by (auto simp: selected_def)
  have res: "map_get ?byID (cand_ID (snd (?pairs ! i))) zero_Resource = fst (?pairs ! i)" if "i \<in> set idxs" for i
  proof -
    have "q = q'" if "(q, d) \<in> set ?pairs" "(q', d') \<in> set ?pairs" "Resource_String q = Resource_String q'" for q q' d d'
    proof -
      have plain: "CHR '':'' \<notin> set (rs_Group q)" if "(q, d) \<in> set ?pairs" for q d
        using that assms(2) by (elim node_candidates_in) (simp add: plain_groups_def)
      show ?thesis using plain [OF that(1)] plain [OF that(2)] that(3) by (rule Resource_String_inj)
    qed
    moreover have "cand_ID d = Resource_String q" if "(q, d) \<in> set ?pairs" for q d
      using that by (elim node_candidates_in) simp
    moreover have "(fst (?pairs ! i), snd (?pairs ! i)) \<in> set ?pairs" using idx(1) [OF that] by simp
    ultimately show ?thesis
      using index_lookup [of ?pairs "fst (?pairs ! i)" "snd (?pairs ! i)" "[]"] by (simp add: map_get_def)
  qed
  have ids: "map (\<lambda>sel. map_get ?byID (sel_ID sel) zero_Resource) sels = map fst picks"
    using sel idx(1) res by (auto simp: selected_def picks_def)
  have dist: "distinct (map fst picks)"
  proof -
    have "distinct idxs" using sel by (simp add: selected_def)
    moreover have "inj_on ((!) (map fst ?pairs)) (set idxs)"
      using node_candidates_distinct [OF assms(1)] by (rule inj_on_nth) (simp add: idx(1))
    ultimately have "distinct (map ((!) (map fst ?pairs)) idxs)" by (simp add: distinct_map)
    moreover have "map fst picks = map ((!) (map fst ?pairs)) idxs" using idx(1) by (simp add: picks_def)
    ultimately show ?thesis by simp
  qed
  have "selected_cards s devs r occupied profile picks"
  proof -
    have "\<exists>c. (fst (?pairs ! i), c) \<in> set ?pairs \<and> the (slot_of (snd (?pairs ! i))) \<in> set (cand_Possible c)
        \<and> \<not> placementOverlapsAny (the (slot_of (snd (?pairs ! i)))) (cand_Occupied c)" if i: "i \<in> set idxs" for i
    proof -
      obtain slot where "slot_of (snd (?pairs ! i)) = Some slot"
        using idx(2) [OF i] by (auto simp: PartitionCandidateFull_def)
      moreover have "(fst (?pairs ! i), snd (?pairs ! i)) \<in> set ?pairs" using idx(1) [OF i] by simp
      ultimately show ?thesis using lowestFreePlacement_free by (intro exI [of _ "snd (?pairs ! i)"]) simp
    qed
    then show ?thesis using dist by (auto simp: selected_cards_def picks_def)
  qed
  moreover have "partitionTokens sels ?byID
      = (map (\<lambda>(res, slot). (res, [\<lparr>rt_Resource = res, rt_Index = 0\<rparr>])) picks, map (\<lambda>(res, slot). (res, [slot])) picks)"
  proof -
    have sels: "sels = map (\<lambda>i. \<lparr>sel_ID = cand_ID (snd (?pairs ! i)), sel_Placement = the (slot_of (snd (?pairs ! i)))\<rparr>) idxs"
      using sel idx(1) by (auto simp: selected_def)
    show ?thesis
      unfolding partitionTokens_distinct [OF dist [folded ids]]
      unfolding sels picks_def by (simp add: res Let_def)
  qed
  ultimately show thesis using that [of picks] len by (simp add: picks_def partitionCandidates_eq)
qed

section \<open>The reserved record\<close>

lemma charged_all:
  assumes "wf_inventory devs" and "grp \<in> set (sp_Groups (dv_Spec devs))" and "dg_Manufacturer grp = rv_Manufacturer s"
    and "acc \<in> set (dg_Accelerators grp)" and "map_of cardTokens \<lparr>rs_Group = dg_ID grp, rs_Device = ac_ID acc\<rparr> = Some ts"
  shows "\<lparr>rs_Group = dg_ID grp, rs_Device = ac_ID acc\<rparr>
    \<in> fst ` set (claims_of (fst (accumulateAllocation s devs cardTokens u)))"
proof -
  let ?e = "zero_AcceleratorAllocation\<lparr>aa_ID := ac_ID acc, aa_Index := ac_Index acc, aa_Mode := rv_AllocationMode s,
      aa_Allocated := card_units (rv_AllocationMode s) u (length ts)\<rparr>"
  have ids: "distinct (map dg_ID (sp_Groups (dv_Spec devs)))" using assms(1) by (simp add: wf_inventory_def)
  have e: "?e \<in> set (card_entries s cardTokens u grp)"
    using assms(4,5) unfolding card_entries_def by (auto intro!: bexI [of _ acc])
  then have "(\<lparr>rs_Group = dg_ID grp, rs_Device = ac_ID acc\<rparr>, ?e) \<in> set (claims_of (fst (accumulateAllocation s devs cardTokens u)))"
    using assms(2,3) unfolding claims_of_def accumulateAllocation_groups [OF ids] group_entry_def
    by (auto intro!: bexI [of _ grp] image_eqI [of _ _ ?e])
  then show ?thesis by force
qed

lemma selected_charge:
  assumes "wf_inventory devs" and "selected_cards s devs r occupied profile picks"
    and "tokens = map (\<lambda>(res, slot). (res, [\<lparr>rt_Resource = res, rt_Index = 0\<rparr>])) picks"
  shows "fst ` set (claims_of (fst (accumulateAllocation s devs tokens u))) = fst ` set picks"
    and "length (claims_of (fst (accumulateAllocation s devs tokens u))) = length picks"
proof -
  let ?cs = "claims_of (fst (accumulateAllocation s devs tokens u))"
  have keys: "fst ` set tokens = fst ` set picks" by (force simp: assms(3))
  have "res \<in> fst ` set ?cs" if mem: "(res, slot) \<in> set picks" for res slot
  proof -
    obtain c where "(res, c) \<in> set (node_candidates s devs r occupied profile)"
      using assms(2) mem unfolding selected_cards_def by blast
    then obtain grp acc where card: "grp \<in> set (sp_Groups (dv_Spec devs))" "dg_Manufacturer grp = rv_Manufacturer s"
        "acc \<in> set (dg_Accelerators grp)" "res = \<lparr>rs_Group = dg_ID grp, rs_Device = ac_ID acc\<rparr>"
      by (rule node_candidates_in)
    have "res \<in> fst ` set tokens" unfolding keys using mem by force
    then have "map_of tokens res \<noteq> None" by (simp add: map_of_eq_None_iff)
    then obtain ts where "map_of tokens res = Some ts" by blast
    then show ?thesis unfolding card(4) by (rule charged_all [OF assms(1) card(1-3)])
  qed
  then have "fst ` set picks \<subseteq> fst ` set ?cs" by auto
  moreover have "fst ` set ?cs \<subseteq> fst ` set picks" unfolding keys [symmetric] by (auto dest: accumulate_mode(2))
  ultimately show "fst ` set ?cs = fst ` set picks" by (rule equalityI [rotated])
  then have "set (map fst ?cs) = set (map fst picks)" by simp
  then show "length ?cs = length picks"
    using charged_once [OF assms(1)] assms(2) unfolding selected_cards_def by (metis distinct_card length_map)
qed

lemma fresh_choice:
  assumes "choosePartitionCards en s r devs pod ctr occupied n units = Inr (profile, cardTokens, placements, u)"
    and "priorAllocationOf (en_unmarshal en) r pod (ct_Name ctr) = None"
  shows "\<exists>sels. SelectPartitionPlacements (fst (partitionCandidates s devs r occupied profile)) (int n) = Some sels
    \<and> partitionTokens sels (fst (snd (partitionCandidates s devs r occupied profile))) = (cardTokens, placements)"
proof -
  obtain prof where prof: "partitionProfileOf (en_knowns en) ctr = Some prof"
    using assms(1) by (cases "partitionProfileOf (en_knowns en) ctr") (simp_all add: choosePartitionCards_def)
  show ?thesis
    using assms
    by (cases "SelectPartitionPlacements (fst (partitionCandidates s devs r occupied prof)) (int n)")
      (auto simp: choosePartitionCards_def prof Let_def split: prod.splits)
qed

text \<open>A fresh partition request, decided against a given table and the Pods of the node.\<close>

definition placed_legally ::
    "ResourceServer \<Rightarrow> Devices \<Rightarrow> decoder \<Rightarrow> DevicesReconciler \<Rightarrow> Pod list \<Rightarrow> string \<Rightarrow> claim \<Rightarrow> bool" where
  "placed_legally s devs unmarshal r pods profile c \<longleftrightarrow>
     (\<exists>grp \<in> set (sp_Groups (dv_Spec devs)). \<exists>card \<in> set (dg_Accelerators grp).
        dg_Manufacturer grp = rv_Manufacturer s \<and> fst c = \<lparr>rs_Group = dg_ID grp, rs_Device = ac_ID card\<rparr>
        \<and> IsPartitioned (ac_Status card) \<and> \<not> as_Unhealthy (ac_Status card)
        \<and> aa_AllocatedPhysicalProfile (snd c) = profile
        \<and> (\<exists>slot. aa_AllocatedPhysicalPlacements (snd c) = [slot]
             \<and> slot \<in> set (profilePlacements (ps_Profiles (as_PhysicalSliced (ac_Status card))) profile)
             \<and> free_on unmarshal r pods (fst c) slot))"

lemma selected_legally:
  assumes "selected_cards s devs r (occupiedPhysicalPlacements unmarshal r pods) profile picks"
    and "(res, slot) \<in> set picks" and "fst c = res" and "aa_AllocatedPhysicalProfile (snd c) = profile"
    and "aa_AllocatedPhysicalPlacements (snd c) = [slot]"
  shows "placed_legally s devs unmarshal r pods profile c"
proof -
  obtain cand where cand: "(res, cand) \<in> set (node_candidates s devs r (occupiedPhysicalPlacements unmarshal r pods) profile)"
    and slot: "slot \<in> set (cand_Possible cand)" "\<not> placementOverlapsAny slot (cand_Occupied cand)"
    using assms(1,2) unfolding selected_cards_def by blast
  from cand show ?thesis
  proof (rule node_candidates_in)
    fix grp acc
    assume card: "grp \<in> set (sp_Groups (dv_Spec devs))" "dg_Manufacturer grp = rv_Manufacturer s"
      "acc \<in> set (dg_Accelerators grp)" "IsPartitioned (ac_Status acc)" "\<not> as_Unhealthy (ac_Status acc)"
      "res = \<lparr>rs_Group = dg_ID grp, rs_Device = ac_ID acc\<rparr>"
      "cand = \<lparr>cand_ID = Resource_String res,
          cand_Possible = profilePlacements (ps_Profiles (as_PhysicalSliced (ac_Status acc))) profile,
          cand_Occupied = map_get (occupiedPhysicalPlacements unmarshal r pods) res []\<rparr>"
    have "free_on unmarshal r pods res slot" using slot(2) by (intro not_overlapping_free) (simp add: card(7))
    then show ?thesis
      unfolding placed_legally_def using card slot(1) assms(3-5)
      by (intro bexI [of _ grp] bexI [of _ acc]) auto
  qed
qed

text \<open>C3: A fresh partition request is placed on exactly as many healthy, partitioned cards of the
  manufacturer as it asked instances for, each with one interval that is legal for the requested profile
  on that card and overlaps nothing: neither what any Pod's record on the node occupies there nor what
  any allocation in flight has reserved.\<close>

theorem partition_placed_beside_others:
  assumes "rv_AllocationMode s = DeviceAllocationModePartitioned" and "en_listPhysical en = Inr pods"
    and "decideAllocation en s (None :: 'r LogicalSlicedResponder option) kubelet deviceIDs tokensByCard r = (Inr d, r')"
    and "priorAllocationOf (en_unmarshal en) r (dc_Pod d) (ct_Name (dc_Container d)) = None"
    and "wf_inventory (dc_Devices d)" and "plain_groups (dc_Devices d)"
  shows "length (claims_of (dc_Status d)) = length deviceIDs
    \<and> distinct (map fst (claims_of (dc_Status d)))
    \<and> (\<forall>c \<in> set (claims_of (dc_Status d)).
         placed_legally s (dc_Devices d) (en_unmarshal en) r pods (dc_Profile d) c)"
proof -
  let ?occ = "occupiedPhysicalPlacements (en_unmarshal en) r pods"
  let ?devs = "dc_Devices d" and ?none = "None :: 'r LogicalSlicedResponder option"
  obtain occupied occupiedLogical sliced cardTokens placements u where
      snap: "snapshotForAllocate en s r (\<not> Option.is_none ?none)
        = Inr (?devs, occupied, occupiedLogical)"
    and choice: "choose_cards en s r ?devs (dc_Pod d) (dc_Container d) occupied deviceIDs tokensByCard
      = Inr (dc_Profile d, cardTokens, placements, u)"
    and placed: "charge_and_place en s r ?none ?devs (dc_Pod d) (dc_Container d) occupiedLogical
        (dc_Profile d, cardTokens, placements, u) = Inr (dc_Status d, dc_Allocation d, dc_LogicalPlacements d)"
    using assms(3) by (rule decided)
  have occ: "occupied = ?occ"
    using snap assms(1,2) by (auto simp: snapshotForAllocate_def list_placements_def split: sum.splits)
  obtain sels where sels: "SelectPartitionPlacements (fst (partitionCandidates s ?devs r ?occ (dc_Profile d))) (int (length deviceIDs)) = Some sels"
    and tokens: "partitionTokens sels (fst (snd (partitionCandidates s ?devs r ?occ (dc_Profile d)))) = (cardTokens, placements)"
    using choice [unfolded occ choose_cards_def Let_def] assms(1,4) fresh_choice by (metis (mono_tags))
  obtain picks where picks: "selected_cards s ?devs r ?occ (dc_Profile d) picks" "length picks = length deviceIDs"
    and "partitionTokens sels (fst (snd (partitionCandidates s ?devs r ?occ (dc_Profile d))))
      = (map (\<lambda>(res, slot). (res, [\<lparr>rt_Resource = res, rt_Index = 0\<rparr>])) picks, map (\<lambda>(res, slot). (res, [slot])) picks)"
    using assms(5,6) sels by (rule selection_cards)
  then have maps: "cardTokens = map (\<lambda>(res, slot). (res, [\<lparr>rt_Resource = res, rt_Index = 0\<rparr>])) picks"
      "placements = map (\<lambda>(res, slot). (res, [slot])) picks"
    using tokens by simp_all
  let ?st = "fst (accumulateAllocation s ?devs cardTokens u)"
  let ?f = "\<lambda>res acc. case map_of placements res of None \<Rightarrow> acc
      | Some p \<Rightarrow> acc\<lparr>aa_AllocatedPhysicalProfile := dc_Profile d, aa_AllocatedPhysicalPlacements := p,
                      aa_AllocatedPhysicalID := map_get [] res []\<rparr>"
  note charge = selected_charge [OF assms(5) picks(1) maps(1), of u]
  have "dc_Status d = (if placements = [] then ?st else applyPhysicalPlacements (dc_Profile d) placements [] ?st)"
    using placed by (auto simp: charge_and_place_def Let_def split: prod.splits)
  then have claims: "claims_of (dc_Status d) = map (\<lambda>(res, a). (res, ?f res a)) (claims_of ?st)"
    using claims_map_cards [OF keeps_physical] by (auto simp: applyPhysicalPlacements_def)
  have "placed_legally s ?devs (en_unmarshal en) r pods (dc_Profile d) c" if c: "c \<in> set (claims_of (dc_Status d))" for c
  proof -
    obtain res a where ra: "(res, a) \<in> set (claims_of ?st)" "c = (res, ?f res a)" using c claims by auto
    then have "res \<in> fst ` set (claims_of ?st)" by force
    then obtain slot where slot: "(res, slot) \<in> set picks" unfolding charge(1) by auto
    have "map_of placements res = Some [slot]"
      unfolding maps(2) using slot picks(1)
      by (intro map_of_is_SomeI) (force simp: selected_cards_def comp_def case_prod_unfold)+
    then show ?thesis using ra(2) by (intro selected_legally [OF picks(1) slot]) simp_all
  qed
  moreover have "map fst (claims_of (dc_Status d)) = map fst (claims_of ?st)" by (simp add: claims comp_def case_prod_unfold)
  then have "distinct (map fst (claims_of (dc_Status d)))" using charged_once [OF assms(5), of s cardTokens u] by simp
  moreover have "length (claims_of (dc_Status d)) = length deviceIDs" using charge(2) picks(2) by (simp add: claims)
  ultimately show ?thesis by blast
qed

theorem partition_placed_beside_others_witness:
  "\<exists>d. fst sample_partition = Inr d \<and> length (claims_of (dc_Status d)) = 1
     \<and> (\<forall>c \<in> set (claims_of (dc_Status d)). placed_legally (sample_server DeviceAllocationModePartitioned) sample_devices
          sample_decoder fresh_reconciler [sample_pod ''part'', sample_partition_pod] (dc_Profile d) c)"
proof -
  obtain d where d: "fst sample_partition = Inr d"
    using sample_partitioned_at by (cases "fst sample_partition") simp_all
  have facts: "priorAllocationOf sample_decoder fresh_reconciler (dc_Pod d) (ct_Name (dc_Container d)) = None"
    "dc_Devices d = sample_devices"
    using sample_partition_facts by (simp_all add: d)
  have run: "decideAllocation sample_partition_env (sample_server DeviceAllocationModePartitioned)
      (None :: unit LogicalSlicedResponder option) None sample_ids sample_tokens fresh_reconciler = (Inr d, snd sample_partition)"
    using d by (simp add: sample_partition_def prod_eq_iff)
  have env: "rv_AllocationMode (sample_server DeviceAllocationModePartitioned) = DeviceAllocationModePartitioned"
    "en_listPhysical sample_partition_env = Inr [sample_pod ''part'', sample_partition_pod]"
    "en_unmarshal sample_partition_env = sample_decoder"
    by (simp_all add: sample_server_def sample_partition_env_def sample_env_def)
  have "plain_groups sample_devices" by (simp add: plain_groups_def sample_devices_def sample_group_def)
  from partition_placed_beside_others [OF env(1,2) run] this sample_node(1) facts d show ?thesis
    by (simp add: env(3) sample_ids_def)
qed

end
