(* ===== verification/Allocate_Outcomes.thy ===== *)
theory Allocate_Outcomes
  imports Partition_Decision
begin

text \<open>
  What is left of an Allocate call of \<open>pkg/deviceplugin/server.go\<close> once it has returned: the claim a
  successful call recorded in memory and on the Pod, what a failed one took back, and what a visibility
  call granted.
\<close>

section \<open>Success\<close>

lemma decided_claim:
  assumes "decideAllocation en s placer kubelet deviceIDs tokensByCard r = (Inr d, r0)"
    and "en_listCandidates en = Inr pods" and "wf_pods pods"
  shows "dc_Pod d \<in> set pods" and "dc_Container d \<in> set (pod_InitContainers (dc_Pod d) @ pod_Containers (dc_Pod d))"
    and "wf_key (decision_key d)"
    and "r0 = reserveDevices (pod_UID (dc_Pod d)) (ct_Name (dc_Container d)) (dc_Status d) deviceIDs r"
    and "dc_PriorClaim d = priorClaimOf (en_unmarshal en) r (dc_Pod d) (ct_Name (dc_Container d))"
    and "\<forall>c \<in> set (claims_of (dc_Status d)). aa_Mode (snd c) = rv_AllocationMode s"
    and "rv_AllocationMode s \<noteq> DeviceAllocationModePartitioned \<Longrightarrow>
      fst ` set (claims_of (dc_Status d)) \<subseteq> fst ` set tokensByCard"
proof -
  obtain occupied sliced occupiedLogical cardTokens placements u where
      pick: "getAllocatingPod r (en_listCandidates en)
        (decision_match en s r kubelet deviceIDs tokensByCard (dc_Devices d) occupied sliced) = Inr (dc_Pod d, dc_Container d)"
    and prior: "dc_PriorClaim d = priorClaimOf (en_unmarshal en) r (dc_Pod d) (ct_Name (dc_Container d))"
    and choice: "choose_cards en s r (dc_Devices d) (dc_Pod d) (dc_Container d) occupied deviceIDs tokensByCard
        = Inr (dc_Profile d, cardTokens, placements, u)"
    and placed: "charge_and_place en s r placer (dc_Devices d) (dc_Pod d) (dc_Container d) occupiedLogical
          (dc_Profile d, cardTokens, placements, u) = Inr (dc_Status d, dc_Allocation d, dc_LogicalPlacements d)"
    and r0: "r0 = reserveDevices (pod_UID (dc_Pod d)) (ct_Name (dc_Container d)) (dc_Status d) deviceIDs r"
    using assms(1) by (rule decided)
  show "dc_Pod d \<in> set pods" "wf_key (decision_key d)"
    using chosen_key [OF pick [unfolded assms(2)] assms(3)] by simp_all
  show "dc_Container d \<in> set (pod_InitContainers (dc_Pod d) @ pod_Containers (dc_Pod d))"
    using pick by (rule chosen_pod)
  show "r0 = reserveDevices (pod_UID (dc_Pod d)) (ct_Name (dc_Container d)) (dc_Status d) deviceIDs r" by (rule r0)
  show "dc_PriorClaim d = priorClaimOf (en_unmarshal en) r (dc_Pod d) (ct_Name (dc_Container d))" by (rule prior)
  note modes = same_cards_modes [OF charge_same_cards(1) [OF placed]]
  let ?cs = "claims_of (fst (accumulateAllocation s (dc_Devices d) cardTokens u))"
  have claim: "aa_Mode (snd c) = rv_AllocationMode s \<and> fst c \<in> fst ` set cardTokens" if "c \<in> set (claims_of (dc_Status d))" for c
  proof -
    have "(fst c, aa_Mode (snd c)) \<in> (\<lambda>c. (fst c, aa_Mode (snd c))) ` set ?cs" using that unfolding modes [symmetric] by blast
    then obtain c' where "c' \<in> set ?cs" "fst c = fst c'" "aa_Mode (snd c) = aa_Mode (snd c')" by auto
    then show ?thesis using accumulate_mode [of c' s "dc_Devices d" cardTokens u] by simp
  qed
  then show "\<forall>c \<in> set (claims_of (dc_Status d)). aa_Mode (snd c) = rv_AllocationMode s" by blast
  show "fst ` set (claims_of (dc_Status d)) \<subseteq> fst ` set tokensByCard" if "rv_AllocationMode s \<noteq> DeviceAllocationModePartitioned"
    using claim choice that by (auto simp: choose_cards_def Let_def)
qed

lemma same_claims_of:
  assumes "same_cards a b"
  shows "(\<forall>c \<in> set (claims_of a). aa_Mode (snd c) = m) \<longleftrightarrow> (\<forall>c \<in> set (claims_of b). aa_Mode (snd c) = m)"
    and "fst ` set (claims_of a) = fst ` set (claims_of b)"
proof -
  note modes = same_cards_modes [OF assms]
  have "(\<forall>c \<in> set (claims_of x). aa_Mode (snd c) = m) \<longleftrightarrow> (\<forall>(q, n) \<in> (\<lambda>c. (fst c, aa_Mode (snd c))) ` set (claims_of x). n = m)" for x
    by (simp add: ball_simps)
  then show "(\<forall>c \<in> set (claims_of a). aa_Mode (snd c) = m) \<longleftrightarrow> (\<forall>c \<in> set (claims_of b). aa_Mode (snd c) = m)"
    using modes by (simp only:)
  have keys: "fst ` set (claims_of x) = fst ` (\<lambda>c. (fst c, aa_Mode (snd c))) ` set (claims_of x)" for x
    by (simp add: image_image)
  show "fst ` set (claims_of a) = fst ` set (claims_of b)"
    unfolding keys [of a] keys [of b] modes ..
qed

text \<open>What a successful call leaves for a container.\<close>

definition claim_recorded ::
    "AllocEnv \<Rightarrow> DevicesReconciler \<Rightarrow> Pod \<Rightarrow> Container \<Rightarrow> ContainerAllocation \<Rightarrow> bool" where
  "claim_recorded en r' pod ctr claim \<longleftrightarrow>
     (\<exists>sent. en_patch en pod sent = None \<and> recorded (en_unmarshal en) (annotate pod sent) (ct_Name ctr) = Some claim)
     \<and> (st_Groups (ca_Devices claim) \<noteq> [] \<longrightarrow>
          map_of (dr_reservations r') (key (pod_UID pod) (ct_Name ctr))
            = Some \<lparr>rv_Allocated = ca_Devices claim, rv_DeviceIDs = ca_DeviceIDs claim\<rparr>)
     \<and> map_of (dr_pendingReleases r') (key (pod_UID pod) (ct_Name ctr)) = None"

definition others_kept :: "DevicesReconciler \<Rightarrow> DevicesReconciler \<Rightarrow> ReservationKey \<Rightarrow> bool" where
  "others_kept r r' k \<longleftrightarrow> (\<forall>k'. k' \<noteq> k \<longrightarrow> map_of (dr_reservations r') k' = map_of (dr_reservations r) k'
     \<and> map_of (dr_pendingReleases r') k' = map_of (dr_pendingReleases r) k')
     \<and> dr_visibilityGrants r' = dr_visibilityGrants r"

text \<open>C6: When a workload Allocate succeeds, the claim of one pending container is recorded twice, on its Pod
  by an accepted write and in the reservation table, with the offered device IDs and the same cards,
  all in the server's mode and, unless the family chooses its own cards, all among the cards the offered
  IDs name; no compensating write is left for it, and no other container's record changes.\<close>

theorem successful_allocation_recorded:
  assumes "wf_reconciler r" and "rv_AllocationMode s \<noteq> DeviceAllocationModeVisibility"
    and "en_listCandidates en = Inr pods" and "wf_pods pods" and "\<forall>pod \<in> set pods. readable (en_unmarshal en) pod"
    and "json_faithful (en_marshal en) (en_unmarshal en)"
    and "Allocate en s responder requested r = (Inr resp, r')"
  shows "\<exists>pod \<in> set pods. \<exists>ctr \<in> set (pod_InitContainers pod @ pod_Containers pod). \<exists>status.
    claim_recorded en r' pod ctr \<lparr>ca_Devices = status, ca_DeviceIDs = sort requested\<rparr>
    \<and> others_kept r r' (key (pod_UID pod) (ct_Name ctr))
    \<and> (\<forall>c \<in> set (claims_of status). aa_Mode (snd c) = rv_AllocationMode s)
    \<and> (rv_AllocationMode s \<noteq> DeviceAllocationModePartitioned \<longrightarrow>
         (\<forall>c \<in> set (claims_of status). \<exists>i \<in> set requested. \<exists>t. ParseResourceToken i = Inr t \<and> rt_Resource t = fst c))"
  using assms(7,2)
proof (cases rule: allocate_cases)
  case (decided rp kubelet tokensByCard placer d r0)
  note claim = decided_claim [OF decided(4) assms(3,4)]
  have tokens: "fst ` set tokensByCard = {rt_Resource t | i t. i \<in> set requested \<and> ParseResourceToken i = Inr t}"
    using tokens_by_card_parsed [OF decided(2)] by (simp add: wf_map_def)
  from decided(5) show ?thesis
  proof (cases rule: finish_cases)
    case (written status r1 sent r2)
    have r2: "r' = r2" using written(4) by auto
    have r1: "r1 = reserveDevices (pod_UID (dc_Pod d)) (ct_Name (dc_Container d)) status (sort requested) r0 \<or> r1 = r0 \<and> status = dc_Status d"
      using written(2) by blast
    have "wf_reconciler r0" unfolding claim(4) using assms(1) by (rule wf_reserve)
    then have "wf_reconciler r1" using r1 wf_reserve by blast
    then have wf1: "wf_map (dr_reservations r1)" by (simp add: wf_reconciler_def)
    have "readable (en_unmarshal en) (dc_Pod d)" using assms(5) claim(1) by blast
    note patched = patch_result [OF assms(6) this wf1 written(3)]
    have own: "map_of (dr_reservations r1) = (if st_Groups status = [] then map_of (dr_reservations r)
        else (map_of (dr_reservations r))(decision_key d \<mapsto> \<lparr>rv_Allocated = status, rv_DeviceIDs = sort requested\<rparr>))"
    proof -
      have empty: "st_Groups status = [] \<longleftrightarrow> st_Groups (dc_Status d) = []" using written(1) by (simp add: same_cards_def)
      show ?thesis using r1 claim(3) unfolding claim(4) by (elim disjE conjE) (simp_all add: reserve_lookup empty)
    qed
    have rest: "dr_pendingReleases r1 = dr_pendingReleases r" "dr_visibilityGrants r1 = dr_visibilityGrants r"
      using r1 unfolding claim(4) by (elim disjE conjE; simp)+
    have "claim_recorded en r' (dc_Pod d) (dc_Container d) \<lparr>ca_Devices = status, ca_DeviceIDs = sort requested\<rparr>"
      unfolding claim_recorded_def r2 patched(4)
    proof (intro conjI)
      show "\<exists>sent. en_patch en (dc_Pod d) sent = None \<and> recorded (en_unmarshal en) (annotate (dc_Pod d) sent) (ct_Name (dc_Container d))
          = Some \<lparr>ca_Devices = status, ca_DeviceIDs = sort requested\<rparr>"
        using patched(1) [of "ct_Name (dc_Container d)"] patched(3) by (intro exI [of _ sent]) (simp add: expected_entry_def)
    qed (simp_all add: own dropPendingRelease_def)
    moreover have "others_kept r r' (decision_key d)"
      unfolding others_kept_def r2 patched(4) drop_rest own by (simp add: rest dropPendingRelease_def)
    moreover have "\<forall>c \<in> set (claims_of status). aa_Mode (snd c) = rv_AllocationMode s"
      using claim(6) unfolding same_claims_of(1) [OF written(1)] .
    moreover have "\<forall>c \<in> set (claims_of status). \<exists>i \<in> set requested. \<exists>t. ParseResourceToken i = Inr t \<and> rt_Resource t = fst c"
      if other: "rv_AllocationMode s \<noteq> DeviceAllocationModePartitioned"
    proof
      fix c assume "c \<in> set (claims_of status)"
      then have "fst c \<in> fst ` set (claims_of (dc_Status d))" unfolding same_claims_of(2) [OF written(1), symmetric] by simp
      then have "fst c \<in> fst ` set tokensByCard" using claim(7) [OF other] by (rule rev_subsetD)
      then obtain i t where "i \<in> set requested" "ParseResourceToken i = Inr t" "fst c = rt_Resource t"
        unfolding tokens by auto
      then show "\<exists>i \<in> set requested. \<exists>t. ParseResourceToken i = Inr t \<and> rt_Resource t = fst c"
        by (intro bexI [of _ i] exI [of _ t]) simp_all
    qed
    ultimately show ?thesis
      by (intro bexI [OF _ claim(1)] bexI [OF _ claim(2)] exI [of _ status] conjI impI) assumption+
  qed simp
qed simp

lemma sample_outcome_env:
  "json_faithful (en_marshal (sample_env patch pods)) (en_unmarshal (sample_env patch pods))"
  "\<forall>pod \<in> set sample_pods. readable (en_unmarshal (sample_env patch pods)) pod"
  "en_listCandidates (sample_env patch sample_pods) = Inr sample_pods"
  "rv_AllocationMode (sample_server DeviceAllocationModeExclusive) \<noteq> DeviceAllocationModeVisibility"
  "wf_reconciler fresh_reconciler"
  by (auto simp: sample_env_def json_faithful_def sample_writer_def sample_reader_def sample_pods_def readable_def
      AllocatedAcceleratorsOf_def sample_pending_def zero_Pod_def map_get_def entries_def wf_map_def sample_server_def
      wf_reconciler_def initial_runtime_def split: if_splits)

lemma sample_outcome:
  assumes "fst (sample_run patch answer) = res"
  shows "Allocate (sample_env patch sample_pods) (sample_server DeviceAllocationModeExclusive) (Some (sample_responder answer))
     sample_ids fresh_reconciler = (res, snd (sample_run patch answer))"
  using assms by (simp add: sample_allocate prod_eq_iff)

theorem successful_allocation_recorded_witness:
  "\<exists>ctr status. claim_recorded (sample_env accept_all sample_pods) (snd (sample_run accept_all (Inr ())))
     (sample_pending ''a'') ctr \<lparr>ca_Devices = status, ca_DeviceIDs = sample_ids\<rparr>"
  using successful_allocation_recorded [OF sample_outcome_env(5,4,3) sample_node(2) sample_outcome_env(2,1)
      sample_outcome [OF sample_success]]
  by (auto simp: sample_pods_def sample_ids_def)

section \<open>Failure\<close>

text \<open>A claim a compensating write would put back is never empty.\<close>

definition solid_releases :: "DevicesReconciler \<Rightarrow> bool" where
  "solid_releases r \<longleftrightarrow> (\<forall>k claim. map_of (dr_pendingReleases r) k = Some (Some claim) \<longrightarrow> st_Groups (ca_Devices claim) \<noteq> [])"

lemma prior_solid:
  assumes "solid_releases r" and "priorClaimOf unmarshal r pod c = Some claim"
  shows "st_Groups (ca_Devices claim) \<noteq> []"
  using assms
  by (auto simp: priorClaimOf_lookup solid_releases_def annotated_claim_def reservation_record_def Let_def
      split: option.splits if_splits sum.splits)

definition taken_back :: "AllocEnv \<Rightarrow> DevicesReconciler \<Rightarrow> DevicesReconciler \<Rightarrow> Pod \<Rightarrow> Container \<Rightarrow> bool" where
  "taken_back en r r' pod ctr \<longleftrightarrow>
     (let k = key (pod_UID pod) (ct_Name ctr) in
      others_kept r r' k
      \<and> (map_of (dr_reservations r') k = None
         \<or> (\<exists>prior. priorClaimOf (en_unmarshal en) r pod (ct_Name ctr) = Some prior
              \<and> map_of (dr_reservations r') k = Some \<lparr>rv_Allocated = ca_Devices prior, rv_DeviceIDs = ca_DeviceIDs prior\<rparr>)))"

lemma finished_pending:
  assumes "decideAllocation en s placer kubelet deviceIDs tokensByCard r = (Inr d, r0)"
    and "finish_allocation en rp placer d deviceIDs r0 = (res, r')"
  shows "\<forall>k. k \<noteq> decision_key d \<longrightarrow> map_of (dr_pendingReleases r') k = map_of (dr_pendingReleases r) k"
    and "dr_visibilityGrants r' = dr_visibilityGrants r"
proof -
  have r0: "r0 = reserveDevices (pod_UID (dc_Pod d)) (ct_Name (dc_Container d)) (dc_Status d) deviceIDs r"
    using assms(1) by (rule decided)
  define keeps where "keeps x \<longleftrightarrow> (\<forall>k. k \<noteq> decision_key d \<longrightarrow> map_of (dr_pendingReleases x) k = map_of (dr_pendingReleases r) k)
      \<and> dr_visibilityGrants x = dr_visibilityGrants r" for x :: DevicesReconciler
  have ops: "keeps (reserveDevices u c st ids x) = keeps x" "keeps (releaseReservation u c x) = keeps x" for u c st ids x
    by (simp_all add: keeps_def)
  have dropped: "keeps x \<Longrightarrow> keeps (dropPendingRelease (pod_UID (dc_Pod d)) (ct_Name (dc_Container d)) x)" for x
    by (simp add: keeps_def dropPendingRelease_def)
  have given: "keeps x \<Longrightarrow> keeps (releaseAllocation en (d\<lparr>dc_Status := st\<rparr>) x)" for x st
    using releaseAllocation_fields(2,3) [of _ "d\<lparr>dc_Status := st\<rparr>"] by (simp add: keeps_def)
  have "keeps r0" by (simp add: r0 ops) (simp add: keeps_def)
  have "keeps r'"
    using assms(2)
  proof (cases rule: finish_cases)
    case (undone r1 err)
    then show ?thesis using \<open>keeps r0\<close> by (auto simp: ops)
  next
    case (written status r1 sent r2)
    have "keeps r1" using written(2) \<open>keeps r0\<close> by (auto simp: ops)
    with patch_cases [OF written(3)] have "keeps r2" using dropped by metis
    then show ?thesis using written(4) given by auto
  qed
  then show "\<forall>k. k \<noteq> decision_key d \<longrightarrow> map_of (dr_pendingReleases r') k = map_of (dr_pendingReleases r) k"
    and "dr_visibilityGrants r' = dr_visibilityGrants r" by (simp_all add: keeps_def)
qed

text \<open>C7: A workload Allocate that fails, at whatever phase, leaves nothing of the attempt in the table: it
  changed nothing, or only the container it had decided for, which then holds no reservation, or exactly
  what it held before the call; every other container keeps its reservation and its compensating write,
  and no visibility grant changes.\<close>

theorem failed_allocation_taken_back:
  assumes "solid_releases r" and "rv_AllocationMode s \<noteq> DeviceAllocationModeVisibility"
    and "en_listCandidates en = Inr pods" and "wf_pods pods"
    and "Allocate en s responder requested r = (Inl err, r')"
  shows "r' = r \<or> (\<exists>pod \<in> set pods. \<exists>ctr \<in> set (pod_InitContainers pod @ pod_Containers pod). taken_back en r r' pod ctr)"
  using assms(5,2)
proof (cases rule: allocate_cases)
  case (decided rp kubelet tokensByCard placer d r0)
  note claim = decided_claim [OF decided(4) assms(3,4)]
  note table = finished_table(2) [OF decided(4,5)] and rest = finished_pending [OF decided(4,5)]
  have own: "map_of (dr_reservations r') (decision_key d) = None
         \<or> (\<exists>prior. dc_PriorClaim d = Some prior
              \<and> map_of (dr_reservations r') (decision_key d) = Some \<lparr>rv_Allocated = ca_Devices prior, rv_DeviceIDs = ca_DeviceIDs prior\<rparr>)"
    using decided(5)
  proof (cases rule: finish_cases)
    case (undone r1 err)
    then show ?thesis by simp
  next
    case (written status r1 sent r2)
    then have r': "r' = releaseAllocation en (d\<lparr>dc_Status := status\<rparr>) r2" by auto
    have "st_Groups (ca_Devices prior) \<noteq> []" if "dc_PriorClaim d = Some prior" for prior
      using prior_solid [OF assms(1)] that unfolding claim(5) .
    then show ?thesis
      using claim(3) unfolding r' releaseAllocation_fields(1) by (cases "dc_PriorClaim d") simp_all
  qed
  have "others_kept r r' (decision_key d)"
    using table rest by (auto simp: others_kept_def)
  then have "taken_back en r r' (dc_Pod d) (dc_Container d)"
    using own unfolding taken_back_def Let_def claim(5) by blast
  then show ?thesis using claim(1,2) by blast
qed simp

theorem failed_allocation_taken_back_witness:
  "let r' = snd (sample_run refuse_all (Inr ())) in
   r' = fresh_reconciler \<or> (\<exists>ctr. taken_back (sample_env refuse_all sample_pods) fresh_reconciler r' (sample_pending ''a'') ctr)"
proof -
  have "solid_releases fresh_reconciler" by (simp add: solid_releases_def initial_runtime_def)
  from failed_allocation_taken_back [OF this sample_outcome_env(4,3) sample_node(2) sample_outcome [OF sample_unwritten]]
  show ?thesis by (auto simp: sample_pods_def Let_def)
qed

lemma refused_late:
  fixes responder :: "'r Responder option"
  assumes "Allocate en s responder requested r = (Inl (ResponderRefused err), r')"
    and "rv_AllocationMode s \<noteq> DeviceAllocationModeVisibility"
  obtains kubelet tokensByCard d r0 status r1 sent r2 and placer :: "'r LogicalSlicedResponder option" where
    "decideAllocation en s placer kubelet (sort requested) tokensByCard r = (Inr d, r0)"
    and "r1 = r0 \<or> r1 = reserveDevices (pod_UID (dc_Pod d)) (ct_Name (dc_Container d)) status (sort requested) r0"
    and "patchAllocatingPod (en_unmarshal en) (en_marshal en) (en_patch en) (dc_Pod d) (ct_Name (dc_Container d))
             status (sort requested) r1 = (Inr sent, r2)"
    and "r' = releaseAllocation en (d\<lparr>dc_Status := status\<rparr>) r2"
  using assms
proof (cases rule: allocate_cases)
  case (decided rp kubelet tokensByCard placer d r0)
  from decided(5) show thesis
  proof (cases rule: finish_cases)
    case (written status r1 sent r2)
    then show thesis using that [OF decided(4), of r1 status sent r2] by auto
  qed (auto simp: refused_def)
qed (auto simp: refused_def)

lemma unpatch_accepts:
  "unpatchAllocatingPod unmarshal marshal patch pod c prior r = (Inr written, r') \<Longrightarrow> patch pod written = None"
  by (auto simp: unpatchAllocatingPod_def Let_def split: sum.splits option.splits)

lemma unpatch_refused:
  assumes "unpatchAllocatingPod unmarshal marshal patch pod c prior r = (Inl err, r')" and "readable unmarshal pod"
  shows "r' = recordPendingRelease (pod_UID pod) c prior r \<or> (\<exists>m e. marshal m = Inl e \<and> map_of m c = prior)"
proof -
  obtain allocations where read: "AllocatedAcceleratorsOf unmarshal pod = Inr allocations"
    using assms(2) by (auto simp: readable_def)
  define m where "m = (case prior of
      Some claim \<Rightarrow> map_put c claim (overlay_siblings r pod c (entries allocations))
    | None \<Rightarrow> map_delete c (overlay_siblings r pod c (entries allocations)))"
  have m: "map_of m c = prior" by (simp add: m_def split: option.split)
  have "r' = recordPendingRelease (pod_UID pod) c prior r \<or> (\<exists>e. marshal m = Inl e)"
    using assms(1) unfolding unpatchAllocatingPod_def read Let_def sum.case m_def [symmetric]
    by (cases "marshal m") (auto split: option.splits if_splits)
  with m show ?thesis by blast
qed

lemma release_durable:
  assumes "json_faithful (en_marshal en) (en_unmarshal en)"
    and "readable (en_unmarshal en) (dc_Pod d)" and "wf_reconciler r" and "wf_key (decision_key d)"
  shows "(\<exists>undo. en_patch en (dc_Pod d) undo = None
        \<and> recorded (en_unmarshal en) (annotate (dc_Pod d) undo) (ct_Name (dc_Container d)) = dc_PriorClaim d)
      \<or> map_of (dr_pendingReleases (releaseAllocation en d r)) (decision_key d) = Some (dc_PriorClaim d)
      \<or> (\<exists>m e. en_marshal en m = Inl e \<and> map_of m (ct_Name (dc_Container d)) = dc_PriorClaim d)"
proof -
  define r1 where "r1 = (case dc_PriorClaim d of
      Some prior \<Rightarrow> reserveDevices (pod_UID (dc_Pod d)) (ct_Name (dc_Container d)) (ca_Devices prior) (ca_DeviceIDs prior) r
    | None \<Rightarrow> releaseReservation (pod_UID (dc_Pod d)) (ct_Name (dc_Container d)) r)"
  have "wf_reconciler r1" using assms(3) by (simp add: r1_def wf_reserve wf_release split: option.split)
  then have wf: "wf_map (dr_reservations r1)" by (simp add: wf_reconciler_def)
  obtain res r2 where un: "unpatchAllocatingPod (en_unmarshal en) (en_marshal en) (en_patch en) (dc_Pod d)
      (ct_Name (dc_Container d)) (dc_PriorClaim d) r1 = (res, r2)" by fastforce
  have r2: "releaseAllocation en d r = r2" by (simp add: releaseAllocation_def un flip: r1_def)
  show ?thesis
  proof (cases res)
    case (Inr written)
    note landed = unpatch_result [OF assms(1,2) wf un [unfolded Inr]] and ok = unpatch_accepts [OF un [unfolded Inr]]
    show ?thesis
      using ok landed(1) [of "ct_Name (dc_Container d)"] by (intro disjI1 exI [of _ written]) (simp add: expected_entry_def)
  next
    case (Inl err)
    from unpatch_refused [OF un [unfolded Inl] assms(2)] show ?thesis
      using assms(4) by (auto simp: r2 recordPendingRelease_def wf_key_def Let_def)
  qed
qed

text \<open>C8: An allocation the vendor's responder refuses after its record has been written is given back
  durably: either a second accepted write has put the container's entry back to what it was before the
  call, or the table remembers that this write is still owed, together with what it has to put back. The
  one way out of both is that the record to put back cannot be encoded.\<close>

theorem refused_allocation_given_back:
  fixes responder :: "'r Responder option"
  assumes "wf_reconciler r" and "rv_AllocationMode s \<noteq> DeviceAllocationModeVisibility"
    and "en_listCandidates en = Inr pods" and "wf_pods pods" and "\<forall>pod \<in> set pods. readable (en_unmarshal en) pod"
    and "json_faithful (en_marshal en) (en_unmarshal en)"
    and "Allocate en s responder requested r = (Inl (ResponderRefused err), r')"
  shows "\<exists>pod \<in> set pods. \<exists>ctr \<in> set (pod_InitContainers pod @ pod_Containers pod).
    let prior = priorClaimOf (en_unmarshal en) r pod (ct_Name ctr) in
    (\<exists>undo. en_patch en pod undo = None \<and> recorded (en_unmarshal en) (annotate pod undo) (ct_Name ctr) = prior)
    \<or> map_of (dr_pendingReleases r') (key (pod_UID pod) (ct_Name ctr)) = Some prior
    \<or> (\<exists>m e. en_marshal en m = Inl e \<and> map_of m (ct_Name ctr) = prior)"
proof -
  obtain kubelet tokensByCard d r0 status r1 sent r2 and placer :: "'r LogicalSlicedResponder option" where
      dec: "decideAllocation en s placer kubelet (sort requested) tokensByCard r = (Inr d, r0)"
    and r1: "r1 = r0 \<or> r1 = reserveDevices (pod_UID (dc_Pod d)) (ct_Name (dc_Container d)) status (sort requested) r0"
    and patched: "patchAllocatingPod (en_unmarshal en) (en_marshal en) (en_patch en) (dc_Pod d) (ct_Name (dc_Container d))
             status (sort requested) r1 = (Inr sent, r2)"
    and r': "r' = releaseAllocation en (d\<lparr>dc_Status := status\<rparr>) r2"
    using assms(7,2) by (rule refused_late)
  note claim = decided_claim [OF dec assms(3,4)]
  have "wf_reconciler r1" using r1 assms(1) claim(4) by (auto simp: wf_reserve)
  then have wf: "wf_reconciler r2" using patch_cases [OF patched] wf_drop by metis
  have readable: "readable (en_unmarshal en) (dc_Pod d)" using assms(5) claim(1) by blast
  from release_durable [OF assms(6), of "d\<lparr>dc_Status := status\<rparr>" r2] readable wf claim(3)
  have "(\<exists>undo. en_patch en (dc_Pod d) undo = None
        \<and> recorded (en_unmarshal en) (annotate (dc_Pod d) undo) (ct_Name (dc_Container d)) = dc_PriorClaim d)
      \<or> map_of (dr_pendingReleases r') (decision_key d) = Some (dc_PriorClaim d)
      \<or> (\<exists>m e. en_marshal en m = Inl e \<and> map_of m (ct_Name (dc_Container d)) = dc_PriorClaim d)"
    by (simp add: r')
  then show ?thesis
    unfolding claim(5) Let_def by (intro bexI [OF _ claim(1)] bexI [OF _ claim(2)])
qed

theorem refused_allocation_given_back_witness:
  "fst (sample_run accept_all (Inl ''refused'')) = Inl (ResponderRefused ''refused'')
   \<and> (\<exists>pod \<in> set sample_pods. \<exists>ctr \<in> set (pod_InitContainers pod @ pod_Containers pod).
     let en = sample_env accept_all sample_pods; prior = priorClaimOf (en_unmarshal en) fresh_reconciler pod (ct_Name ctr) in
     (\<exists>undo. en_patch en pod undo = None \<and> recorded (en_unmarshal en) (annotate pod undo) (ct_Name ctr) = prior)
     \<or> map_of (dr_pendingReleases (snd (sample_run accept_all (Inl ''refused'')))) (key (pod_UID pod) (ct_Name ctr)) = Some prior
     \<or> (\<exists>m e. en_marshal en m = Inl e \<and> map_of m (ct_Name ctr) = prior))"
  using sample_refusal refused_allocation_given_back [OF sample_outcome_env(5,4,3) sample_node(2) sample_outcome_env(2,1)
      sample_outcome [OF sample_refusal]]
  unfolding Let_def by blast

section \<open>Visibility\<close>

lemma owner_not_self:
  assumes "pickAcceleratorOwner names self [] \<noteq> []"
  shows "pickAcceleratorOwner names self [] \<noteq> self" and "pickAcceleratorOwner names self [] \<in> set names"
proof -
  have "pickAcceleratorOwner names self owner = owner
      \<or> pickAcceleratorOwner names self owner \<in> set names - {self}" for owner
    by (induction names self owner rule: pickAcceleratorOwner.induct) auto
  from this [of "[]"] assms show "pickAcceleratorOwner names self [] \<noteq> self" "pickAcceleratorOwner names self [] \<in> set names"
    by auto
qed

lemma coAllocated_owner:
  assumes "coAllocatedAccelerators unmarshal r pod self = Inr (reserved, owner)" and "st_Groups reserved \<noteq> []"
  shows "owner \<noteq> self" and "owner \<noteq> []"
proof -
  have zero: "st_Groups zero_DevicesStatus = []" by (simp add: zero_DevicesStatus_def)
  have "\<exists>names. owner = pickAcceleratorOwner names self [] \<and> owner \<noteq> []"
    using assms zero
    by (auto simp: coAllocatedAccelerators_def reservedAcceleratorDevices_def Let_def split: option.splits sum.splits if_splits)
  then show "owner \<noteq> self" and "owner \<noteq> []" using owner_not_self(1) by auto
qed

definition inventory_cards :: "Devices \<Rightarrow> Resource list" where
  "inventory_cards devs = concat (map (\<lambda>grp. map (\<lambda>acc. \<lparr>rs_Group = dg_ID grp, rs_Device = ac_ID acc\<rparr>) (dg_Accelerators grp))
     (sp_Groups (dv_Spec devs)))"

lemma fold_present:
  fixes present :: "Resource set" and cs :: "claim list"
  defines "f \<equiv> \<lambda>(res, acc) allocated. if res \<in> present then map_put res (aa_Allocated acc) allocated else allocated"
  assumes "length (fold f cs []) = length cs"
  shows "distinct (map fst cs)" and "fst ` set cs \<subseteq> present"
    and "fold f cs [] = map (\<lambda>c. (fst c, aa_Allocated (snd c))) cs"
proof -
  have step: "f c m = (if fst c \<in> present then map_put (fst c) (aa_Allocated (snd c)) m else m)" for c m
    by (cases c) (simp add: f_def)
  have empty: "wf_map ([] :: (Resource, int) gomap)" by (simp add: wf_map_def)
  have keys: "wf_map (fold f xs []) \<and> fst ` set (fold f xs []) = fst ` set xs \<inter> present" for xs
    by (induction xs rule: rev_induct) (auto simp: step keys_put wf_put empty)
  have "length (fold f cs []) = card (fst ` set cs \<inter> present)"
    using keys [of cs] by (metis distinct_card length_map list.set_map wf_map_def)
  moreover have "card (fst ` set cs \<inter> present) \<le> card (fst ` set cs)" by (simp add: card_mono)
  moreover have "card (fst ` set cs) \<le> length cs" by (metis card_length length_map list.set_map)
  ultimately have full: "card (fst ` set cs \<inter> present) = card (fst ` set cs)" and "card (set (map fst cs)) = length (map fst cs)"
    using assms(2) by auto
  then show dist: "distinct (map fst cs)" by (simp add: card_distinct)
  have "fst ` set cs \<inter> present = fst ` set cs" using full by (intro card_subset_eq) auto
  then show sub: "fst ` set cs \<subseteq> present" by auto
  have "distinct (map fst xs) \<Longrightarrow> fst ` set xs \<subseteq> present \<Longrightarrow> fold f xs [] = map (\<lambda>c. (fst c, aa_Allocated (snd c))) xs" for xs
  proof (induction xs rule: rev_induct)
    case (snoc c xs)
    then have "fold f xs [] = map (\<lambda>c. (fst c, aa_Allocated (snd c))) xs" "fst c \<notin> fst ` set xs" by auto
    then show ?case using snoc.prems by (simp add: step [of c] map_put_new image_image)
  qed simp
  from this [OF dist sub] show "fold f cs [] = map (\<lambda>c. (fst c, aa_Allocated (snd c))) cs" .
qed

lemma validated_cards:
  assumes "validateVisibilityReservation devs reserved n = Inr allocated"
  shows "length (claims_of reserved) = n" and "distinct (map fst (claims_of reserved))"
    and "fst ` set (claims_of reserved) \<subseteq> set (inventory_cards devs)"
    and "allocated = map (\<lambda>c. (fst c, aa_Allocated (snd c))) (claims_of reserved)"
proof -
  let ?al = "fold (\<lambda>(res, acc) allocated. if res \<in> set (inventory_cards devs) then map_put res (aa_Allocated acc) allocated else allocated)
      (claims_of reserved) []"
  have len: "length ?al = length (claims_of reserved)" and al: "allocated = ?al" and n: "length (claims_of reserved) = n"
    using assms unfolding validateVisibilityReservation_def inventory_cards_def [symmetric] Let_def by (auto split: if_splits)
  show "length (claims_of reserved) = n" by (rule n)
  show "distinct (map fst (claims_of reserved))" "fst ` set (claims_of reserved) \<subseteq> set (inventory_cards devs)"
    "allocated = map (\<lambda>c. (fst c, aa_Allocated (snd c))) (claims_of reserved)"
    using fold_present [OF len] unfolding al by blast+
qed

definition owner_cards_granted ::
    "AllocEnv \<Rightarrow> 'r Responder \<Rightarrow> nat \<Rightarrow> DevicesReconciler \<Rightarrow> Pod \<Rightarrow> Container \<Rightarrow> 'r \<Rightarrow> bool" where
  "owner_cards_granted en rp wanted r pod ctr resp \<longleftrightarrow>
     (\<exists>devs reserved owner. en_getDevices en = Inr devs
        \<and> coAllocatedAccelerators (en_unmarshal en) r pod (ct_Name ctr) = Inr (reserved, owner)
        \<and> owner \<noteq> ct_Name ctr \<and> owner \<noteq> [] \<and> length (claims_of reserved) = wanted \<and> distinct (map fst (claims_of reserved))
        \<and> fst ` set (claims_of reserved) \<subseteq> set (inventory_cards devs)
        \<and> visibilityResponse (en_knowns en) rp pod ctr devs
            (map (\<lambda>c. (fst c, aa_Allocated (snd c))) (claims_of reserved)) owner = Inr resp)"

lemma coAllocated_grant [simp]:
  "coAllocatedAccelerators unmarshal (grantVisibility u c r) pod self = coAllocatedAccelerators unmarshal r pod self"
  unfolding coAllocatedAccelerators_def reservedAcceleratorDevices_def grant_rest ..



end
