(* ===== verification/Ring_Buffer.thy ===== *)
theory Ring_Buffer
  imports Prelude "HOL-Library.Word"
begin

text \<open>
  The ring containers of \<open>pkg/utils/datax/ring.go\<close>: \<open>RingStack\<close>, \<open>RingQueue\<close> and \<open>RingBuffer\<close>, which
  share one struct. Counters and sequence numbers are 64-bit words, so a counter that passes
  \<open>2 ^ 64\<close> wraps as it does in Go. A method is the run of one goroutine that nobody interrupts: a
  \<open>CompareAndSwap\<close> then finds the value just loaded and succeeds, and a retry of the loop meets the
  same state. The retry loops are partial functions, whose value \<open>None\<close> says the call spins for
  ever; \<open>Panic\<close> is the run-time panic of an index out of range. The zero value of the element type
  is the argument \<open>zero\<close>. The last part runs several \<open>Push\<close> calls one atomic access at a time.

  The methods are shown to implement a bounded sequence (the locale \<open>window\<close>), which drops its
  oldest element when a full one is pushed to.
\<close>

unbundle bit_operations_syntax

section \<open>Word arithmetic\<close>

lemma unat_bound: "unat (x :: 64 word) < 18446744073709551616"
  by (rule order.strict_trans2 [OF unsigned_less]) simp

lemma mod_shift_inj:
  fixes a i j n :: nat
  assumes "(a + i) mod n = (a + j) mod n" "i < n" "j < n"
  shows "i = j"
proof -
  have "i = j" if "(a + i) mod n = (a + j) mod n" "i < n" "j < n" "i \<le> j" for i j
  proof -
    have "n dvd (a + j) - (a + i)" by (metis that(1,4) mod_eq_dvd_iff_nat add_le_cancel_left)
    then have "n dvd j - i" by simp
    then show ?thesis using that by (auto dest: dvd_imp_le)
  qed
  from this [of i j] this [of j i] show ?thesis using assms by (cases i j rule: linorder_cases) auto
qed

lemma unat_succ: "(i :: 64 word) < t \<Longrightarrow> unat (i + 1) = Suc (unat i)"
  using unat_bound [of t] by (simp add: unat_word_ariths word_less_nat_alt)

section \<open>State\<close>

record 'a RingNode =
  rn_seq :: "64 word"
  rn_val :: 'a

record 'a Ring =
  ri_mask :: "64 word"
  ri_data :: "'a RingNode list"
  ri_head :: "64 word"
  ri_tail :: "64 word"

datatype 'b outcome = Panic | Return 'b

text \<open>\<open>bits.Len64\<close>: the number of bits needed to write a value down.\<close>

function Len64 :: "64 word \<Rightarrow> nat" where
  "Len64 x = (if x = 0 then 0 else Suc (Len64 (drop_bit 1 x)))"
  by auto
termination
proof (relation "measure unat")
  fix x :: "64 word"
  assume "x \<noteq> 0"
  then have "0 < unat x" by (simp add: unat_gt_0)
  then show "(drop_bit 1 x, x) \<in> measure unat"
    by (simp add: drop_bit_eq_div unat_div)
qed simp

declare Len64.simps [simp del]

definition pad_size :: "64 word \<Rightarrow> 64 word" where
  "pad_size sz = (if sz AND (sz - 1) \<noteq> 0 then push_bit (Len64 (sz - 1)) 1 else sz)"

text \<open>The three constructors have one body; they differ in the spelling of the test for zero.\<close>

definition NewRingStack :: "'a \<Rightarrow> 64 word \<Rightarrow> 'a Ring outcome" where
  "NewRingStack zero sz =
     (if sz = 0 then Panic
      else let sz = pad_size sz in
        Return \<lparr>ri_mask = sz - 1,
                ri_data = map (\<lambda>i. \<lparr>rn_seq = of_nat i, rn_val = zero\<rparr>) [0..<unat sz],
                ri_head = 0, ri_tail = 0\<rparr>)"

definition NewRingQueue :: "'a \<Rightarrow> 64 word \<Rightarrow> 'a Ring outcome" where
  "NewRingQueue zero sz = (if sz \<le> 0 then Panic else NewRingStack zero sz)"

definition NewRingBuffer :: "'a \<Rightarrow> 64 word \<Rightarrow> 'a Ring outcome" where
  "NewRingBuffer zero sz = (if sz \<le> 0 then Panic else NewRingStack zero sz)"

section \<open>Slots\<close>

definition slot_index :: "'a Ring \<Rightarrow> 64 word \<Rightarrow> nat" where
  "slot_index r p = unat (p AND ri_mask r)"

text \<open>\<open>&r.data[p \& r.mask]\<close>; \<open>None\<close> is the run-time panic.\<close>

definition slot :: "'a Ring \<Rightarrow> 64 word \<Rightarrow> 'a RingNode option" where
  "slot r p = (if slot_index r p < length (ri_data r) then Some (ri_data r ! slot_index r p) else None)"

definition set_slot :: "64 word \<Rightarrow> 64 word \<Rightarrow> 'a \<Rightarrow> 'a Ring \<Rightarrow> 'a Ring" where
  "set_slot p s v r = r\<lparr>ri_data := (ri_data r)[slot_index r p := \<lparr>rn_seq = s, rn_val = v\<rparr>]\<rparr>"

section \<open>Adding an element\<close>

definition after_push :: "'a \<Rightarrow> 'a Ring \<Rightarrow> 'a Ring" where
  "after_push v r =
     (let tail = ri_tail r; head = ri_head r;
          r = set_slot tail (tail + 1) v (r\<lparr>ri_tail := tail + 1\<rparr>)
      in if ri_mask r + 1 \<le> tail - head then r\<lparr>ri_head := head + 1\<rparr> else r)"

partial_function (option) RingStack_Push :: "'a \<Rightarrow> 'a Ring \<Rightarrow> 'a Ring outcome option" where
  "RingStack_Push v r =
     (case slot r (ri_tail r) of
        None \<Rightarrow> Some Panic
      | Some n \<Rightarrow>
          if sint (rn_seq n - ri_tail r) \<le> 0 then Some (Return (after_push v r)) else RingStack_Push v r)"

text \<open>\<open>RingQueue.Enqueue\<close> and \<open>RingBuffer.Push\<close> repeat the body of \<open>RingStack.Push\<close>.\<close>

definition RingQueue_Enqueue :: "'a \<Rightarrow> 'a Ring \<Rightarrow> 'a Ring outcome option" where
  "RingQueue_Enqueue = RingStack_Push"

definition RingBuffer_Push :: "'a \<Rightarrow> 'a Ring \<Rightarrow> 'a Ring outcome option" where
  "RingBuffer_Push = RingStack_Push"

section \<open>The stack\<close>

partial_function (option) RingStack_Pop :: "'a \<Rightarrow> 'a Ring \<Rightarrow> ('a option \<times> 'a Ring) outcome option" where
  "RingStack_Pop zero r =
     (let tail = ri_tail r in
      if tail = ri_head r then Some (Return (None, r))
      else case slot r (tail - 1) of
        None \<Rightarrow> Some Panic
      | Some n \<Rightarrow>
          if rn_seq n = tail
          then Some (Return (Some (rn_val n),
                 set_slot (tail - 1) (tail - ri_mask r - 1) zero (r\<lparr>ri_tail := tail - 1\<rparr>)))
          else RingStack_Pop zero r)"

partial_function (option) RingStack_Peek :: "'a Ring \<Rightarrow> 'a option outcome option" where
  "RingStack_Peek r =
     (let tail = ri_tail r in
      if tail = ri_head r then Some (Return None)
      else case slot r (tail - 1) of
        None \<Rightarrow> Some Panic
      | Some n \<Rightarrow> if rn_seq n = tail then Some (Return (Some (rn_val n))) else RingStack_Peek r)"

text \<open>The loop of \<open>RingStack.Data\<close>, from position \<open>i\<close> down to the head.\<close>

function stack_data_from :: "'a Ring \<Rightarrow> 64 word \<Rightarrow> 'a list outcome" where
  "stack_data_from r i =
     (if ri_head r < i
      then case slot r (i - 1) of
          None \<Rightarrow> Panic
        | Some n \<Rightarrow>
            (case stack_data_from r (i - 1) of
               Panic \<Rightarrow> Panic
             | Return rest \<Rightarrow> Return (if rn_seq n = i then rn_val n # rest else rest))
      else Return [])"
  by auto
termination
proof (relation "measure (\<lambda>(r, i). unat i)")
  fix r :: "'a Ring" and i :: "64 word" and n :: "'a RingNode"
  assume "ri_head r < i"
  then have "i \<noteq> 0" by auto
  then show "((r, i - 1), r, i) \<in> measure (\<lambda>(r, i). unat i)"
    by (simp add: unat_minus_one unat_gt_0)
qed simp

declare stack_data_from.simps [simp del]

definition RingStack_Data :: "'a Ring \<Rightarrow> 'a list outcome" where
  "RingStack_Data r = stack_data_from r (ri_tail r)"

definition RingStack_Len :: "'a Ring \<Rightarrow> int" where
  "RingStack_Len r = sint (ri_tail r - ri_head r)"

definition RingStack_Cap :: "'a Ring \<Rightarrow> int" where
  "RingStack_Cap r = sint (ri_mask r + 1)"

section \<open>The queue\<close>

partial_function (option) RingQueue_Dequeue ::
    "'a \<Rightarrow> 'a Ring \<Rightarrow> ('a option \<times> 'a Ring) outcome option" where
  "RingQueue_Dequeue zero r =
     (let head = ri_head r in
      case slot r head of
        None \<Rightarrow> Some Panic
      | Some n \<Rightarrow>
          let diff = sint (rn_seq n - head - 1) in
          if diff < 0 then Some (Return (None, r))
          else if diff = 0
          then Some (Return (Some (rn_val n),
                 set_slot head (head + ri_mask r + 1) zero (r\<lparr>ri_head := head + 1\<rparr>)))
          else RingQueue_Dequeue zero r)"

text \<open>The loop of \<open>RingQueue.Data\<close> and \<open>RingBuffer.Data\<close>, from position \<open>i\<close> up to the tail.\<close>

function queue_data_from :: "'a Ring \<Rightarrow> 64 word \<Rightarrow> 'a list outcome" where
  "queue_data_from r i =
     (if i < ri_tail r
      then case slot r i of
          None \<Rightarrow> Panic
        | Some n \<Rightarrow>
            (case queue_data_from r (i + 1) of
               Panic \<Rightarrow> Panic
             | Return rest \<Rightarrow> Return (if rn_seq n = i + 1 then rn_val n # rest else rest))
      else Return [])"
  by auto
termination
proof (relation "measure (\<lambda>(r, i). unat (ri_tail r) - unat i)")
  fix r :: "'a Ring" and i :: "64 word" and n :: "'a RingNode"
  assume "i < ri_tail r"
  then show "((r, i + 1), r, i) \<in> measure (\<lambda>(r, i). unat (ri_tail r) - unat i)"
    by (simp add: unat_succ word_less_nat_alt)
qed simp

declare queue_data_from.simps [simp del]

definition RingQueue_Data :: "'a Ring \<Rightarrow> 'a list outcome" where
  "RingQueue_Data r = queue_data_from r (ri_head r)"

definition RingQueue_Len :: "'a Ring \<Rightarrow> int" where
  "RingQueue_Len r = sint (ri_tail r - ri_head r)"

definition RingQueue_Cap :: "'a Ring \<Rightarrow> int" where
  "RingQueue_Cap r = sint (ri_mask r + 1)"

section \<open>The buffer\<close>

text \<open>\<open>Clone\<close> copies the slots and both counters into a new ring; \<open>None\<close> is the nil pointer.\<close>

definition RingBuffer_Clone :: "'a Ring option \<Rightarrow> 'a Ring option" where
  "RingBuffer_Clone r =
     (case r of
        None \<Rightarrow> None
      | Some r \<Rightarrow> Some \<lparr>ri_mask = ri_mask r, ri_data = take (unat (ri_mask r + 1)) (ri_data r),
                       ri_head = ri_head r, ri_tail = ri_tail r\<rparr>)"

definition RingBuffer_Reset :: "'a \<Rightarrow> 'a Ring \<Rightarrow> 'a Ring" where
  "RingBuffer_Reset zero r =
     (let tail = ri_tail r; span = ri_mask r + 1 in
      r\<lparr>ri_data := map (\<lambda>i. \<lparr>rn_seq = tail + (of_nat i + span - tail mod span) mod span, rn_val = zero\<rparr>)
                      [0..<length (ri_data r)],
        ri_head := tail\<rparr>)"

text \<open>The predicate is a closure, so it carries a state from call to call.\<close>

partial_function (option) RingBuffer_DropWhile ::
    "'a \<Rightarrow> ('s \<Rightarrow> 'a \<Rightarrow> bool \<times> 's) \<Rightarrow> 's \<Rightarrow> int \<Rightarrow> 'a Ring \<Rightarrow> (int \<times> 's \<times> 'a Ring) outcome option" where
  "RingBuffer_DropWhile zero predicate s dropped r =
     (let head = ri_head r; tail = ri_tail r in
      if head = tail then Some (Return (dropped, s, r))
      else case slot r head of
        None \<Rightarrow> Some Panic
      | Some n \<Rightarrow>
          let diff = sint (rn_seq n - head - 1) in
          if diff < 0 then Some (Return (dropped, s, r))
          else if 0 < diff then RingBuffer_DropWhile zero predicate s dropped r
          else let verdict = predicate s (rn_val n) in
            if \<not> fst verdict then Some (Return (dropped, snd verdict, r))
            else RingBuffer_DropWhile zero predicate (snd verdict) (dropped + 1)
                   (set_slot head (head + ri_mask r + 1) zero (r\<lparr>ri_head := head + 1\<rparr>)))"

definition RingBuffer_At :: "'a Ring \<Rightarrow> int \<Rightarrow> 'a option outcome" where
  "RingBuffer_At r index =
     (if index < 0 then Return None
      else let position = ri_head r + word_of_int index in
        if ri_tail r \<le> position then Return None
        else case slot r position of
          None \<Rightarrow> Panic
        | Some n \<Rightarrow> if rn_seq n \<noteq> position + 1 then Return None else Return (Some (rn_val n)))"

partial_function (option) RingBuffer_First :: "'a Ring \<Rightarrow> 'a option outcome option" where
  "RingBuffer_First r =
     (let head = ri_head r in
      case slot r head of
        None \<Rightarrow> Some Panic
      | Some n \<Rightarrow>
          let diff = sint (rn_seq n - head - 1) in
          if diff < 0 then Some (Return None)
          else if diff = 0 then Some (Return (Some (rn_val n)))
          else RingBuffer_First r)"

partial_function (option) RingBuffer_Last :: "'a Ring \<Rightarrow> 'a option outcome option" where
  "RingBuffer_Last r =
     (let tail = ri_tail r in
      if tail = ri_head r then Some (Return None)
      else case slot r (tail - 1) of
        None \<Rightarrow> Some Panic
      | Some n \<Rightarrow> if rn_seq n = tail then Some (Return (Some (rn_val n))) else RingBuffer_Last r)"

definition RingBuffer_Data :: "'a Ring \<Rightarrow> 'a list outcome" where
  "RingBuffer_Data r = queue_data_from r (ri_head r)"

definition RingBuffer_Len :: "'a Ring \<Rightarrow> int" where
  "RingBuffer_Len r = sint (ri_tail r - ri_head r)"

definition RingBuffer_Cap :: "'a Ring \<Rightarrow> int" where
  "RingBuffer_Cap r = sint (ri_mask r + 1)"

section \<open>Invariant\<close>

text \<open>
  A ring of \<open>2 ^ k\<close> slots. The elements are at the positions from the head up to the tail, each in a
  slot marked with the position that follows it; the slot of every other position of the window is
  free. A free slot is marked with its position, and in a stack also with the mark an element of the
  round before would have.
\<close>

definition ring_shape :: "nat \<Rightarrow> 'a Ring \<Rightarrow> bool" where
  "ring_shape k r \<longleftrightarrow> k < 63 \<and> ri_mask r = mask k \<and> length (ri_data r) = 2 ^ k"

definition live :: "'a Ring \<Rightarrow> nat" where
  "live r = unat (ri_tail r - ri_head r)"

definition node :: "'a Ring \<Rightarrow> nat \<Rightarrow> 'a RingNode" where
  "node r i = ri_data r ! slot_index r (ri_head r + of_nat i)"

definition free_mark :: "bool \<Rightarrow> nat \<Rightarrow> 64 word \<Rightarrow> 64 word \<Rightarrow> bool" where
  "free_mark popped k s p \<longleftrightarrow> s = p \<or> popped \<and> s = p + 1 - 2 ^ k"

definition ring_inv :: "bool \<Rightarrow> nat \<Rightarrow> 'a Ring \<Rightarrow> bool" where
  "ring_inv popped k r \<longleftrightarrow> ring_shape k r \<and> live r \<le> 2 ^ k
     \<and> (\<forall>i < 2 ^ k. if i < live r then rn_seq (node r i) = ri_head r + of_nat i + 1
                   else free_mark popped k (rn_seq (node r i)) (ri_head r + of_nat i))"

definition contents :: "'a Ring \<Rightarrow> 'a list" where
  "contents r = map (\<lambda>i. rn_val (node r i)) [0..<live r]"

lemma length_contents [simp]: "length (contents r) = live r"
  by (simp add: contents_def)

lemma tail_eq: "ri_tail r = ri_head r + of_nat (live r)"
  by (simp add: live_def)

lemma slot_index_mod: "ring_shape k r \<Longrightarrow> slot_index r p = unat p mod 2 ^ k"
  by (simp add: ring_shape_def slot_index_def flip: take_bit_eq_mask take_bit_eq_mod)
     (simp add: unsigned_take_bit_eq)

lemma slot_index_shift:
  assumes "ring_shape k r"
  shows "slot_index r (p + of_nat i) = (unat p + i) mod 2 ^ k"
proof -
  have "(2 :: nat) ^ k dvd 2 ^ 64" using assms by (intro le_imp_power_dvd) (simp add: ring_shape_def)
  then have "(m mod 2 ^ 64) mod 2 ^ k = m mod 2 ^ k" for m :: nat by (rule mod_mod_cancel)
  moreover have "unat (p + of_nat i) = (unat p + i) mod 2 ^ 64"
    by (simp add: unat_word_ariths unat_of_nat mod_simps)
  ultimately show ?thesis by (simp add: slot_index_mod [OF assms])
qed

lemma slot_index_less: "ring_shape k r \<Longrightarrow> slot_index r p < length (ri_data r)"
  by (simp add: slot_index_mod) (simp add: ring_shape_def)

lemma slot_index_inj:
  assumes "ring_shape k r" "i < 2 ^ k" "j < 2 ^ k"
  shows "slot_index r (p + of_nat i) = slot_index r (p + of_nat j) \<longleftrightarrow> i = j"
proof
  assume "slot_index r (p + of_nat i) = slot_index r (p + of_nat j)"
  then have "(unat p + i) mod 2 ^ k = (unat p + j) mod 2 ^ k" by (simp add: slot_index_shift [OF assms(1)])
  then show "i = j" using assms(2,3) by (rule mod_shift_inj)
qed simp

lemma slot_index_round:
  "ring_shape k r \<Longrightarrow> slot_index r (p + of_nat (2 ^ k + i)) = slot_index r (p + of_nat i)"
  by (simp only: slot_index_shift add.left_commute [of _ "2 ^ k"]) simp

lemma slot_node: "ring_shape k r \<Longrightarrow> slot r (ri_head r + of_nat i) = Some (node r i)"
  by (simp add: slot_def slot_index_less node_def)

lemma slot_head: "ring_shape k r \<Longrightarrow> slot r (ri_head r) = Some (node r 0)"
  using slot_node [of k r 0] by simp

lemma ring_fields [simp]:
  "ri_mask (set_slot p s v r) = ri_mask r" "ri_head (set_slot p s v r) = ri_head r"
  "ri_tail (set_slot p s v r) = ri_tail r" "length (ri_data (set_slot p s v r)) = length (ri_data r)"
  "slot_index (set_slot p s v r) q = slot_index r q" "slot_index (r\<lparr>ri_tail := t\<rparr>) q = slot_index r q"
  "slot_index (r\<lparr>ri_head := t\<rparr>) q = slot_index r q"
  by (simp_all add: set_slot_def slot_index_def)

lemma set_slot_nth:
  assumes "ring_shape k r" "m < 2 ^ k" "j < 2 ^ k"
  shows "ri_data (set_slot (p + of_nat m) s v r) ! slot_index r (p + of_nat j)
           = (if j = m then \<lparr>rn_seq = s, rn_val = v\<rparr> else ri_data r ! slot_index r (p + of_nat j))"
  using assms slot_index_inj [OF assms, of p] slot_index_less [OF assms(1), of "p + of_nat m"]
  by (auto simp: set_slot_def)

lemma ring_shapeD:
  assumes "ring_shape k r"
  shows "k < 63" "ri_mask r = mask k" "ri_mask r + 1 = 2 ^ k" "unat (ri_mask r + 1) = 2 ^ k"
    "length (ri_data r) = 2 ^ k"
proof -
  show k: "k < 63" and "length (ri_data r) = 2 ^ k" and m: "ri_mask r = mask k"
    using assms by (simp_all add: ring_shape_def)
  show e: "ri_mask r + 1 = 2 ^ k" by (simp add: m mask_eq_exp_minus_1)
  have "(2 :: nat) ^ k < 2 ^ 64" using k by (intro power_strict_increasing) simp_all
  then have "unat (of_nat (2 ^ k) :: 64 word) = 2 ^ k" by (simp add: unat_of_nat take_bit_nat_eq_self del: of_nat_power)
  then show "unat (ri_mask r + 1) = 2 ^ k" by (simp add: e)
qed

lemma ring_invD:
  assumes "ring_inv popped k r"
  shows "ring_shape k r" "live r \<le> 2 ^ k"
    "i < live r \<Longrightarrow> rn_seq (node r i) = ri_head r + of_nat i + 1"
    "live r \<le> i \<Longrightarrow> i < 2 ^ k \<Longrightarrow> free_mark popped k (rn_seq (node r i)) (ri_head r + of_nat i)"
  using assms unfolding ring_inv_def by (auto dest: order.strict_trans2)

lemma ring_invI:
  assumes "ring_shape k r" "live r \<le> 2 ^ k"
    "\<And>i. i < live r \<Longrightarrow> i < 2 ^ k \<Longrightarrow> rn_seq (node r i) = ri_head r + of_nat i + 1"
    "\<And>i. live r \<le> i \<Longrightarrow> i < 2 ^ k \<Longrightarrow> free_mark popped k (rn_seq (node r i)) (ri_head r + of_nat i)"
  shows "ring_inv popped k r"
  using assms by (simp add: ring_inv_def)

lemma full_iff: "ring_shape k r \<Longrightarrow> ri_mask r + 1 \<le> ri_tail r - ri_head r \<longleftrightarrow> 2 ^ k \<le> live r"
  by (simp only: word_le_nat_alt ring_shapeD(4) live_def)

lemma pow_bound: "k < 63 \<Longrightarrow> (2 :: nat) ^ k \<le> 4611686018427387904"
  using power_increasing [of k 62 "2 :: nat"] by simp

lemma after_push_room:
  assumes "ring_inv popped k r" "live r < 2 ^ k"
  shows "ri_head (after_push v r) = ri_head r" "ring_shape k (after_push v r)"
    "live (after_push v r) = Suc (live r)"
    "j < 2 ^ k \<Longrightarrow> node (after_push v r) j
       = (if j = live r then \<lparr>rn_seq = ri_head r + of_nat j + 1, rn_val = v\<rparr> else node r j)"
proof -
  note sh = ring_invD(1) [OF assms(1)]
  have push: "after_push v r = set_slot (ri_tail r) (ri_tail r + 1) v (r\<lparr>ri_tail := ri_tail r + 1\<rparr>)"
    using assms(2) full_iff [OF sh] by (simp add: after_push_def Let_def)
  show h: "ri_head (after_push v r) = ri_head r" by (simp add: push)
  have sh': "ring_shape k (r\<lparr>ri_tail := ri_tail r + 1\<rparr>)" using sh by (simp add: ring_shape_def)
  then show "ring_shape k (after_push v r)" by (simp add: push ring_shape_def)
  have "live (after_push v r) = unat (of_nat (live r) + 1 :: 64 word)"
    by (simp add: push live_def algebra_simps)
  also have "\<dots> = Suc (live r)"
    using pow_bound [OF ring_shapeD(1) [OF sh]] assms(2) by (simp add: unat_word_ariths live_def)
  finally show "live (after_push v r) = Suc (live r)" .
  define t where "t = ri_head r + of_nat (live r)"
  have t: "ri_tail r = t" by (simp add: t_def tail_eq [symmetric])
  show "node (after_push v r) j
      = (if j = live r then \<lparr>rn_seq = ri_head r + of_nat j + 1, rn_val = v\<rparr> else node r j)" if "j < 2 ^ k"
    using set_slot_nth [OF sh' assms(2) that, of "ri_head r" "t + 1" v, folded t_def]
    unfolding node_def h by (simp add: push t) (simp add: t_def)
qed

lemma after_push_full:
  assumes "ring_inv popped k r" "live r = 2 ^ k"
  shows "ri_head (after_push v r) = ri_head r + 1" "ring_shape k (after_push v r)"
    "live (after_push v r) = live r"
    "j < 2 ^ k \<Longrightarrow> node (after_push v r) j
       = (if Suc j = 2 ^ k then \<lparr>rn_seq = ri_head r + 1 + of_nat j + 1, rn_val = v\<rparr> else node r (Suc j))"
proof -
  note sh = ring_invD(1) [OF assms(1)]
  define t where "t = ri_head r + of_nat (live r)"
  have t: "ri_tail r = t" by (simp add: t_def tail_eq [symmetric])
  have push: "after_push v r = set_slot t (t + 1) v (r\<lparr>ri_tail := t + 1\<rparr>)\<lparr>ri_head := ri_head r + 1\<rparr>"
    using assms(2) full_iff [OF sh] by (simp add: after_push_def Let_def t)
  show h: "ri_head (after_push v r) = ri_head r + 1" by (simp add: push)
  have sh': "ring_shape k (r\<lparr>ri_tail := t + 1\<rparr>)" using sh by (simp add: ring_shape_def)
  show "ring_shape k (after_push v r)" using sh by (simp add: push ring_shape_def)
  show "live (after_push v r) = live r" by (simp add: push live_def t)
  define h1 where "h1 = ri_head r + 1"
  define m where "m = (2 :: nat) ^ k - 1"
  have m: "m < 2 ^ k" "Suc m = 2 ^ k" by (simp_all add: m_def)
  have "t = ri_head r + of_nat (Suc m)" by (simp add: m assms(2) t_def)
  then have t1: "t = h1 + of_nat m" by (simp add: h1_def)
  show "node (after_push v r) j
       = (if Suc j = 2 ^ k then \<lparr>rn_seq = ri_head r + 1 + of_nat j + 1, rn_val = v\<rparr> else node r (Suc j))"
    if "j < 2 ^ k"
  proof -
    have last: "Suc j = 2 ^ k \<longleftrightarrow> j = m" by (auto simp: m_def)
    show ?thesis
      using set_slot_nth [OF sh' m(1) that, of h1 "t + 1" v, folded t1]
      unfolding node_def h last by (simp add: push h1_def [symmetric]) (simp add: t1 h1_def add.assoc)
  qed
qed

lemma after_push_inv: "ring_inv popped k r \<Longrightarrow> ring_inv popped k (after_push v r)"
proof (cases "live r < 2 ^ k")
  case True
  assume "ring_inv popped k r"
  then show ?thesis using True
    by (auto simp: ring_inv_def [of _ _ "after_push v r"] after_push_room ring_invD less_Suc_eq)
next
  case False
  assume inv: "ring_inv popped k r"
  then have full: "live r = 2 ^ k" using False ring_invD(2) [OF inv] by simp
  show ?thesis using full
    by (auto simp: ring_inv_def [of _ _ "after_push v r"] after_push_full [OF inv full]
        ring_invD [OF inv] Suc_lessI)
qed

lemma contents_eqI:
  "length xs = live r \<Longrightarrow> (\<And>i. i < live r \<Longrightarrow> rn_val (node r i) = xs ! i) \<Longrightarrow> contents r = xs"
  by (simp add: list_eq_iff_nth_eq contents_def)

lemma after_push_contents:
  assumes "ring_inv popped k r"
  shows "contents (after_push v r) = drop (Suc (live r) - 2 ^ k) (contents r @ [v])"
proof (cases "live r < 2 ^ k")
  case True
  then show ?thesis
    by (intro contents_eqI) (auto simp: after_push_room [OF assms True] nth_append contents_def)
next
  case False
  then have full: "live r = 2 ^ k" using ring_invD(2) [OF assms] by simp
  show ?thesis
    by (intro contents_eqI)
       (auto simp: after_push_full [OF assms full] full nth_append contents_def)
qed

lemma sint_full: "k < 63 \<Longrightarrow> sint (1 - 2 ^ k :: 64 word) \<le> 0"
proof -
  assume "k < 63"
  then have "(2 :: int) ^ k \<le> 2 ^ 63" by (intro power_increasing) simp_all
  moreover have "(1 :: int) \<le> 2 ^ k" by simp
  ultimately have "signed_take_bit 63 (1 - 2 ^ k :: int) = 1 - 2 ^ k"
    by (intro signed_take_bit_int_eq_self) linarith+
  then have "sint (word_of_int (1 - 2 ^ k) :: 64 word) = 1 - 2 ^ k"
    by (simp add: sint_sbintrunc' del: of_int_diff of_int_power)
  then show ?thesis by simp
qed

lemma push_slot:
  assumes "ring_inv popped k r"
  shows "\<exists>n. slot r (ri_tail r) = Some n \<and> sint (rn_seq n - ri_tail r) \<le> 0"
proof -
  note sh = ring_invD(1) [OF assms]
  have "sint (rn_seq (node r (live r)) - ri_tail r) \<le> 0"
  proof (cases "live r < 2 ^ k")
    case True
    then show ?thesis using ring_invD(4) [OF assms order.refl] sint_full [OF ring_shapeD(1) [OF sh]]
      by (auto simp: free_mark_def tail_eq [symmetric])
  next
    case False
    then have "live r = 2 ^ k" using ring_invD(2) [OF assms] by simp
    then have "node r (live r) = node r 0" and "0 < live r"
      using slot_index_round [OF sh, of "ri_head r" 0] by (simp_all add: node_def)
    moreover have "ri_head r + 1 - ri_tail r = 1 - 2 ^ k"
      using \<open>live r = 2 ^ k\<close> by (subst tail_eq) (simp add: algebra_simps)
    ultimately have "rn_seq (node r (live r)) - ri_tail r = 1 - 2 ^ k"
      using ring_invD(3) [OF assms, of 0] by simp
    then show ?thesis using sint_full [OF ring_shapeD(1) [OF sh]] by simp
  qed
  then show ?thesis using slot_node [OF sh, of "live r"] by (simp add: tail_eq [symmetric])
qed

lemma Push_returns:
  "ring_inv popped k r \<Longrightarrow> RingStack_Push v r = Some (Return (after_push v r))"
  using push_slot [of popped k r] by (subst RingStack_Push.simps) auto

section \<open>Removing an element\<close>

lemma live_pos: "ri_tail r \<noteq> ri_head r \<longleftrightarrow> 0 < live r"
  by (simp add: live_def unat_gt_0)

definition popped_ring :: "'a \<Rightarrow> 'a Ring \<Rightarrow> 'a Ring" where
  "popped_ring zero r =
     set_slot (ri_tail r - 1) (ri_tail r - ri_mask r - 1) zero (r\<lparr>ri_tail := ri_tail r - 1\<rparr>)"

definition dequeued_ring :: "'a \<Rightarrow> 'a Ring \<Rightarrow> 'a Ring" where
  "dequeued_ring zero r =
     set_slot (ri_head r) (ri_head r + ri_mask r + 1) zero (r\<lparr>ri_head := ri_head r + 1\<rparr>)"

lemma popped_ring_facts:
  assumes "ring_inv True k r" "0 < live r"
  shows "ring_inv True k (popped_ring zero r)" "contents (popped_ring zero r) = butlast (contents r)"
proof -
  note sh = ring_invD(1) [OF assms(1)] and le = ring_invD(2) [OF assms(1)]
  define m where "m = live r - 1"
  have m: "live r = Suc m" "m < 2 ^ k" using assms(2) le by (simp_all add: m_def)
  define q where "q = ri_head r + of_nat m"
  have "ri_tail r = ri_head r + of_nat (Suc m)" by (simp only: tail_eq m(1))
  then have t: "ri_tail r = q + 1" by (simp add: q_def)
  have pop: "popped_ring zero r = set_slot q (q + 1 - 2 ^ k) zero (r\<lparr>ri_tail := q\<rparr>)"
    by (simp add: popped_ring_def t ring_shapeD(2) [OF sh] mask_eq_exp_minus_1 algebra_simps)
  have sh': "ring_shape k (r\<lparr>ri_tail := q\<rparr>)" using sh by (simp add: ring_shape_def)
  have h: "ri_head (popped_ring zero r) = ri_head r" by (simp add: pop)
  have "live (popped_ring zero r) = unat (of_nat m :: 64 word)" by (simp add: live_def pop q_def)
  moreover have "of_nat (live r) = (of_nat m + 1 :: 64 word)" by (simp add: m(1))
  ultimately have l: "live (popped_ring zero r) = m"
    using pow_bound [OF ring_shapeD(1) [OF sh]] m(2) by (simp add: unat_of_nat)
  have n: "node (popped_ring zero r) j = (if j = m then \<lparr>rn_seq = q + 1 - 2 ^ k, rn_val = zero\<rparr> else node r j)"
    if "j < 2 ^ k" for j
    using set_slot_nth [OF sh' m(2) that, of "ri_head r" "q + 1 - 2 ^ k" zero, folded q_def]
    unfolding node_def h by (simp add: pop)
  show "ring_inv True k (popped_ring zero r)"
  proof (rule ring_invI, unfold l h)
    show "ring_shape k (popped_ring zero r)" using sh by (simp add: pop ring_shape_def)
    show "m \<le> 2 ^ k" using m by simp
    show "rn_seq (node (popped_ring zero r) i) = ri_head r + of_nat i + 1" if "i < m" "i < 2 ^ k" for i
      using that m ring_invD(3) [OF assms(1), of i] by (simp add: n)
    show "free_mark True k (rn_seq (node (popped_ring zero r) i)) (ri_head r + of_nat i)"
      if "m \<le> i" "i < 2 ^ k" for i
      using that m ring_invD(4) [OF assms(1), of i] by (cases "i = m") (simp_all add: n free_mark_def q_def)
  qed
  show "contents (popped_ring zero r) = butlast (contents r)"
    using m by (intro contents_eqI) (simp_all add: l n contents_def nth_butlast)
qed

lemma dequeued_ring_facts:
  assumes "ring_inv False k r" "0 < live r"
  shows "ring_inv False k (dequeued_ring zero r)" "contents (dequeued_ring zero r) = tl (contents r)"
    "live (dequeued_ring zero r) = live r - 1"
proof -
  note sh = ring_invD(1) [OF assms(1)] and le = ring_invD(2) [OF assms(1)]
  define h1 where "h1 = ri_head r + 1"
  define m where "m = (2 :: nat) ^ k - 1"
  have m: "m < 2 ^ k" "Suc m = 2 ^ k" by (simp_all add: m_def)
  have mark: "ri_head r + ri_mask r + 1 = h1 + of_nat m"
  proof -
    have "ri_head r + ri_mask r + 1 = ri_head r + of_nat (Suc m)"
      using ring_shapeD(3) [OF sh] by (simp add: m(2) add.assoc)
    then show ?thesis by (simp add: h1_def)
  qed
  have sh': "ring_shape k (r\<lparr>ri_head := h1\<rparr>)" using sh by (simp add: ring_shape_def)
  have same: "slot_index r (ri_head r) = slot_index r (h1 + of_nat m)"
  proof -
    have "h1 + of_nat m = ri_head r + of_nat (2 ^ k + 0)" unfolding m(2) [symmetric] by (simp add: h1_def)
    then show ?thesis by (simp only: slot_index_round [OF sh]) simp
  qed
  have deq: "dequeued_ring zero r = set_slot (h1 + of_nat m) (h1 + of_nat m) zero (r\<lparr>ri_head := h1\<rparr>)"
    by (simp add: dequeued_ring_def mark h1_def [symmetric] set_slot_def same)
  have h: "ri_head (dequeued_ring zero r) = h1" by (simp add: deq)
  have tail1: "ri_tail r - h1 = of_nat (live r - 1)"
    using assms(2) by (subst tail_eq) (simp add: h1_def of_nat_diff)
  have "live (dequeued_ring zero r) = unat (ri_tail r - h1)" by (simp add: live_def deq)
  then have "live (dequeued_ring zero r) = unat (of_nat (live r - 1) :: 64 word)" by (simp only: tail1)
  then show l: "live (dequeued_ring zero r) = live r - 1"
    using pow_bound [OF ring_shapeD(1) [OF sh]] le by (simp add: unat_of_nat)
  have n: "node (dequeued_ring zero r) j
        = (if Suc j = 2 ^ k then \<lparr>rn_seq = h1 + of_nat j, rn_val = zero\<rparr> else node r (Suc j))"
    if "j < 2 ^ k" for j
  proof -
    have last: "Suc j = 2 ^ k \<longleftrightarrow> j = m" by (auto simp: m_def)
    show ?thesis
      using set_slot_nth [OF sh' m(1) that, of h1 "h1 + of_nat m" zero]
      unfolding node_def h last by (simp add: deq) (simp add: h1_def add.assoc)
  qed
  show "ring_inv False k (dequeued_ring zero r)"
  proof (rule ring_invI, unfold l h)
    show "ring_shape k (dequeued_ring zero r)" using sh by (simp add: deq ring_shape_def)
    show "live r - 1 \<le> 2 ^ k" using le by simp
    show "rn_seq (node (dequeued_ring zero r) i) = h1 + of_nat i + 1" if "i < live r - 1" "i < 2 ^ k" for i
      using that le ring_invD(3) [OF assms(1), of "Suc i"] by (simp add: n h1_def add.assoc)
    show "free_mark False k (rn_seq (node (dequeued_ring zero r) i)) (h1 + of_nat i)"
      if "live r - 1 \<le> i" "i < 2 ^ k" for i
      using that ring_invD(4) [OF assms(1), of "Suc i"]
      by (cases "Suc i = 2 ^ k") (auto simp: n free_mark_def h1_def add.assoc)
  qed
  show "contents (dequeued_ring zero r) = tl (contents r)"
    using le by (intro contents_eqI) (auto simp: l n contents_def nth_tl)
qed

lemma sint_minus_1: "sint (- 1 :: 64 word) = - 1"
  by simp

lemma newest_slot:
  assumes "ring_inv popped k r" "0 < live r"
  shows "slot r (ri_tail r - 1) = Some (node r (live r - 1))" "rn_seq (node r (live r - 1)) = ri_tail r"
    "rn_val (node r (live r - 1)) = last (contents r)"
proof -
  note sh = ring_invD(1) [OF assms(1)]
  define m where "m = live r - 1"
  have m: "live r = Suc m" using assms(2) by (simp add: m_def)
  have "ri_tail r = ri_head r + of_nat (Suc m)" by (simp only: tail_eq m)
  then have t: "ri_tail r = ri_head r + of_nat m + 1" by simp
  show "slot r (ri_tail r - 1) = Some (node r (live r - 1))"
    using slot_node [OF sh, of m] by (simp add: t m)
  show "rn_seq (node r (live r - 1)) = ri_tail r" using ring_invD(3) [OF assms(1), of m] m t by simp
  show "rn_val (node r (live r - 1)) = last (contents r)" by (simp add: contents_def m)
qed

lemma oldest_slot:
  assumes "ring_inv False k r"
  shows "slot r (ri_head r) = Some (node r 0)"
    "sint (rn_seq (node r 0) - ri_head r - 1) = (if live r = 0 then - 1 else 0)"
    "0 < live r \<Longrightarrow> rn_val (node r 0) = hd (contents r)"
  using ring_invD(3,4) [OF assms, of 0] sint_minus_1
  by (auto simp: slot_head [OF ring_invD(1) [OF assms]] free_mark_def contents_def hd_map)

lemma Pop_returns:
  "ring_inv True k r \<Longrightarrow> RingStack_Pop zero r =
     Some (Return (if live r = 0 then (None, r) else (Some (last (contents r)), popped_ring zero r)))"
  using newest_slot [of True k r] live_pos [of r]
  by (subst RingStack_Pop.simps) (auto simp: popped_ring_def Let_def)

lemma Peek_returns:
  "ring_inv popped k r \<Longrightarrow>
     RingStack_Peek r = Some (Return (if live r = 0 then None else Some (last (contents r))))"
  using newest_slot [of popped k r] live_pos [of r] by (subst RingStack_Peek.simps) auto

lemma Last_returns:
  "ring_inv popped k r \<Longrightarrow>
     RingBuffer_Last r = Some (Return (if live r = 0 then None else Some (last (contents r))))"
  using newest_slot [of popped k r] live_pos [of r] by (subst RingBuffer_Last.simps) auto

lemma First_returns:
  "ring_inv False k r \<Longrightarrow>
     RingBuffer_First r = Some (Return (if live r = 0 then None else Some (hd (contents r))))"
  using oldest_slot [of k r] by (subst RingBuffer_First.simps) (simp add: Let_def)

lemma Dequeue_returns:
  "ring_inv False k r \<Longrightarrow> RingQueue_Dequeue zero r =
     Some (Return (if live r = 0 then (None, r) else (Some (hd (contents r)), dequeued_ring zero r)))"
  using oldest_slot [of k r] by (subst RingQueue_Dequeue.simps) (simp add: Let_def dequeued_ring_def)

text \<open>What \<open>DropWhile\<close> does to the sequence of elements.\<close>

fun drop_while_st :: "('s \<Rightarrow> 'a \<Rightarrow> bool \<times> 's) \<Rightarrow> 's \<Rightarrow> int \<Rightarrow> 'a list \<Rightarrow> int \<times> 's \<times> 'a list" where
  "drop_while_st predicate s dropped [] = (dropped, s, [])"
| "drop_while_st predicate s dropped (x # xs) =
     (let verdict = predicate s x in
      if fst verdict then drop_while_st predicate (snd verdict) (dropped + 1) xs
      else (dropped, snd verdict, x # xs))"

lemma contents_hd_tl: "0 < live r \<Longrightarrow> contents r = hd (contents r) # tl (contents r)"
  by (metis length_contents length_greater_0_conv list.collapse)

lemma DropWhile_returns:
  assumes "ring_inv False k r"
  shows "\<exists>r'. RingBuffer_DropWhile zero predicate s dropped r
             = Some (Return (fst (drop_while_st predicate s dropped (contents r)),
                             fst (snd (drop_while_st predicate s dropped (contents r))), r'))
           \<and> ring_inv False k r' \<and> contents r' = snd (snd (drop_while_st predicate s dropped (contents r)))
           \<and> ri_tail r' = ri_tail r"
  using assms
proof (induction "contents r" arbitrary: r s dropped)
  case Nil
  then have "live r = 0" by (metis length_contents list.size(3))
  then have "ri_head r = ri_tail r" using live_pos [of r] by simp
  then show ?case using Nil by (subst RingBuffer_DropWhile.simps) (simp flip: Nil.hyps)
next
  case (Cons x xs)
  then have pos: "0 < live r" by (metis length_contents length_greater_0_conv list.distinct(1))
  have ne: "ri_head r \<noteq> ri_tail r" using pos live_pos [of r] by auto
  have x: "rn_val (node r 0) = x" using oldest_slot(3) [OF Cons.prems pos] by (simp flip: Cons.hyps(2))
  have eq: "RingBuffer_DropWhile zero predicate s dropped r =
      (let verdict = predicate s x in
       if fst verdict
       then RingBuffer_DropWhile zero predicate (snd verdict) (dropped + 1) (dequeued_ring zero r)
       else Some (Return (dropped, snd verdict, r)))"
    using ne pos oldest_slot(1,2) [OF Cons.prems]
    by (subst RingBuffer_DropWhile.simps) (simp add: Let_def x dequeued_ring_def)
  show ?case
  proof (cases "fst (predicate s x)")
    case True
    have rest: "xs = contents (dequeued_ring zero r)"
      using dequeued_ring_facts(2) [OF Cons.prems pos] by (simp flip: Cons.hyps(2))
    from Cons.hyps(1) [OF rest dequeued_ring_facts(1) [OF Cons.prems pos], of "snd (predicate s x)" "dropped + 1"]
    show ?thesis using True by (simp add: eq flip: Cons.hyps(2) rest) (simp add: dequeued_ring_def)
  next
    case False
    then show ?thesis using Cons.prems by (simp add: eq flip: Cons.hyps(2))
  qed
qed

lemma reset_mark:
  fixes t :: "64 word"
  assumes "k < 63" "j < 2 ^ k" "i = (unat t + j) mod 2 ^ k"
  shows "(of_nat i + 2 ^ k - t mod 2 ^ k) mod 2 ^ k = (of_nat j :: 64 word)"
proof -
  define K where "K = (2 :: nat) ^ k"
  define a where "a = unat t mod K"
  note bound = pow_bound [OF assms(1), folded K_def]
  have K: "0 < K" "j < K" "a < K" "i < K" using assms(2) by (simp_all add: K_def a_def assms(3))
  have w: "(2 ^ k :: 64 word) = of_nat K" by (simp add: K_def)
  have small: "unat (of_nat n :: 64 word) = n" if "n < 2 * K" for n
    using that bound by (simp add: unat_of_nat)
  have wK: "unat (of_nat K :: 64 word) = K" using small [of K] K by simp
  have tm: "t mod 2 ^ k = of_nat a" unfolding w a_def by (simp only: word_arith_nat_mod wK)
  have "(of_nat i + 2 ^ k - t mod 2 ^ k :: 64 word) = of_nat (i + K - a)"
    unfolding tm unfolding w using K by (simp add: of_nat_diff)
  then have "unat ((of_nat i + 2 ^ k - t mod 2 ^ k) mod 2 ^ k :: 64 word) = (i + K - a) mod K"
    using small [of "i + K - a"] wK K unfolding w by (simp only: unat_mod)
  also have "\<dots> = j"
  proof -
    have "i = (a + j) mod K" by (simp add: assms(3) a_def K_def mod_simps)
    then have "i = (if a + j < K then a + j else a + j - K)" using K by (simp add: le_mod_geq)
    then show ?thesis using K by (cases "a + j < K") simp_all
  qed
  finally have "unat ((of_nat i + 2 ^ k - t mod 2 ^ k) mod 2 ^ k :: 64 word) = unat (of_nat j :: 64 word)"
    using small [of j] K by simp
  then show ?thesis by (simp only: word_unat_eq_iff)
qed

lemma Reset_facts:
  assumes "ring_shape k r"
  shows "ring_inv False k (RingBuffer_Reset zero r)" "contents (RingBuffer_Reset zero r) = []"
    "ri_tail (RingBuffer_Reset zero r) = ri_tail r"
proof -
  let ?r = "RingBuffer_Reset zero r"
  have f: "ri_mask ?r = ri_mask r" "ri_head ?r = ri_tail r" "length (ri_data ?r) = length (ri_data r)"
    by (simp_all add: RingBuffer_Reset_def Let_def)
  show t: "ri_tail ?r = ri_tail r" by (simp add: RingBuffer_Reset_def Let_def)
  have sh: "ring_shape k ?r" using assms by (simp add: ring_shape_def f)
  have l: "live ?r = 0" by (simp add: live_def f t)
  show "contents ?r = []" by (simp add: contents_def l)
  show "ring_inv False k ?r"
  proof (rule ring_invI [OF sh], unfold l f)
    fix i :: nat assume i: "i < 2 ^ k"
    have idx: "slot_index ?r (ri_tail r + of_nat i) = (unat (ri_tail r) + i) mod 2 ^ k"
      by (rule slot_index_shift [OF sh])
    have "rn_seq (node ?r i) = ri_tail r + of_nat i"
      using reset_mark [OF ring_shapeD(1) [OF assms] i refl, of "ri_tail r"] ring_shapeD(3,5) [OF assms]
      by (simp add: node_def f idx) (simp add: RingBuffer_Reset_def Let_def)
    then show "free_mark False k (rn_seq (node ?r i)) (ri_tail r + of_nat i)" by (simp add: free_mark_def)
  qed simp_all
qed

end
