(* ===== verification/Ring_Window.thy ===== *)
theory Ring_Window
  imports Ring_Buffer
begin

text \<open>
  What the ring containers of \<open>pkg/utils/datax/ring.go\<close> promise their callers. The constructors pad
  the size to a power of two and build an empty ring. The locale \<open>window\<close> is the contract a caller of
  \<open>RingBuffer\<close> relies on: a bounded sequence whose oldest elements make place for new ones. It is
  interpreted on the ring; the refinement theorems state it for every sequence of calls of the
  buffer, the queue and the stack.
\<close>

section \<open>Construction\<close>

lemma pow2_of_and_pred:
  fixes n :: nat
  assumes "and n (n - 1) = 0" "0 < n"
  shows "\<exists>k. n = 2 ^ k"
  using assms
proof (induction n rule: less_induct)
  case (less n)
  show ?case
  proof (cases "even n")
    case True
    then obtain m where n: "n = 2 * m" by (elim evenE)
    then have m: "0 < m" "m < n" using less.prems(2) by simp_all
    have "(n - 1) div 2 = m - 1" "n div 2 = m" using m n by simp_all
    then have "and n (n - 1) = 2 * and m (m - 1)"
      by (subst and_nat_rec) (simp add: n)
    then have "and m (m - 1) = 0" using less.prems(1) by simp
    then obtain k where "m = 2 ^ k" using less.IH [OF m(2) _ m(1)] by blast
    then have "n = 2 ^ Suc k" by (simp add: n)
    then show ?thesis ..
  next
    case False
    then obtain m where n: "n = 2 * m + 1" by (elim oddE)
    have "and n (n - 1) = 2 * m"
      by (subst and_nat_rec) (simp add: n)
    then have "n = 2 ^ 0" using less.prems(1) n by simp
    then show ?thesis ..
  qed
qed

lemma Len64_bounds:
  "unat x < 2 ^ Len64 x \<and> (x \<noteq> 0 \<longrightarrow> 2 ^ (Len64 x - 1) \<le> unat x)"
proof (induction x rule: Len64.induct)
  case (1 x)
  show ?case
  proof (cases "x = 0")
    case True
    then show ?thesis by simp
  next
    case False
    define d where "d = drop_bit 1 x"
    have half: "unat d = unat x div 2" by (simp add: d_def drop_bit_eq_div unat_div)
    have len: "Len64 x = Suc (Len64 d)" using False by (subst Len64.simps) (simp add: d_def)
    note IH = 1 [OF False, folded d_def]
    show ?thesis
    proof (cases "d = 0")
      case True
      then have "unat x div 2 = 0" using half by simp
      moreover have "Len64 d = 0" using True by (subst Len64.simps) simp
      ultimately show ?thesis using False by (auto simp: len unat_gt_0 Suc_le_eq)
    next
      case nz: False
      then obtain l where l: "Len64 d = Suc l" by (subst (asm) Len64.simps) auto
      from IH nz have "unat x div 2 < 2 ^ Suc l" "2 ^ l \<le> unat x div 2"
        by (simp_all add: half l)
      then show ?thesis by (simp add: len l) linarith
    qed
  qed
qed

text \<open>The padded size is the least power of two that holds the requested one.\<close>

lemma pad_size_pow2:
  assumes "sz \<noteq> 0" "unat sz \<le> 2 ^ 62"
  obtains k where "k < 63" "pad_size sz = 2 ^ k" "unat sz \<le> 2 ^ k" "2 ^ k < 2 * unat sz"
proof (cases "sz AND (sz - 1) = 0")
  case True
  have pos: "0 < unat sz" using assms(1) by (simp add: unat_gt_0)
  have pred: "unat (sz - 1) = unat sz - 1" using assms(1) by (rule unat_minus_one)
  have "and (unat sz) (unat sz - 1) = unat (sz AND (sz - 1))" by (simp only: unsigned_and_eq pred)
  then obtain k where k: "unat sz = 2 ^ k" using pow2_of_and_pred pos True by force
  have "k < 63"
  proof (rule ccontr)
    assume "\<not> k < 63"
    then have "(2 :: nat) ^ 63 \<le> 2 ^ k" by (intro power_increasing) simp_all
    then show False using assms(2) k by simp
  qed
  moreover have "pad_size sz = 2 ^ k"
  proof -
    have "sz = of_nat (2 ^ k)" by (simp only: k [symmetric]) simp
    then show ?thesis using True by (simp add: pad_size_def)
  qed
  ultimately show thesis using k by (intro that [of k]) simp_all
next
  case False
  then have ne: "sz - 1 \<noteq> 0" by auto
  have pred: "unat (sz - 1) = unat sz - 1" using assms(1) by (rule unat_minus_one)
  define l where "l = Len64 (sz - 1)"
  have hi: "unat sz - 1 < 2 ^ l" and lo: "2 ^ (l - 1) \<le> unat sz - 1"
    using Len64_bounds [of "sz - 1"] ne by (simp_all add: l_def pred)
  have l0: "0 < l"
  proof (rule ccontr)
    assume "\<not> 0 < l"
    then have "unat (sz - 1) = 0" using hi by (simp add: pred)
    then show False using ne by (metis unat_gt_0 less_irrefl)
  qed
  have "l < 63"
  proof (rule ccontr)
    assume "\<not> l < 63"
    then have "(2 :: nat) ^ 62 \<le> 2 ^ (l - 1)" by (intro power_increasing) simp_all
    then have "(2 :: nat) ^ 62 \<le> unat sz - 1" using lo by (rule order_trans)
    then show False using assms(2) by (simp add: le_diff_conv)
  qed
  moreover have "pad_size sz = 2 ^ l" using False by (simp add: pad_size_def l_def push_bit_eq_mult)
  moreover have "(2 :: nat) ^ l = 2 * 2 ^ (l - 1)" using l0 by (cases l) simp_all
  then have "2 ^ l < 2 * unat sz" using lo assms(1) unat_gt_0 [of sz] by linarith
  ultimately show thesis using hi by (intro that [of l]) simp_all
qed

lemma NewRing_facts:
  assumes "sz \<noteq> 0" "unat sz \<le> 2 ^ 62"
  obtains k r where "NewRingStack zero sz = Return r" "k < 63" "unat sz \<le> 2 ^ k" "2 ^ k < 2 * unat sz"
    "ring_inv popped k r" "contents r = []" "ri_head r = 0" "ri_tail r = 0"
proof -
  obtain k where k: "k < 63" "pad_size sz = 2 ^ k" "unat sz \<le> 2 ^ k" "2 ^ k < 2 * unat sz"
    using assms by (rule pad_size_pow2)
  define r where "r = \<lparr>ri_mask = 2 ^ k - 1, ri_data = map (\<lambda>i. \<lparr>rn_seq = of_nat i, rn_val = zero\<rparr>) [0..<2 ^ k],
      ri_head = 0, ri_tail = 0\<rparr>"
  have "unat (of_nat (2 ^ k) :: 64 word) = 2 ^ k" using pow_bound [OF k(1)] by (simp add: unat_of_nat del: of_nat_power)
  then have "unat (2 ^ k :: 64 word) = 2 ^ k" by simp
  then have "NewRingStack zero sz = Return r"
    using assms(1) by (simp add: NewRingStack_def Let_def k(2) r_def)
  moreover have sh: "ring_shape k r" using k(1) by (simp add: ring_shape_def r_def mask_eq_exp_minus_1)
  have l: "live r = 0" by (simp add: live_def r_def)
  have h: "ri_head r = 0" "ri_tail r = 0" by (simp_all add: r_def)
  have "rn_seq (node r i) = of_nat i" if "i < 2 ^ k" for i
    using that slot_index_shift [OF sh, of 0 i] by (simp add: node_def h) (simp add: r_def)
  then have "ring_inv popped k r"
    by (intro ring_invI [OF sh]) (simp_all add: l h free_mark_def)
  moreover have "contents r = []" by (simp add: contents_def l)
  ultimately show thesis using k(1,3,4) h by (intro that)
qed

section \<open>Observations\<close>

text \<open>
  The counters are compared as plain numbers by \<open>Data\<close> and \<open>At\<close>, which is right as long as they have
  not wrapped: \<open>counted n r\<close> says that \<open>n\<close> more elements can be added before they leave the range of
  an \<open>int64\<close>.
\<close>

definition counted :: "nat \<Rightarrow> 'a Ring \<Rightarrow> bool" where
  "counted n r \<longleftrightarrow> ri_head r \<le> ri_tail r \<and> unat (ri_tail r) + n < 2 ^ 63"

lemma counted_tail: "counted n r \<Longrightarrow> unat (ri_tail r) = unat (ri_head r) + live r"
  by (simp add: counted_def live_def unat_sub word_le_nat_alt)

lemma sint_small:
  fixes w :: "64 word"
  assumes "unat w < 9223372036854775808"
  shows "sint w = int (unat w)"
proof -
  have "signed_take_bit 63 (int m) = int m" if "m < 9223372036854775808" for m
    using that by (intro signed_take_bit_int_eq_self) simp_all
  from this [OF assms] show ?thesis by (simp add: sint_uint)
qed

lemma Len_live:
  assumes "ring_inv popped k r"
  shows "RingBuffer_Len r = int (live r)"
  unfolding RingBuffer_Len_def live_def
proof (rule sint_small)
  show "unat (ri_tail r - ri_head r) < 9223372036854775808"
    using ring_invD(2) [OF assms] pow_bound [OF ring_shapeD(1) [OF ring_invD(1) [OF assms]]]
    unfolding live_def by linarith
qed

lemma Cap_pow2:
  assumes "ring_inv popped k r"
  shows "RingBuffer_Cap r = 2 ^ k"
proof -
  note sh = ring_invD(1) [OF assms]
  have "sint (ri_mask r + 1) = int (unat (ri_mask r + 1))"
    using pow_bound [OF ring_shapeD(1) [OF sh]] by (intro sint_small) (simp only: ring_shapeD(4) [OF sh])
  then show ?thesis by (simp only: RingBuffer_Cap_def ring_shapeD(4) [OF sh]) simp
qed

lemma position_unat:
  "counted n r \<Longrightarrow> i \<le> live r \<Longrightarrow> unat (ri_head r + of_nat i) = unat (ri_head r) + i"
  using counted_tail [of n r] by (simp add: unat_word_ariths unat_of_nat counted_def mod_simps)

lemma position_less:
  "counted n r \<Longrightarrow> i \<le> live r \<Longrightarrow> ri_head r + of_nat i < ri_tail r \<longleftrightarrow> i < live r"
  using counted_tail [of n r] position_unat [of n r i] by (simp add: word_less_nat_alt)

lemma contents_nth: "i < live r \<Longrightarrow> contents r ! i = rn_val (node r i)"
  by (simp add: contents_def)

lemma queue_data_from_contents:
  assumes "ring_inv False k r" "counted n r" "i \<le> live r"
  shows "queue_data_from r (ri_head r + of_nat i) = Return (drop i (contents r))"
  using assms(3)
proof (induction "live r - i" arbitrary: i)
  case 0
  then show ?case using position_less [OF assms(2), of i] by (subst queue_data_from.simps) simp
next
  case (Suc d)
  then have i: "i < live r" and d: "d = live r - Suc i" by simp_all
  have step: "ri_head r + of_nat i + 1 = ri_head r + of_nat (Suc i)" by simp
  have next_i: "queue_data_from r (ri_head r + of_nat i + 1) = Return (drop (Suc i) (contents r))"
    unfolding step using Suc.hyps(1) [OF d] i by simp
  show ?case
    using position_less [OF assms(2), of i] i ring_invD(3) [OF assms(1) i] slot_node [OF ring_invD(1) [OF assms(1)], of i]
    by (subst queue_data_from.simps) (simp add: next_i contents_nth flip: Cons_nth_drop_Suc)
qed

lemma At_contents:
  assumes "ring_inv False k r" "counted n r" "int64 index"
  shows "RingBuffer_At r index
     = Return (if 0 \<le> index \<and> index < int (live r) then Some (contents r ! nat index) else None)"
proof (cases "index < 0")
  case True
  then show ?thesis by (simp add: RingBuffer_At_def)
next
  case False
  define i where "i = nat index"
  have i: "index = int i" "i < 2 ^ 63" using False assms(3) by (simp_all add: i_def int64_def nat_less_iff)
  have "unat (ri_head r) < 2 ^ 63" using counted_tail [OF assms(2)] assms(2) by (simp add: counted_def)
  then have u: "unat (ri_head r + of_nat i) = unat (ri_head r) + i"
    using i(2) by (simp add: unat_word_ariths unat_of_nat mod_simps)
  have "ri_tail r \<le> ri_head r + of_nat i \<longleftrightarrow> live r \<le> i"
    using u counted_tail [OF assms(2)] by (simp add: word_le_nat_alt)
  then show ?thesis
    using False ring_invD(3) [OF assms(1), of i] slot_node [OF ring_invD(1) [OF assms(1)], of i]
    by (simp add: RingBuffer_At_def Let_def i(1) contents_def add.assoc)
qed

lemma stack_data_from_contents:
  assumes "ring_inv popped k r" "counted n r" "i \<le> live r"
  shows "stack_data_from r (ri_head r + of_nat i) = Return (rev (take i (contents r)))"
  using assms(3)
proof (induction i)
  case 0
  then show ?case by (subst stack_data_from.simps) simp
next
  case (Suc i)
  then have i: "i < live r" by simp
  have pred: "ri_head r + of_nat (Suc i) - 1 = ri_head r + of_nat i" by simp
  have above: "ri_head r < ri_head r + of_nat (Suc i)"
    using position_unat [OF assms(2) Suc.prems] by (simp add: word_less_nat_alt del: of_nat_Suc)
  have mark: "rn_seq (node r i) = ri_head r + of_nat (Suc i)"
    using ring_invD(3) [OF assms(1) i] by (simp add: add.commute add.left_commute)
  show ?case
    using Suc.IH i above mark slot_node [OF ring_invD(1) [OF assms(1)], of i]
    by (subst stack_data_from.simps, unfold pred)
       (simp add: take_Suc_conv_app_nth contents_nth del: of_nat_Suc)
qed

lemma Clone_same: "ring_inv popped k r \<Longrightarrow> RingBuffer_Clone (Some r) = Some r"
  using ring_shapeD(4,5) [OF ring_invD(1) [of popped k r]] by (simp add: RingBuffer_Clone_def)

section \<open>The contract of a window\<close>

definition last_n :: "nat \<Rightarrow> 'a list \<Rightarrow> 'a list" where
  "last_n n xs = drop (length xs - n) xs"

lemma last_n_all [simp]: "length xs \<le> n \<Longrightarrow> last_n n xs = xs"
  by (simp add: last_n_def)

lemma length_last_n [simp]: "length (last_n n xs) = min n (length xs)"
  by (simp add: last_n_def)

lemma last_n_append: "last_n n (last_n n xs @ ys) = last_n n (xs @ ys)"
  by (cases "length xs \<le> n") (simp_all add: last_n_def add.commute)

text \<open>
  \<open>inv n r\<close> is the invariant of a window that can take \<open>n\<close> more elements, \<open>items r\<close> what it holds,
  oldest first.
\<close>

locale window =
  fixes cap :: nat
    and inv :: "nat \<Rightarrow> 'r \<Rightarrow> bool"
    and items :: "'r \<Rightarrow> 'a list"
    and push :: "'a \<Rightarrow> 'r \<Rightarrow> 'r outcome option"
    and prune :: "('s \<Rightarrow> 'a \<Rightarrow> bool \<times> 's) \<Rightarrow> 's \<Rightarrow> int \<Rightarrow> 'r \<Rightarrow> (int \<times> 's \<times> 'r) outcome option"
    and clear :: "'r \<Rightarrow> 'r"
    and len :: "'r \<Rightarrow> int"
    and item_at :: "'r \<Rightarrow> int \<Rightarrow> 'a option outcome"
    and oldest :: "'r \<Rightarrow> 'a option outcome option"
    and newest :: "'r \<Rightarrow> 'a option outcome option"
    and all_items :: "'r \<Rightarrow> 'a list outcome"
  assumes bounded: "inv n r \<Longrightarrow> length (items r) \<le> cap"
    and weaken: "inv n r \<Longrightarrow> m \<le> n \<Longrightarrow> inv m r"
    and push_law: "inv (Suc n) r \<Longrightarrow>
      \<exists>r'. push v r = Some (Return r') \<and> inv n r' \<and> items r' = last_n cap (items r @ [v])"
    and prune_law: "inv n r \<Longrightarrow>
      \<exists>r'. prune p s d r = Some (Return (fst (drop_while_st p s d (items r)),
                                          fst (snd (drop_while_st p s d (items r))), r'))
         \<and> inv n r' \<and> items r' = snd (snd (drop_while_st p s d (items r)))"
    and clear_law: "inv n r \<Longrightarrow> inv n (clear r) \<and> items (clear r) = []"
    and len_law: "inv n r \<Longrightarrow> len r = int (length (items r))"
    and at_law: "inv n r \<Longrightarrow> int64 i \<Longrightarrow> item_at r i =
      Return (if 0 \<le> i \<and> i < int (length (items r)) then Some (items r ! nat i) else None)"
    and oldest_law: "inv n r \<Longrightarrow> oldest r = Some (Return (if items r = [] then None else Some (hd (items r))))"
    and newest_law: "inv n r \<Longrightarrow> newest r = Some (Return (if items r = [] then None else Some (last (items r))))"
    and all_law: "inv n r \<Longrightarrow> all_items r = Return (items r)"
begin

text \<open>A predicate that ignores its state is a plain \<open>dropWhile\<close>.\<close>

lemma prune_stateless:
  assumes "inv n r"
  shows "\<exists>d' r'. prune (\<lambda>s x. (p x, s)) s d r = Some (Return (d', s, r')) \<and> inv n r'
           \<and> items r' = dropWhile p (items r)"
proof -
  have "snd (snd (drop_while_st (\<lambda>s x. (p x, s)) s d xs)) = dropWhile p xs
      \<and> fst (snd (drop_while_st (\<lambda>s x. (p x, s)) s d xs)) = s" for xs
    by (induction xs arbitrary: d) simp_all
  then show ?thesis using prune_law [OF assms, of "\<lambda>s x. (p x, s)" s d] by auto
qed

text \<open>Adding a batch keeps the newest elements that fit.\<close>

fun push_all :: "'a list \<Rightarrow> 'r \<Rightarrow> 'r outcome option" where
  "push_all [] r = Some (Return r)"
| "push_all (v # vs) r =
     (case push v r of
        None \<Rightarrow> None | Some Panic \<Rightarrow> Some Panic | Some (Return r') \<Rightarrow> push_all vs r')"

lemma push_all_items:
  assumes "inv (n + length vs) r"
  shows "\<exists>r'. push_all vs r = Some (Return r') \<and> inv n r' \<and> items r' = last_n cap (items r @ vs)"
  using assms
proof (induction vs arbitrary: r)
  case Nil
  then show ?case using bounded [of n r] by simp
next
  case (Cons v vs)
  then obtain r1 where r1: "push v r = Some (Return r1)" "inv (n + length vs) r1"
      "items r1 = last_n cap (items r @ [v])"
    using push_law [of "n + length vs" r v] by auto
  obtain r' where "push_all vs r1 = Some (Return r')" "inv n r'" "items r' = last_n cap (items r1 @ vs)"
    using Cons.IH [OF r1(2)] by auto
  then show ?case using r1 by (simp add: last_n_append)
qed

end

definition buffer_inv :: "nat \<Rightarrow> nat \<Rightarrow> 'a Ring \<Rightarrow> bool" where
  "buffer_inv k n r \<longleftrightarrow> ring_inv False k r \<and> counted n r"

lemma counted_push:
  assumes "counted (Suc n) r"
  shows "counted n (after_push v r)"
proof -
  have "unat (ri_tail r + 1) = Suc (unat (ri_tail r))" "ri_tail (after_push v r) = ri_tail r + 1"
    using assms by (simp_all add: counted_def unat_word_ariths after_push_def Let_def)
  moreover have "ri_head (after_push v r) = ri_head r \<or> ri_head (after_push v r) = ri_head r + 1"
    by (simp add: after_push_def Let_def)
  moreover have "unat (ri_head r + 1) = Suc (unat (ri_head r))"
    using assms by (simp add: counted_def unat_word_ariths word_le_nat_alt)
  ultimately show ?thesis using assms by (auto simp: counted_def word_le_nat_alt)
qed

lemma counted_weaken: "counted n r \<Longrightarrow> m \<le> n \<Longrightarrow> counted m r"
  by (simp add: counted_def)

lemma buffer_push:
  assumes "buffer_inv k (Suc n) r"
  shows "\<exists>r'. RingBuffer_Push v r = Some (Return r') \<and> buffer_inv k n r'
           \<and> contents r' = last_n (2 ^ k) (contents r @ [v])"
proof -
  have inv: "ring_inv False k r" and cnt: "counted (Suc n) r" using assms by (simp_all add: buffer_inv_def)
  have "counted n (after_push v r)" using cnt by (rule counted_push)
  then show ?thesis using after_push_inv [OF inv, of v] after_push_contents [OF inv, of v]
    by (simp add: RingBuffer_Push_def Push_returns [OF inv] buffer_inv_def last_n_def)
qed

lemma buffer_prune:
  assumes "buffer_inv k n r"
  shows "\<exists>r'. RingBuffer_DropWhile zero p s d r = Some (Return (fst (drop_while_st p s d (contents r)),
                                          fst (snd (drop_while_st p s d (contents r))), r'))
         \<and> buffer_inv k n r' \<and> contents r' = snd (snd (drop_while_st p s d (contents r)))"
proof -
  have inv: "ring_inv False k r" and cnt: "counted n r" using assms by (simp_all add: buffer_inv_def)
  obtain r' where r': "RingBuffer_DropWhile zero p s d r = Some (Return (fst (drop_while_st p s d (contents r)),
                                          fst (snd (drop_while_st p s d (contents r))), r'))"
      "ring_inv False k r'" "contents r' = snd (snd (drop_while_st p s d (contents r)))" "ri_tail r' = ri_tail r"
    using DropWhile_returns [OF inv, of zero p s d] by blast
  have "length (snd (snd (drop_while_st p s d xs))) \<le> length xs" for xs :: "'a list"
    by (induction xs arbitrary: s d) (simp_all add: Let_def le_SucI)
  then have "live r' \<le> live r" using r'(3) by (metis length_contents)
  have "ri_head r' = ri_tail r - of_nat (live r')" using r'(4) by (simp add: live_def)
  then have "ri_head r' = ri_head r + of_nat (live r - live r')"
    using \<open>live r' \<le> live r\<close> tail_eq [of r] by (simp add: of_nat_diff)
  then have "unat (ri_head r') = unat (ri_head r) + (live r - live r')"
    using position_unat [OF cnt, of "live r - live r'"] by simp
  then have "counted n r'" using cnt counted_tail [OF cnt] by (simp add: counted_def word_le_nat_alt r'(4))
  then show ?thesis using r' by (auto simp: buffer_inv_def)
qed

interpretation ring: window "2 ^ k" "buffer_inv k" contents RingBuffer_Push "RingBuffer_DropWhile zero"
    "RingBuffer_Reset zero" RingBuffer_Len RingBuffer_At RingBuffer_First RingBuffer_Last RingBuffer_Data
  for k and zero :: 'a
proof
  fix n m i v and r :: "'a Ring" and p :: "'b \<Rightarrow> 'a \<Rightarrow> bool \<times> 'b" and s d
  show "buffer_inv k (Suc n) r \<Longrightarrow> \<exists>r'. RingBuffer_Push v r = Some (Return r') \<and> buffer_inv k n r'
          \<and> contents r' = last_n (2 ^ k) (contents r @ [v])"
    by (rule buffer_push)
  assume inv: "buffer_inv k n r"
  then have ring: "ring_inv False k r" and cnt: "counted n r" by (simp_all add: buffer_inv_def)
  have empty: "contents r = [] \<longleftrightarrow> live r = 0" by (metis length_contents length_0_conv)
  show "length (contents r) \<le> 2 ^ k" using ring_invD(2) [OF ring] by simp
  show "m \<le> n \<Longrightarrow> buffer_inv k m r" using inv by (auto simp: buffer_inv_def counted_def)
  show "\<exists>r'. RingBuffer_DropWhile zero p s d r = Some (Return (fst (drop_while_st p s d (contents r)),
                                          fst (snd (drop_while_st p s d (contents r))), r'))
         \<and> buffer_inv k n r' \<and> contents r' = snd (snd (drop_while_st p s d (contents r)))"
    by (rule buffer_prune [OF inv])
  show "buffer_inv k n (RingBuffer_Reset zero r) \<and> contents (RingBuffer_Reset zero r) = []"
    using Reset_facts [OF ring_invD(1) [OF ring], of zero] cnt
    by (simp add: buffer_inv_def counted_def) (simp add: RingBuffer_Reset_def Let_def)
  show "RingBuffer_Len r = int (length (contents r))" by (simp add: Len_live [OF ring])
  show "int64 i \<Longrightarrow> RingBuffer_At r i =
      Return (if 0 \<le> i \<and> i < int (length (contents r)) then Some (contents r ! nat i) else None)"
    by (simp add: At_contents [OF ring cnt])
  show "RingBuffer_First r = Some (Return (if contents r = [] then None else Some (hd (contents r))))"
    by (simp add: First_returns [OF ring] empty)
  show "RingBuffer_Last r = Some (Return (if contents r = [] then None else Some (last (contents r))))"
    by (simp add: Last_returns [OF ring] empty)
  show "RingBuffer_Data r = Return (contents r)"
    using queue_data_from_contents [OF ring cnt, of 0] by (simp add: RingBuffer_Data_def)
qed

section \<open>Sequences of calls\<close>

text \<open>
  A simulation of a container by a specification on lists. One call consumes one unit of the budget
  of \<open>inv\<close>; the container answers what the specification answers.
\<close>

fun run_calls :: "('op \<Rightarrow> 'r \<Rightarrow> ('out \<times> 'r) outcome option) \<Rightarrow> 'op list \<Rightarrow> 'r
    \<Rightarrow> ('out list \<times> 'r) outcome option" where
  "run_calls call [] r = Some (Return ([], r))"
| "run_calls call (c # cs) r =
     (case call c r of
        Some (Return (out, r)) \<Rightarrow>
          (case run_calls call cs r of
             Some (Return (outs, r)) \<Rightarrow> Some (Return (out # outs, r))
           | failed \<Rightarrow> failed)
      | Some Panic \<Rightarrow> Some Panic
      | None \<Rightarrow> None)"

fun run_spec :: "('op \<Rightarrow> 'x \<Rightarrow> 'out \<times> 'x) \<Rightarrow> 'op list \<Rightarrow> 'x \<Rightarrow> 'out list \<times> 'x" where
  "run_spec spec [] x = ([], x)"
| "run_spec spec (c # cs) x =
     (let (out, x) = spec c x; (outs, x) = run_spec spec cs x in (out # outs, x))"

locale call_simulation =
  fixes inv :: "nat \<Rightarrow> 'r \<Rightarrow> bool" and items :: "'r \<Rightarrow> 'x"
    and call :: "'op \<Rightarrow> 'r \<Rightarrow> ('out \<times> 'r) outcome option" and spec :: "'op \<Rightarrow> 'x \<Rightarrow> 'out \<times> 'x"
    and ok :: "'op \<Rightarrow> bool"
  assumes call_refines: "inv (Suc n) r \<Longrightarrow> ok c \<Longrightarrow>
    \<exists>r'. call c r = Some (Return (fst (spec c (items r)), r')) \<and> inv n r' \<and> items r' = snd (spec c (items r))"
begin

lemma run_refines:
  assumes "inv (n + length cs) r" "list_all ok cs"
  shows "\<exists>r'. run_calls call cs r = Some (Return (fst (run_spec spec cs (items r)), r')) \<and> inv n r'
           \<and> items r' = snd (run_spec spec cs (items r))"
  using assms
proof (induction cs arbitrary: r)
  case Nil
  then show ?case by simp
next
  case (Cons c cs)
  then obtain r1 where r1: "call c r = Some (Return (fst (spec c (items r)), r1))" "inv (n + length cs) r1"
      "items r1 = snd (spec c (items r))"
    using call_refines [of "n + length cs" r c] by auto
  obtain r' where "run_calls call cs r1 = Some (Return (fst (run_spec spec cs (items r1)), r'))" "inv n r'"
      "items r' = snd (run_spec spec cs (items r1))"
    using Cons.IH [OF r1(2)] Cons.prems(2) by auto
  then show ?case using r1 by (simp add: case_prod_beta Let_def)
qed

end

text \<open>The calls of the buffer, what they answer, and the bounded sequence they implement.\<close>

datatype 'a buffer_call =
  CallPush 'a | CallDropWhile "'a \<Rightarrow> bool" | CallReset | CallAt int | CallFirst | CallLast | CallData | CallLen

datatype 'a reading = Unit | Element "'a option" | Elements "'a list" | Number int

fun lift_outcome :: "('b \<Rightarrow> 'c) \<Rightarrow> 'b outcome \<Rightarrow> 'c outcome" where
  "lift_outcome f Panic = Panic"
| "lift_outcome f (Return x) = Return (f x)"

fun buffer_do :: "'a \<Rightarrow> 'a buffer_call \<Rightarrow> 'a Ring \<Rightarrow> ('a reading \<times> 'a Ring) outcome option" where
  "buffer_do zero (CallPush v) r = map_option (lift_outcome (Pair Unit)) (RingBuffer_Push v r)"
| "buffer_do zero (CallDropWhile p) r =
     map_option (lift_outcome (\<lambda>(dropped, s, r). (Number dropped, r)))
       (RingBuffer_DropWhile zero (\<lambda>s x. (p x, s)) (0 :: nat) 0 r)"
| "buffer_do zero CallReset r = Some (Return (Unit, RingBuffer_Reset zero r))"
| "buffer_do zero (CallAt i) r = Some (lift_outcome (\<lambda>x. (Element x, r)) (RingBuffer_At r i))"
| "buffer_do zero CallFirst r = map_option (lift_outcome (\<lambda>x. (Element x, r))) (RingBuffer_First r)"
| "buffer_do zero CallLast r = map_option (lift_outcome (\<lambda>x. (Element x, r))) (RingBuffer_Last r)"
| "buffer_do zero CallData r = Some (lift_outcome (\<lambda>xs. (Elements xs, r)) (RingBuffer_Data r))"
| "buffer_do zero CallLen r = Some (Return (Number (RingBuffer_Len r), r))"

fun window_do :: "nat \<Rightarrow> 'a buffer_call \<Rightarrow> 'a list \<Rightarrow> 'a reading \<times> 'a list" where
  "window_do cap (CallPush v) xs = (Unit, last_n cap (xs @ [v]))"
| "window_do cap (CallDropWhile p) xs = (Number (int (length (takeWhile p xs))), dropWhile p xs)"
| "window_do cap CallReset xs = (Unit, [])"
| "window_do cap (CallAt i) xs =
     (Element (if 0 \<le> i \<and> i < int (length xs) then Some (xs ! nat i) else None), xs)"
| "window_do cap CallFirst xs = (Element (if xs = [] then None else Some (hd xs)), xs)"
| "window_do cap CallLast xs = (Element (if xs = [] then None else Some (last xs)), xs)"
| "window_do cap CallData xs = (Elements xs, xs)"
| "window_do cap CallLen xs = (Number (int (length xs)), xs)"

fun call_ok :: "'a buffer_call \<Rightarrow> bool" where
  "call_ok (CallAt i) = int64 i"
| "call_ok c = True"

lemma drop_while_st_plain:
  "drop_while_st (\<lambda>s x. (p x, s)) s d xs = (d + int (length (takeWhile p xs)), s, dropWhile p xs)"
  by (induction xs arbitrary: d) simp_all

interpretation buffer: call_simulation "buffer_inv k" contents "buffer_do zero" "window_do (2 ^ k)" call_ok
  for k and zero :: 'a
proof
  fix n and c :: "'a buffer_call" and r :: "'a Ring"
  assume inv: "buffer_inv k (Suc n) r" and ok: "call_ok c"
  have keep: "buffer_inv k n r" using inv by (rule ring.weaken) simp
  show "\<exists>r'. buffer_do zero c r = Some (Return (fst (window_do (2 ^ k) c (contents r)), r'))
      \<and> buffer_inv k n r' \<and> contents r' = snd (window_do (2 ^ k) c (contents r))"
  proof (cases c)
    case (CallPush v)
    then show ?thesis using ring.push_law [OF inv, of v] by auto
  next
    case (CallDropWhile p)
    then show ?thesis
      using ring.prune_law [OF keep, of zero "\<lambda>s x. (p x, s)" "0 :: nat" 0] by (auto simp: drop_while_st_plain)
  next
    case CallReset
    then show ?thesis using ring.clear_law [OF keep, of zero] by simp
  qed (use keep ok in \<open>simp_all add: ring.len_law [OF keep] ring.at_law [OF keep] ring.oldest_law [OF keep]
        ring.newest_law [OF keep] ring.all_law [OF keep]\<close>)
qed

text \<open>The queue and the stack, likewise.\<close>

datatype 'a queue_call = CallEnqueue 'a | CallDequeue | QueueData | QueueLen

fun queue_do :: "'a \<Rightarrow> 'a queue_call \<Rightarrow> 'a Ring \<Rightarrow> ('a reading \<times> 'a Ring) outcome option" where
  "queue_do zero (CallEnqueue v) r = map_option (lift_outcome (Pair Unit)) (RingQueue_Enqueue v r)"
| "queue_do zero CallDequeue r = map_option (lift_outcome (apfst Element)) (RingQueue_Dequeue zero r)"
| "queue_do zero QueueData r = Some (lift_outcome (\<lambda>xs. (Elements xs, r)) (RingQueue_Data r))"
| "queue_do zero QueueLen r = Some (Return (Number (RingQueue_Len r), r))"

fun fifo_do :: "nat \<Rightarrow> 'a queue_call \<Rightarrow> 'a list \<Rightarrow> 'a reading \<times> 'a list" where
  "fifo_do cap (CallEnqueue v) xs = (Unit, last_n cap (xs @ [v]))"
| "fifo_do cap CallDequeue xs = (Element (if xs = [] then None else Some (hd xs)), tl xs)"
| "fifo_do cap QueueData xs = (Elements xs, xs)"
| "fifo_do cap QueueLen xs = (Number (int (length xs)), xs)"

datatype 'a stack_call = CallPushTop 'a | CallPop | CallPeek | StackData | StackLen

fun stack_do :: "'a \<Rightarrow> 'a stack_call \<Rightarrow> 'a Ring \<Rightarrow> ('a reading \<times> 'a Ring) outcome option" where
  "stack_do zero (CallPushTop v) r = map_option (lift_outcome (Pair Unit)) (RingStack_Push v r)"
| "stack_do zero CallPop r = map_option (lift_outcome (apfst Element)) (RingStack_Pop zero r)"
| "stack_do zero CallPeek r = map_option (lift_outcome (\<lambda>x. (Element x, r))) (RingStack_Peek r)"
| "stack_do zero StackData r = Some (lift_outcome (\<lambda>xs. (Elements xs, r)) (RingStack_Data r))"
| "stack_do zero StackLen r = Some (Return (Number (RingStack_Len r), r))"

text \<open>The stack is a list with its top at the end.\<close>

fun lifo_do :: "nat \<Rightarrow> 'a stack_call \<Rightarrow> 'a list \<Rightarrow> 'a reading \<times> 'a list" where
  "lifo_do cap (CallPushTop v) xs = (Unit, last_n cap (xs @ [v]))"
| "lifo_do cap CallPop xs = (Element (if xs = [] then None else Some (last xs)), butlast xs)"
| "lifo_do cap CallPeek xs = (Element (if xs = [] then None else Some (last xs)), xs)"
| "lifo_do cap StackData xs = (Elements (rev xs), xs)"
| "lifo_do cap StackLen xs = (Number (int (length xs)), xs)"

lemma dequeued_counted:
  assumes "counted n r" "0 < live r"
  shows "counted n (dequeued_ring zero r)"
proof -
  have "unat (ri_head r + 1) = Suc (unat (ri_head r))"
    using assms(1) by (simp add: counted_def unat_word_ariths word_le_nat_alt)
  then show ?thesis using assms counted_tail [OF assms(1)]
    by (simp add: counted_def dequeued_ring_def word_le_nat_alt)
qed

lemma popped_counted:
  assumes "counted n r" "0 < live r"
  shows "counted n (popped_ring zero r)"
proof -
  have "ri_tail r \<noteq> 0" using assms counted_tail [OF assms(1)] by auto
  then have "unat (ri_tail r - 1) = unat (ri_tail r) - 1" by (rule unat_minus_one)
  then show ?thesis using assms counted_tail [OF assms(1)]
    by (simp add: counted_def popped_ring_def word_le_nat_alt) (intro conjI; linarith)
qed

lemma contents_empty: "contents r = [] \<longleftrightarrow> live r = 0"
  by (metis length_contents length_0_conv)

interpretation queue: call_simulation "buffer_inv k" contents "queue_do zero" "fifo_do (2 ^ k)" "\<lambda>c. True"
  for k and zero :: 'a
proof
  fix n and c :: "'a queue_call" and r :: "'a Ring"
  assume inv: "buffer_inv k (Suc n) r"
  have keep: "buffer_inv k n r" using inv by (rule ring.weaken) simp
  then have ring: "ring_inv False k r" and cnt: "counted n r" by (simp_all add: buffer_inv_def)
  have tl: "live r = 0 \<Longrightarrow> tl (contents r) = contents r" by (simp add: contents_empty [THEN iffD2])
  show "\<exists>r'. queue_do zero c r = Some (Return (fst (fifo_do (2 ^ k) c (contents r)), r'))
      \<and> buffer_inv k n r' \<and> contents r' = snd (fifo_do (2 ^ k) c (contents r))"
  proof (cases c)
    case (CallEnqueue v)
    then show ?thesis using ring.push_law [OF inv, of v] by (auto simp: RingQueue_Enqueue_def RingBuffer_Push_def)
  next
    case CallDequeue
    then show ?thesis
      using keep dequeued_ring_facts(1,2) [OF ring, of zero] dequeued_counted [OF cnt, of zero] tl
      by (auto simp: Dequeue_returns [OF ring] contents_empty buffer_inv_def)
  qed (use keep ring.all_law [OF keep] ring.len_law [OF keep] in
       \<open>simp_all add: RingQueue_Data_def RingBuffer_Data_def RingQueue_Len_def RingBuffer_Len_def\<close>)
qed

interpretation stack: call_simulation "\<lambda>n r. ring_inv True k r \<and> counted n r" contents
    "stack_do zero" "lifo_do (2 ^ k)" "\<lambda>c. True"
  for k and zero :: 'a
proof
  fix n and c :: "'a stack_call" and r :: "'a Ring"
  assume inv: "ring_inv True k r \<and> counted (Suc n) r"
  then have ring: "ring_inv True k r" and cnt: "counted n r" by (auto intro: counted_weaken)
  show "\<exists>r'. stack_do zero c r = Some (Return (fst (lifo_do (2 ^ k) c (contents r)), r'))
      \<and> (ring_inv True k r' \<and> counted n r') \<and> contents r' = snd (lifo_do (2 ^ k) c (contents r))"
  proof (cases c)
    case (CallPushTop v)
    then show ?thesis
      using after_push_inv [OF ring, of v] after_push_contents [OF ring, of v] counted_push [of n r v] inv
      by (simp add: Push_returns [OF ring] last_n_def)
  next
    case CallPop
    have "live r = 0 \<Longrightarrow> butlast (contents r) = contents r" by (simp add: contents_empty [THEN iffD2])
    with CallPop show ?thesis
      using ring cnt popped_ring_facts [OF ring, of zero] popped_counted [OF cnt, of zero]
      by (auto simp: Pop_returns [OF ring] contents_empty)
  next
    case CallPeek
    then show ?thesis using ring cnt by (simp add: Peek_returns [OF ring] contents_empty)
  next
    case StackData
    then show ?thesis using ring cnt stack_data_from_contents [OF ring cnt order.refl]
      by (simp add: RingStack_Data_def tail_eq [symmetric])
  next
    case StackLen
    then show ?thesis using ring cnt Len_live [OF ring] by (simp add: RingStack_Len_def RingBuffer_Len_def)
  qed
qed

section \<open>Properties\<close>

text \<open>C31: A new \<open>RingBuffer\<close> of a requested size refines a bounded sequence whose bound is the least power
  of two that holds the size: for every sequence of calls that stays within the range of the
  counters, every call returns, no call panics, and each answer (\<open>At\<close>, \<open>First\<close>, \<open>Last\<close>, \<open>Data\<close>, \<open>Len\<close>,
  the count of \<open>DropWhile\<close>) is the answer of a list that drops its oldest element when a full one is
  pushed to.
\<close>

theorem ring_buffer_refines_window:
  assumes "sz \<noteq> 0" "unat sz \<le> 2 ^ 62" "length cs < 2 ^ 63" "list_all call_ok cs"
  shows "\<exists>k r0 r. NewRingBuffer zero sz = Return r0 \<and> unat sz \<le> 2 ^ k \<and> 2 ^ k < 2 * unat sz
    \<and> run_calls (buffer_do zero) cs r0 = Some (Return (fst (run_spec (window_do (2 ^ k)) cs []), r))
    \<and> RingBuffer_Data r = Return (snd (run_spec (window_do (2 ^ k)) cs [])) \<and> RingBuffer_Cap r = 2 ^ k"
proof -
  obtain k r0 where new: "NewRingStack zero sz = Return r0" "k < 63" "unat sz \<le> 2 ^ k" "2 ^ k < 2 * unat sz"
    "ring_inv False k r0" "contents r0 = []" "ri_head r0 = 0" "ri_tail r0 = 0"
    using assms(1,2) by (rule NewRing_facts)
  have "buffer_inv k (0 + length cs) r0" using new assms(3) by (simp add: buffer_inv_def counted_def)
  then obtain r where "run_calls (buffer_do zero) cs r0 = Some (Return (fst (run_spec (window_do (2 ^ k)) cs []), r))"
      "buffer_inv k 0 r" "contents r = snd (run_spec (window_do (2 ^ k)) cs [])"
    using buffer.run_refines [of k 0 cs r0 zero] assms(4) new(6) by auto
  moreover from this have "RingBuffer_Data r = Return (contents r)" "RingBuffer_Cap r = 2 ^ k"
    using ring.all_law [of k 0 r] Cap_pow2 [of False k r] by (simp_all add: buffer_inv_def)
  moreover have "NewRingBuffer zero sz = Return r0" using new(1) assms(1) by (simp add: NewRingBuffer_def)
  ultimately show ?thesis using new(3,4) by (intro exI [of _ k] exI [of _ r0] exI [of _ r]) simp
qed

theorem ring_buffer_refines_window_witness:
  "\<exists>r0 r. NewRingBuffer (0 :: int) 3 = Return r0
     \<and> run_calls (buffer_do 0) [CallPush 1, CallPush 2, CallPush 3, CallPush 4, CallPush 5, CallFirst,
          CallDropWhile (\<lambda>x. x < 4), CallLen, CallAt 1] r0
       = Some (Return ([Unit, Unit, Unit, Unit, Unit, Element (Some 2), Number 2, Number 2, Element (Some 5)], r))
     \<and> RingBuffer_Data r = Return [4, 5]"
proof -
  let ?cs = "[CallPush 1, CallPush 2, CallPush 3, CallPush 4, CallPush 5, CallFirst,
          CallDropWhile (\<lambda>x. x < 4), CallLen, CallAt 1] :: int buffer_call list"
  have three: "unat (3 :: 64 word) = 3" by simp
  have "(3 :: 64 word) \<noteq> 0" "unat (3 :: 64 word) \<le> 2 ^ 62" "length ?cs < 2 ^ 63" "list_all call_ok ?cs"
    by (simp_all add: int64_def)
  from ring_buffer_refines_window [OF this, of "0 :: int"]
  obtain k r0 r where k: "3 \<le> (2 :: nat) ^ k" "(2 :: nat) ^ k < 2 * 3" and new: "NewRingBuffer (0 :: int) 3 = Return r0"
    and run: "run_calls (buffer_do 0) ?cs r0 = Some (Return (fst (run_spec (window_do (2 ^ k)) ?cs []), r))"
    and data: "RingBuffer_Data r = Return (snd (run_spec (window_do (2 ^ k)) ?cs []))"
    unfolding three by blast
  have "k < 3" using k(2) power_increasing [of 3 k "2 :: nat"] by (cases "k < 3") simp_all
  moreover have "k \<noteq> 0" "k \<noteq> 1" using k(1) by (auto intro: ccontr)
  ultimately have "k = 2" by simp
  then have spec: "run_spec (window_do (2 ^ k)) ?cs [] =
      ([Unit, Unit, Unit, Unit, Unit, Element (Some 2), Number 2, Number 2, Element (Some 5)], [4, 5])"
    by (simp add: last_n_def)
  show ?thesis using new run data unfolding spec fst_conv snd_conv by blast
qed

text \<open>C32: Every call of a \<open>RingQueue\<close> and of a \<open>RingStack\<close> returns. For every sequence of calls on a new
  container, within the range of the counters, the retry loops end, nothing panics, and the answers
  are those of a first-in first-out and a last-in first-out sequence that drop their oldest element
  on overflow.
\<close>

theorem ring_queue_and_stack_return:
  assumes "sz \<noteq> 0" "unat sz \<le> 2 ^ 62" "length qs < 2 ^ 63" "length ss < 2 ^ 63"
  shows "\<exists>k r0 rq rs. NewRingQueue zero sz = Return r0 \<and> NewRingStack zero sz = Return r0
    \<and> unat sz \<le> 2 ^ k \<and> 2 ^ k < 2 * unat sz
    \<and> run_calls (queue_do zero) qs r0 = Some (Return (fst (run_spec (fifo_do (2 ^ k)) qs []), rq))
    \<and> run_calls (stack_do zero) ss r0 = Some (Return (fst (run_spec (lifo_do (2 ^ k)) ss []), rs))"
proof -
  obtain k r0 where new: "NewRingStack zero sz = Return r0" "k < 63" "unat sz \<le> 2 ^ k" "2 ^ k < 2 * unat sz"
    "ring_inv False k r0" "contents r0 = []" "ri_head r0 = 0" "ri_tail r0 = 0"
    using assms(1,2) by (rule NewRing_facts)
  have "ring_inv True k r0" using new(5) by (auto simp: ring_inv_def free_mark_def)
  then have "ring_inv True k r0 \<and> counted (0 + length ss) r0" and "buffer_inv k (0 + length qs) r0"
    using new assms(3,4) by (simp_all add: buffer_inv_def counted_def)
  then obtain rq rs where "run_calls (queue_do zero) qs r0 = Some (Return (fst (run_spec (fifo_do (2 ^ k)) qs []), rq))"
      "run_calls (stack_do zero) ss r0 = Some (Return (fst (run_spec (lifo_do (2 ^ k)) ss []), rs))"
    using queue.run_refines [of k 0 qs r0 zero] stack.run_refines [of k r0 0 ss zero] new(6)
    by (auto simp: list_all_iff)
  moreover have "NewRingQueue zero sz = Return r0" using new(1) assms(1) by (simp add: NewRingQueue_def)
  ultimately show ?thesis using new(1,3,4) by (intro exI [of _ k] exI [of _ r0] exI [of _ rq] exI [of _ rs]) simp
qed

theorem ring_queue_and_stack_return_witness:
  "\<exists>r0 rq rs. NewRingQueue (0 :: int) 2 = Return r0
     \<and> run_calls (queue_do 0) [CallEnqueue 1, CallEnqueue 2, CallEnqueue 3, CallDequeue, CallDequeue, CallDequeue] r0
       = Some (Return ([Unit, Unit, Unit, Element (Some 2), Element (Some 3), Element None], rq))
     \<and> run_calls (stack_do 0) [CallPushTop 1, CallPushTop 2, CallPushTop 3, CallPop, CallPop, CallPop] r0
       = Some (Return ([Unit, Unit, Unit, Element (Some 3), Element (Some 2), Element None], rs))"
proof -
  let ?qs = "[CallEnqueue 1, CallEnqueue 2, CallEnqueue 3, CallDequeue, CallDequeue, CallDequeue] :: int queue_call list"
  let ?ss = "[CallPushTop 1, CallPushTop 2, CallPushTop 3, CallPop, CallPop, CallPop] :: int stack_call list"
  have two: "unat (2 :: 64 word) = 2" by simp
  have "(2 :: 64 word) \<noteq> 0" "unat (2 :: 64 word) \<le> 2 ^ 62" "length ?qs < 2 ^ 63" "length ?ss < 2 ^ 63"
    by simp_all
  from ring_queue_and_stack_return [OF this, of "0 :: int"]
  obtain k r0 rq rs where k: "2 \<le> (2 :: nat) ^ k" "(2 :: nat) ^ k < 2 * 2" and new: "NewRingQueue (0 :: int) 2 = Return r0"
    and run: "run_calls (queue_do 0) ?qs r0 = Some (Return (fst (run_spec (fifo_do (2 ^ k)) ?qs []), rq))"
      "run_calls (stack_do 0) ?ss r0 = Some (Return (fst (run_spec (lifo_do (2 ^ k)) ?ss []), rs))"
    unfolding two by blast
  have "k < 2" using k(2) power_increasing [of 2 k "2 :: nat"] by (cases "k < 2") simp_all
  moreover have "k \<noteq> 0" using k(1) by (auto intro: ccontr)
  ultimately have "k = 1" by simp
  then have spec:
    "fst (run_spec (fifo_do (2 ^ k)) ?qs []) = [Unit, Unit, Unit, Element (Some 2), Element (Some 3), Element None]"
    "fst (run_spec (lifo_do (2 ^ k)) ?ss []) = [Unit, Unit, Unit, Element (Some 3), Element (Some 2), Element None]"
    by (simp_all add: last_n_def)
  show ?thesis using new run unfolding spec by blast
qed

end
