(* ===== verification/Ring_Concurrency.thy ===== *)
theory Ring_Concurrency
  imports Ring_Window
begin

text \<open>
  Several goroutines that push to one ring of \<open>pkg/utils/datax/ring.go\<close> at the same time. The body of
  \<open>Push\<close>, shared by \<open>RingStack\<close>, \<open>RingQueue\<close> (\<open>Enqueue\<close>) and \<open>RingBuffer\<close>, is cut at its accesses to
  shared memory; a step of the system is one access of one goroutine, in any order. A goroutine is
  described by the value it pushes and the place it has reached, with the tail and the head it has
  loaded. A push that nobody interrupts is the function of \<open>Ring_Buffer\<close>; pushes that interleave claim
  different positions, but can leave the head behind.
\<close>

section \<open>One access at a time\<close>

datatype place =
    LoadTail
  | LoadHead "64 word"
  | LoadSeq "64 word" "64 word"
  | SwapTail "64 word" "64 word"
  | StoreVal "64 word" "64 word"
  | StoreSeq "64 word" "64 word"
  | SwapHead "64 word" "64 word"
  | Finished "64 word"
  | Crashed

fun push_step :: "'a \<Rightarrow> place \<times> 'a Ring \<Rightarrow> place \<times> 'a Ring" where
  "push_step v (LoadTail, r) = (LoadHead (ri_tail r), r)"
| "push_step v (LoadHead t, r) = (LoadSeq t (ri_head r), r)"
| "push_step v (LoadSeq t h, r) =
     (case slot r t of
        None \<Rightarrow> (Crashed, r)
      | Some n \<Rightarrow> if sint (rn_seq n - t) \<le> 0 then (SwapTail t h, r) else (LoadTail, r))"
| "push_step v (SwapTail t h, r) =
     (if ri_tail r = t then (StoreVal t h, r\<lparr>ri_tail := t + 1\<rparr>) else (LoadTail, r))"
| "push_step v (StoreVal t h, r) =
     (StoreSeq t h, r\<lparr>ri_data := (ri_data r)[slot_index r t := (ri_data r ! slot_index r t)\<lparr>rn_val := v\<rparr>]\<rparr>)"
| "push_step v (StoreSeq t h, r) =
     (if ri_mask r + 1 \<le> t - h then SwapHead t h else Finished t,
      r\<lparr>ri_data := (ri_data r)[slot_index r t := (ri_data r ! slot_index r t)\<lparr>rn_seq := t + 1\<rparr>]\<rparr>)"
| "push_step v (SwapHead t h, r) =
     (Finished t, if ri_head r = h then r\<lparr>ri_head := h + 1\<rparr> else r)"
| "push_step v (Finished t, r) = (Finished t, r)"
| "push_step v (Crashed, r) = (Crashed, r)"

type_synonym 'a system = "('a \<times> place) list \<times> 'a Ring"

text \<open>Goroutine \<open>i\<close> makes its next access.\<close>

definition step_of :: "nat \<Rightarrow> 'a system \<Rightarrow> 'a system" where
  "step_of i s =
     (let (v, p) = fst s ! i; (p, r) = push_step v (p, snd s) in ((fst s)[i := (v, p)], r))"

inductive system_step :: "'a system \<Rightarrow> 'a system \<Rightarrow> bool" where
  move: "i < length (fst s) \<Longrightarrow> system_step s (step_of i s)"

inductive_cases system_stepE: "system_step s s'"

definition start :: "'a list \<Rightarrow> 'a Ring \<Rightarrow> 'a system" where
  "start vs r = (map (\<lambda>v. (v, LoadTail)) vs, r)"

abbreviation reachable :: "'a system \<Rightarrow> 'a system \<Rightarrow> bool" where
  "reachable \<equiv> system_step\<^sup>*\<^sup>*"

section \<open>A push that nobody interrupts\<close>

lemma node_update: "n\<lparr>rn_val := v, rn_seq := s\<rparr> = (\<lparr>rn_seq = s, rn_val = v\<rparr> :: 'a RingNode)"
  by (cases n) simp

text \<open>The accesses of one push, made without interruption on a ring in its invariant, end within
  seven steps in exactly the ring that \<open>Push\<close>, \<open>Enqueue\<close> and \<open>RingBuffer.Push\<close> return.
\<close>

theorem solo_push_is_push:
  assumes "ring_inv popped k r"
  shows "\<exists>r'. RingStack_Push v r = Some (Return r') \<and> RingQueue_Enqueue v r = Some (Return r')
           \<and> RingBuffer_Push v r = Some (Return r')
           \<and> (push_step v ^^ 7) (LoadTail, r) = (Finished (ri_tail r), r')"
proof -
  note sh = ring_invD(1) [OF assms]
  obtain n where n: "slot r (ri_tail r) = Some n" "sint (rn_seq n - ri_tail r) \<le> 0"
    using push_slot [OF assms] by blast
  define r1 where "r1 = set_slot (ri_tail r) (ri_tail r + 1) v (r\<lparr>ri_tail := ri_tail r + 1\<rparr>)"
  let ?t = "ri_tail r" and ?h = "ri_head r"
  have "(push_step v ^^ 5) (LoadTail, r) = (StoreSeq ?t ?h, r\<lparr>ri_tail := ?t + 1,
      ri_data := (ri_data r)[slot_index r ?t := (ri_data r ! slot_index r ?t)\<lparr>rn_val := v\<rparr>]\<rparr>)"
    using n by (simp add: eval_nat_numeral)
  moreover have "(push_step v ^^ 7) x = push_step v (push_step v ((push_step v ^^ 5) x))" for x
    by (simp add: eval_nat_numeral)
  ultimately have "(push_step v ^^ 7) (LoadTail, r)
      = push_step v (if ri_mask r + 1 \<le> ?t - ?h then SwapHead ?t ?h else Finished ?t, r1)"
    using slot_index_less [OF sh, of ?t] by (simp add: r1_def set_slot_def slot_index_def node_update)
  then have "(push_step v ^^ 7) (LoadTail, r) = (Finished ?t, after_push v r)"
    by (simp add: after_push_def Let_def r1_def)
  then show ?thesis
    using Push_returns [OF assms] by (simp add: RingQueue_Enqueue_def RingBuffer_Push_def)
qed

theorem solo_push_is_push_witness:
  "\<exists>r0 r'. NewRingBuffer (0 :: int) 2 = Return r0 \<and> RingBuffer_Push 7 r0 = Some (Return r')
     \<and> (push_step 7 ^^ 7) (LoadTail, r0) = (Finished 0, r')"
proof -
  have two: "(2 :: 64 word) \<noteq> 0" "unat (2 :: 64 word) \<le> 2 ^ 62" by simp_all
  obtain k r0 where new: "NewRingStack (0 :: int) 2 = Return r0" and inv: "ring_inv False k r0" and "ri_tail r0 = 0"
    using two by (rule NewRing_facts)
  moreover have "NewRingBuffer (0 :: int) 2 = Return r0" using new by (simp add: NewRingBuffer_def)
  ultimately show ?thesis using solo_push_is_push [OF inv, of 7] by auto
qed

section \<open>Pushes that interleave\<close>

text \<open>The position a goroutine has taken, and those of all goroutines.\<close>

fun claimed :: "place \<Rightarrow> 64 word option" where
  "claimed (StoreVal t h) = Some t"
| "claimed (StoreSeq t h) = Some t"
| "claimed (SwapHead t h) = Some t"
| "claimed (Finished t) = Some t"
| "claimed p = None"

definition claims :: "('a \<times> place) list \<Rightarrow> 64 word list" where
  "claims ts = map (the \<circ> claimed \<circ> snd) (filter (\<lambda>x. claimed (snd x) \<noteq> None) ts)"

lemma push_step_claim:
  assumes "push_step v (p, r) = (p', r')"
  shows "claimed p' = claimed p \<and> ri_tail r' = ri_tail r
       \<or> claimed p = None \<and> claimed p' = Some (ri_tail r) \<and> ri_tail r' = ri_tail r + 1"
  using assms by (cases p) (auto split: option.splits if_splits)

lemma claims_update:
  assumes "i < length ts" "snd (ts ! i) = p"
  shows "mset (claims (ts[i := (v, p')])) + (case claimed p of None \<Rightarrow> {#} | Some t \<Rightarrow> {#t#})
       = mset (claims ts) + (case claimed p' of None \<Rightarrow> {#} | Some t \<Rightarrow> {#t#})"
proof -
  obtain M where M: "mset ts = add_mset (ts ! i) M"
    using assms(1) by (metis insert_DiffM nth_mem set_mset_mset)
  then have "mset (ts[i := (v, p')]) = add_mset (v, p') M" using assms(1) by (simp add: mset_update)
  then show ?thesis using assms(2)
    by (auto simp: claims_def M split: option.splits)
qed

definition claims_ok :: "64 word \<Rightarrow> 'a system \<Rightarrow> bool" where
  "claims_ok t0 s \<longleftrightarrow>
     mset (claims (fst s)) = mset (map (\<lambda>c. t0 + of_nat c) [0..<length (claims (fst s))])
     \<and> ri_tail (snd s) = t0 + of_nat (length (claims (fst s)))"

lemma claims_ok_step:
  assumes "claims_ok t0 s" "system_step s s'"
  shows "claims_ok t0 s' \<and> length (fst s') = length (fst s)"
  using assms(2)
proof (cases rule: system_step.cases)
  case (move i)
  obtain v p where vp: "fst s ! i = (v, p)" by (cases "fst s ! i")
  obtain p' r' where st: "push_step v (p, snd s) = (p', r')" by (cases "push_step v (p, snd s)")
  have s': "s' = ((fst s)[i := (v, p')], r')" using move(1) by (simp add: step_of_def vp st)
  note upd = claims_update [OF move(2), of p v p'] 
  from push_step_claim [OF st] show ?thesis
  proof (elim disjE conjE)
    assume "claimed p' = claimed p" "ri_tail r' = ri_tail (snd s)"
    moreover from this upd have "mset (claims (fst s')) = mset (claims (fst s))" by (simp add: s' vp)
    moreover from this have "length (claims (fst s')) = length (claims (fst s))" by (metis size_mset)
    ultimately show ?thesis using assms(1) by (simp add: claims_ok_def s')
  next
    assume new: "claimed p = None" "claimed p' = Some (ri_tail (snd s))" "ri_tail r' = ri_tail (snd s) + 1"
    then have "mset (claims (fst s')) = add_mset (ri_tail (snd s)) (mset (claims (fst s)))"
      using upd by (simp add: s' vp)
    moreover from this have "length (claims (fst s')) = Suc (length (claims (fst s)))"
      by (metis size_mset size_add_mset)
    ultimately show ?thesis using assms(1) new(3) by (simp add: claims_ok_def s' add.commute add.left_commute)
  qed
qed

text \<open>C33: However the accesses of concurrent pushes interleave, no two of them take the same position of
  the ring: the positions taken so far are pairwise distinct, they are consecutive from the tail the
  ring had at the start, and the tail has moved by exactly their number. So no push overwrites the
  slot another one is writing, unless the ring has gone around in between.
\<close>

theorem concurrent_pushes_claim_distinct:
  assumes "reachable (start vs r) (ts, r')" "length vs < 2 ^ 64"
  shows "distinct (claims ts) \<and> length ts = length vs
    \<and> ri_tail r' = ri_tail r + of_nat (length (claims ts))
    \<and> set (claims ts) = (\<lambda>c. ri_tail r + of_nat c) ` {..<length (claims ts)}"
proof -
  have "claims_ok (ri_tail r) s \<and> length (fst s) = length vs" if "reachable (start vs r) s" for s
    using that
  proof (induction rule: rtranclp_induct)
    case base
    have "claims (map (\<lambda>v. (v, LoadTail)) vs) = []" by (simp add: claims_def filter_empty_conv)
    then show ?case by (simp add: start_def claims_ok_def)
  next
    case (step s s')
    then show ?case using claims_ok_step [of "ri_tail r" s s'] by simp
  qed
  from this [OF assms(1)] have ok: "claims_ok (ri_tail r) (ts, r')" and len: "length ts = length vs" by simp_all
  let ?n = "length (claims ts)" and ?f = "\<lambda>c. ri_tail r + of_nat c :: 64 word"
  have eq: "mset (claims ts) = mset (map ?f [0..<?n])" using ok by (simp add: claims_ok_def)
  have "?n \<le> length ts" unfolding claims_def length_map by (rule length_filter_le)
  then have n: "?n < 2 ^ 64" using len assms(2) by simp
  have "inj_on ?f {..<?n}"
  proof (rule inj_onI)
    fix a b assume ab: "a \<in> {..<?n}" "b \<in> {..<?n}" "?f a = ?f b"
    then have "unat (of_nat a :: 64 word) = unat (of_nat b :: 64 word)" by simp
    then show "a = b" using ab(1,2) n by (simp add: unat_of_nat)
  qed
  then have "distinct (map ?f [0..<?n])" by (simp add: distinct_map atLeast0LessThan)
  then have "distinct (claims ts)" using eq by (metis mset_eq_imp_distinct_iff)
  moreover have "set (claims ts) = set (map ?f [0..<?n])" using eq by (metis mset_eq_setD)
  then have "set (claims ts) = ?f ` {..<?n}" by (simp add: atLeast0LessThan)
  ultimately show ?thesis using ok len by (simp add: claims_ok_def)
qed

fun run_schedule :: "nat list \<Rightarrow> 'a system \<Rightarrow> 'a system" where
  "run_schedule [] s = s"
| "run_schedule (i # is) s = run_schedule is (step_of i s)"

lemma run_schedule_reachable:
  "list_all (\<lambda>i. i < length (fst s)) is \<Longrightarrow> reachable s (run_schedule is s)"
proof (induction "is" arbitrary: s)
  case (Cons i "is")
  then have "system_step s (step_of i s)" by (simp add: system_step.move)
  moreover have "length (fst (step_of i s)) = length (fst s)" by (simp add: step_of_def case_prod_beta Let_def)
  then have "reachable (step_of i s) (run_schedule is (step_of i s))" using Cons by simp
  ultimately show ?case by (simp add: converse_rtranclp_into_rtranclp)
qed simp

text \<open>A queue of two slots that holds 1 and 2, and two goroutines that push 3 and 4 to it.\<close>

definition full_queue :: "int Ring" where
  "full_queue = \<lparr>ri_mask = 1, ri_data = [\<lparr>rn_seq = 1, rn_val = 1\<rparr>, \<lparr>rn_seq = 2, rn_val = 2\<rparr>],
     ri_head = 0, ri_tail = 2\<rparr>"

lemma full_queue_built:
  "\<exists>r0. NewRingQueue 0 2 = Return r0
     \<and> run_calls (queue_do 0) [CallEnqueue 1, CallEnqueue 2] r0 = Some (Return ([Unit, Unit], full_queue))"
  by (simp add: NewRingQueue_def NewRingStack_def pad_size_def RingQueue_Enqueue_def RingStack_Push.simps
      slot_def slot_index_def after_push_def set_slot_def full_queue_def Let_def upt_rec word_le_nat_alt)

lemmas run_access = step_of_def slot_def slot_index_def Let_def word_le_nat_alt

text \<open>Both take their position before either has finished.\<close>

definition overtaken :: "int system" where
  "overtaken = run_schedule [0, 0, 0, 0, 1, 1, 1, 1, 0, 0, 0, 1, 1, 1] (start [3, 4] full_queue)"

lemma overtaken_eq:
  "overtaken = ([(3, Finished 2), (4, Finished 3)],
     \<lparr>ri_mask = 1, ri_data = [\<lparr>rn_seq = 3, rn_val = 3\<rparr>, \<lparr>rn_seq = 4, rn_val = 4\<rparr>], ri_head = 1, ri_tail = 4\<rparr>)"
  by (simp add: overtaken_def start_def full_queue_def run_access)

lemma overtaken_reachable: "reachable (start [3, 4] full_queue) overtaken"
  unfolding overtaken_def by (rule run_schedule_reachable) (simp add: start_def)

theorem concurrent_pushes_claim_distinct_witness:
  "distinct (claims (fst overtaken)) \<and> set (claims (fst overtaken)) = {2, 3} \<and> ri_tail (snd overtaken) = 4"
proof -
  have "reachable (start [3, 4] full_queue) (fst overtaken, snd overtaken)" using overtaken_reachable by simp
  then have "distinct (claims (fst overtaken)) \<and> length (fst overtaken) = length [3 :: int, 4]
    \<and> ri_tail (snd overtaken) = ri_tail full_queue + of_nat (length (claims (fst overtaken)))
    \<and> set (claims (fst overtaken)) = (\<lambda>c. ri_tail full_queue + of_nat c) ` {..<length (claims (fst overtaken))}"
    by (rule concurrent_pushes_claim_distinct) simp
  moreover have "length (claims (fst overtaken)) = 2" by (simp add: overtaken_eq claims_def)
  ultimately show ?thesis by (simp add: full_queue_def lessThan_Suc numeral_2_eq_2) auto
qed

text \<open>C34: Two pushes that interleave on a full ring can leave its head behind: the second one finds the
  head already moved by the first and does not move it again. From a queue of capacity two, built by
  the constructor and two enqueues, two concurrent enqueues finish and leave a queue that reports a
  length of three, and on which \<open>Dequeue\<close> and \<open>First\<close> retry for ever.
\<close>

theorem overtaken_push_blocks_readers:
  "(\<exists>r0. NewRingQueue 0 2 = Return r0
      \<and> run_calls (queue_do 0) [CallEnqueue 1, CallEnqueue 2] r0 = Some (Return ([Unit, Unit], full_queue)))
   \<and> reachable (start [3, 4] full_queue) overtaken
   \<and> map snd (fst overtaken) = [Finished 2, Finished 3]
   \<and> RingQueue_Len (snd overtaken) = 3 \<and> RingQueue_Cap (snd overtaken) = 2
   \<and> RingQueue_Dequeue 0 (snd overtaken) = None \<and> RingBuffer_First (snd overtaken) = None"
proof -
  let ?bad = "snd overtaken"
  have "RingQueue_Dequeue 0 ?bad \<noteq> Some y" for y
  proof
    assume ret: "RingQueue_Dequeue 0 ?bad = Some y"
    have "?bad \<noteq> ?bad"
    proof (rule RingQueue_Dequeue.raw_induct [where P = "\<lambda>zero r y. r \<noteq> ?bad", OF _ ret])
      fix f zero r y
      assume IH: "\<And>zero r y. f zero r = Some y \<Longrightarrow> r \<noteq> ?bad"
        and eq: "(let head = ri_head r in
          case slot r head of None \<Rightarrow> Some Panic
          | Some n \<Rightarrow> let diff = sint (rn_seq n - head - 1) in
              if diff < 0 then Some (Return (None, r))
              else if diff = 0 then Some (Return (Some (rn_val n),
                 set_slot head (head + ri_mask r + 1) zero (r\<lparr>ri_head := head + 1\<rparr>)))
              else f zero r) = Some y"
      show "r \<noteq> ?bad"
      proof
        assume "r = ?bad"
        then have "f zero r = Some y" using eq by (simp add: overtaken_eq slot_def slot_index_def Let_def)
        then show False using IH \<open>r = ?bad\<close> by blast
      qed
    qed
    then show False by simp
  qed
  then have deq: "RingQueue_Dequeue 0 ?bad = None" by (cases "RingQueue_Dequeue 0 ?bad") auto
  have "RingBuffer_First ?bad \<noteq> Some y" for y
  proof
    assume ret: "RingBuffer_First ?bad = Some y"
    have "?bad \<noteq> ?bad"
    proof (rule RingBuffer_First.raw_induct [where P = "\<lambda>r y. r \<noteq> ?bad", OF _ ret])
      fix f r y
      assume IH: "\<And>r y. f r = Some y \<Longrightarrow> r \<noteq> ?bad"
        and eq: "(let head = ri_head r in
          case slot r head of None \<Rightarrow> Some Panic
          | Some n \<Rightarrow> let diff = sint (rn_seq n - head - 1) in
              if diff < 0 then Some (Return None)
              else if diff = 0 then Some (Return (Some (rn_val n))) else f r) = Some y"
      show "r \<noteq> ?bad"
      proof
        assume "r = ?bad"
        then have "f r = Some y" using eq by (simp add: overtaken_eq slot_def slot_index_def Let_def)
        then show False using IH \<open>r = ?bad\<close> by blast
      qed
    qed
    then show False by simp
  qed
  then have first: "RingBuffer_First ?bad = None" by (cases "RingBuffer_First ?bad") auto
  show ?thesis using full_queue_built overtaken_reachable deq first
    by (simp add: overtaken_eq RingQueue_Len_def RingQueue_Cap_def)
qed

end
