(* ===== verification/Ratio_Feasibility.thy ===== *)
theory Ratio_Feasibility
  imports Prelude Complex_Main
begin

text \<open>
  The admission checks of a scaler on its roles and ratios, \<open>validateModelDeploymentScalerRoles\<close>,
  \<open>validateModelDeploymentScalerRatios\<close> and \<open>validateModelDeploymentScalerRatioFeasibility\<close> of
  \<open>pkg/worker/webhooks/worker/model_deployment_scaler.go\<close>. A scaler plans replica counts for roles
  within bounds, and a ratio keeps the quotient of two counts in a band. The last check groups the
  roles that ratios couple (a union-find over the positions) and searches each group, with exact
  rationals and a budget, for counts that satisfy every ratio.

  A quantity is its decimal, an unscaled integer and a scale; \<open>big.Rat\<close> is \<^typ>\<open>rat\<close> and \<open>big.Int\<close> is
  \<^typ>\<open>int\<close>, cut to 64 bits by \<open>Int64\<close>. Slices that a callee changes are returned.
\<close>

section \<open>The scaler's specification\<close>

record Dec =
  dec_Unscaled :: int
  dec_Scale :: int

record ScalerRoleBounds =
  sb_Name :: string
  sb_MinReplicas :: int
  sb_MaxReplicas :: int

record ScalerRoleRatio =
  rr_NumeratorRole :: string
  rr_DenominatorRole :: string
  rr_Target :: "Dec option"
  rr_Min :: "Dec option"
  rr_Max :: "Dec option"

record ScalerRules =
  sc_Roles :: "ScalerRoleBounds list"
  sc_Ratios :: "ScalerRoleRatio list"

definition modelDeploymentScalerRatioValue :: "Dec option \<Rightarrow> rat option" where
  "modelDeploymentScalerRatioValue quantity =
     (case quantity of
        None \<Rightarrow> None
      | Some dec \<Rightarrow>
          if 0 \<le> dec_Scale dec then Some (of_int (dec_Unscaled dec) / 10 ^ nat (dec_Scale dec))
          else Some (of_int (dec_Unscaled dec * 10 ^ nat (- dec_Scale dec))))"

section \<open>Validation of roles and ratios\<close>

definition modelDeploymentScalerMaxReplicas :: int where
  "modelDeploymentScalerMaxReplicas = 1024"

datatype scaler_error =
    DuplicateRole nat | RoleDeclaredBefore nat nat
  | MinReplicasTooSmall nat | MaxReplicasTooSmall nat | MaxReplicasTooLarge nat | FloorAboveCeiling nat
  | RatioWithItself nat | NumeratorUnknown nat | DenominatorUnknown nat
  | DuplicateRatio nat | RatioDeclaredBefore nat nat
  | TargetNotPositive nat | MinNotPositive nat | MaxNotPositive nat
  | BandEmpty nat | TargetBelowBand nat | TargetAboveBand nat
  | NoFeasibleVector "string list"

definition role_bound_errors :: "nat \<Rightarrow> ScalerRoleBounds \<Rightarrow> scaler_error list" where
  "role_bound_errors i bounds =
     (if sb_MinReplicas bounds < 1 then [MinReplicasTooSmall i] else [])
     @ (if sb_MaxReplicas bounds < 1 then [MaxReplicasTooSmall i] else [])
     @ (if sb_MaxReplicas bounds > modelDeploymentScalerMaxReplicas then [MaxReplicasTooLarge i] else [])
     @ (if sb_MinReplicas bounds > sb_MaxReplicas bounds then [FloorAboveCeiling i] else [])"

text \<open>The loop over the roles from index \<open>i\<close>; \<open>seen\<close> maps a name to its first index.\<close>

fun role_errors :: "nat \<Rightarrow> (string, nat) gomap \<Rightarrow> ScalerRoleBounds list \<Rightarrow> scaler_error list" where
  "role_errors i seen [] = []"
| "role_errors i seen (bounds # rest) =
     (case map_of seen (sb_Name bounds) of
        Some first \<Rightarrow> [DuplicateRole i, RoleDeclaredBefore i first] @ role_errors (Suc i) seen rest
      | None \<Rightarrow> role_bound_errors i bounds @ role_errors (Suc i) (map_put (sb_Name bounds) i seen) rest)"

definition validateModelDeploymentScalerRoles :: "ScalerRules \<Rightarrow> scaler_error list" where
  "validateModelDeploymentScalerRoles s = role_errors 0 [] (sc_Roles s)"

definition validateModelDeploymentScalerPositiveQuantity :: "scaler_error \<Rightarrow> Dec option \<Rightarrow> scaler_error list" where
  "validateModelDeploymentScalerPositiveQuantity err quantity =
     (case quantity of None \<Rightarrow> [] | Some q \<Rightarrow> if dec_Unscaled q \<le> 0 then [err] else [])"

definition validateModelDeploymentScalerRatioQuantities :: "nat \<Rightarrow> ScalerRoleRatio \<Rightarrow> scaler_error list" where
  "validateModelDeploymentScalerRatioQuantities i ratio =
     (let minimum = modelDeploymentScalerRatioValue (rr_Min ratio);
          maximum = modelDeploymentScalerRatioValue (rr_Max ratio);
          target = modelDeploymentScalerRatioValue (rr_Target ratio)
      in validateModelDeploymentScalerPositiveQuantity (TargetNotPositive i) (rr_Target ratio)
         @ validateModelDeploymentScalerPositiveQuantity (MinNotPositive i) (rr_Min ratio)
         @ validateModelDeploymentScalerPositiveQuantity (MaxNotPositive i) (rr_Max ratio)
         @ (case (minimum, maximum) of (Some lo, Some hi) \<Rightarrow> if lo > hi then [BandEmpty i] else [] | _ \<Rightarrow> [])
         @ (case (target, minimum) of (Some t, Some lo) \<Rightarrow> if t < lo then [TargetBelowBand i] else [] | _ \<Rightarrow> [])
         @ (case (target, maximum) of (Some t, Some hi) \<Rightarrow> if t > hi then [TargetAboveBand i] else [] | _ \<Rightarrow> []))"

definition ratio_key :: "ScalerRoleRatio \<Rightarrow> string" where
  "ratio_key ratio = rr_NumeratorRole ratio @ ''/'' @ rr_DenominatorRole ratio"

fun ratio_errors :: "string set \<Rightarrow> nat \<Rightarrow> (string, nat) gomap \<Rightarrow> ScalerRoleRatio list \<Rightarrow> scaler_error list" where
  "ratio_errors known i seen [] = []"
| "ratio_errors known i seen (ratio # rest) =
     (if rr_NumeratorRole ratio = rr_DenominatorRole ratio
      then RatioWithItself i # ratio_errors known (Suc i) seen rest
      else (if rr_NumeratorRole ratio \<notin> known then [NumeratorUnknown i] else [])
        @ (if rr_DenominatorRole ratio \<notin> known then [DenominatorUnknown i] else [])
        @ (case map_of seen (ratio_key ratio) of
             Some first \<Rightarrow> [DuplicateRatio i, RatioDeclaredBefore i first] @ ratio_errors known (Suc i) seen rest
           | None \<Rightarrow> validateModelDeploymentScalerRatioQuantities i ratio
                     @ ratio_errors known (Suc i) (map_put (ratio_key ratio) i seen) rest))"

definition validateModelDeploymentScalerRatios :: "ScalerRules \<Rightarrow> scaler_error list" where
  "validateModelDeploymentScalerRatios s = ratio_errors (sb_Name ` set (sc_Roles s)) 0 [] (sc_Ratios s)"

section \<open>Components\<close>

record RatioBand =
  bd_numerator :: string
  bd_denominator :: string
  bd_minimum :: "rat option"
  bd_maximum :: "rat option"

record ScalerComponent =
  co_roles :: "string list"
  co_low :: "int list"
  co_high :: "int list"
  co_ratios :: "RatioBand list"
  co_index :: "(string, nat) gomap"

text \<open>\<open>modelDeploymentScalerFind\<close> halves the path it walks; it returns the root and the changed slice.\<close>

partial_function (option) modelDeploymentScalerFind :: "nat list \<Rightarrow> nat \<Rightarrow> (nat \<times> nat list) option" where
  "modelDeploymentScalerFind parent i =
     (if parent ! i = i then Some (i, parent)
      else let parent = parent[i := parent ! (parent ! i)]
           in modelDeploymentScalerFind parent (parent ! i))"

declare modelDeploymentScalerFind.simps [code]

definition modelDeploymentScalerUnion :: "nat list \<Rightarrow> nat \<Rightarrow> nat \<Rightarrow> nat list option" where
  "modelDeploymentScalerUnion parent a b =
     (case modelDeploymentScalerFind parent a of
        None \<Rightarrow> None
      | Some (rootA, parent) \<Rightarrow>
          (case modelDeploymentScalerFind parent b of
             None \<Rightarrow> None
           | Some (rootB, parent) \<Rightarrow>
               if rootA = rootB then Some parent else Some (parent[rootB := rootA])))"

text \<open>\<open>position\<close> maps a role to its last index.\<close>

definition positions :: "ScalerRoleBounds list \<Rightarrow> (string, nat) gomap" where
  "positions roles = fold (\<lambda>(i, bounds). map_put (sb_Name bounds) i) (enumerate 0 roles) []"

definition band_of :: "ScalerRoleRatio \<Rightarrow> RatioBand" where
  "band_of ratio = \<lparr>bd_numerator = rr_NumeratorRole ratio, bd_denominator = rr_DenominatorRole ratio,
     bd_minimum = modelDeploymentScalerRatioValue (rr_Min ratio),
     bd_maximum = modelDeploymentScalerRatioValue (rr_Max ratio)\<rparr>"

text \<open>The loop over the ratios: joined sets and collected bands.\<close>

fun join_ratios :: "(string, nat) gomap \<Rightarrow> ScalerRoleRatio list \<Rightarrow> nat list
    \<Rightarrow> (nat list \<times> RatioBand list) option" where
  "join_ratios position [] parent = Some (parent, [])"
| "join_ratios position (ratio # rest) parent =
     (case (map_of position (rr_NumeratorRole ratio), map_of position (rr_DenominatorRole ratio)) of
        (Some numerator, Some denominator) \<Rightarrow>
          (case modelDeploymentScalerUnion parent numerator denominator of
             None \<Rightarrow> None
           | Some parent \<Rightarrow>
               (case join_ratios position rest parent of
                  None \<Rightarrow> None
                | Some (parent, bands) \<Rightarrow> Some (parent, band_of ratio # bands)))
      | _ \<Rightarrow> join_ratios position rest parent)"

definition empty_component :: ScalerComponent where
  "empty_component = \<lparr>co_roles = [], co_low = [], co_high = [], co_ratios = [], co_index = []\<rparr>"

definition add_role :: "ScalerRoleBounds \<Rightarrow> ScalerComponent \<Rightarrow> ScalerComponent" where
  "add_role bounds c = c\<lparr>co_index := map_put (sb_Name bounds) (length (co_roles c)) (co_index c),
     co_roles := co_roles c @ [sb_Name bounds], co_low := co_low c @ [sb_MinReplicas bounds],
     co_high := co_high c @ [sb_MaxReplicas bounds]\<rparr>"

text \<open>The loop that puts each role into the group of its root.\<close>

fun group_roles :: "(nat \<times> ScalerRoleBounds) list \<Rightarrow> nat list \<Rightarrow> (nat, ScalerComponent) gomap
    \<Rightarrow> (nat list \<times> (nat, ScalerComponent) gomap) option" where
  "group_roles [] parent groups = Some (parent, groups)"
| "group_roles ((i, bounds) # rest) parent groups =
     (case modelDeploymentScalerFind parent i of
        None \<Rightarrow> None
      | Some (leader, parent) \<Rightarrow>
          group_roles rest parent
            (map_put leader (add_role bounds (map_get groups leader empty_component)) groups))"

fun group_bands :: "(string, nat) gomap \<Rightarrow> RatioBand list \<Rightarrow> nat list \<Rightarrow> (nat, ScalerComponent) gomap
    \<Rightarrow> (nat, ScalerComponent) gomap option" where
  "group_bands position [] parent groups = Some groups"
| "group_bands position (band # rest) parent groups =
     (case modelDeploymentScalerFind parent (map_get position (bd_numerator band) 0) of
        None \<Rightarrow> None
      | Some (numerator, parent) \<Rightarrow>
          (case modelDeploymentScalerFind parent (map_get position (bd_denominator band) 0) of
             None \<Rightarrow> None
           | Some (denominator, parent) \<Rightarrow>
               if numerator \<noteq> denominator then group_bands position rest parent groups
               else let c = map_get groups numerator empty_component in
                 group_bands position rest parent
                   (map_put numerator (c\<lparr>co_ratios := co_ratios c @ [band]\<rparr>) groups)))"

definition modelDeploymentScalerComponents :: "ScalerRules \<Rightarrow> ScalerComponent list option" where
  "modelDeploymentScalerComponents s =
     (let position = positions (sc_Roles s) in
      case join_ratios position (sc_Ratios s) [0..<length (sc_Roles s)] of
        None \<Rightarrow> None
      | Some (parent, bands) \<Rightarrow>
          (case group_roles (enumerate 0 (sc_Roles s)) parent [] of
             None \<Rightarrow> None
           | Some (parent, groups) \<Rightarrow> map_option (map snd) (group_bands position bands parent groups)))"

section \<open>The search\<close>

definition modelDeploymentScalerCeil :: "rat \<Rightarrow> int" where
  "modelDeploymentScalerCeil ratio =
     (let (num, denom) = quotient_of ratio; quotient = quot num denom; remainder = num - quotient * denom
      in wrap64 (if 0 < remainder then quotient + 1 else quotient))"

definition modelDeploymentScalerFloor :: "rat \<Rightarrow> int" where
  "modelDeploymentScalerFloor ratio = (let (num, denom) = quotient_of ratio in wrap64 (quot num denom))"

definition role_index :: "ScalerComponent \<Rightarrow> string \<Rightarrow> nat" where
  "role_index c name = map_get (co_index c) name 0"

definition band_holds :: "ScalerComponent \<Rightarrow> int list \<Rightarrow> RatioBand \<Rightarrow> bool" where
  "band_holds c vector band =
     (let numerator = vector ! role_index c (bd_numerator band);
          denominator = vector ! role_index c (bd_denominator band)
      in if denominator = 0 then False
         else let quotient = of_int numerator / of_int denominator :: rat in
           (case bd_minimum band of None \<Rightarrow> True | Some lo \<Rightarrow> \<not> quotient < lo)
           \<and> (case bd_maximum band of None \<Rightarrow> True | Some hi \<Rightarrow> \<not> quotient > hi))"

definition component_holds :: "ScalerComponent \<Rightarrow> int list \<Rightarrow> bool" where
  "component_holds c vector = list_all (band_holds c vector) (co_ratios c)"

definition raise_to :: "int \<Rightarrow> nat \<Rightarrow> int list \<Rightarrow> int list" where
  "raise_to bound i low = (if bound > low ! i then low[i := bound] else low)"

definition lower_to :: "int \<Rightarrow> nat \<Rightarrow> int list \<Rightarrow> int list" where
  "lower_to bound i high = (if bound < high ! i then high[i := bound] else high)"

definition tightenNumerator ::
    "int list \<Rightarrow> int list \<Rightarrow> nat \<Rightarrow> nat \<Rightarrow> RatioBand \<Rightarrow> bool \<times> int list \<times> int list" where
  "tightenNumerator low high numerator denominator band =
     (let val = of_int (low ! denominator) :: rat;
          low = (case bd_minimum band of None \<Rightarrow> low
                 | Some lo \<Rightarrow> raise_to (modelDeploymentScalerCeil (lo * val)) numerator low);
          high = (case bd_maximum band of None \<Rightarrow> high
                  | Some hi \<Rightarrow> lower_to (modelDeploymentScalerFloor (hi * val)) numerator high)
      in (low ! numerator \<le> high ! numerator, low, high))"

definition tightenDenominator ::
    "int list \<Rightarrow> int list \<Rightarrow> nat \<Rightarrow> nat \<Rightarrow> RatioBand \<Rightarrow> bool \<times> int list \<times> int list" where
  "tightenDenominator low high denominator numerator band =
     (let val = of_int (low ! numerator) :: rat;
          low = (case bd_maximum band of None \<Rightarrow> low
                 | Some hi \<Rightarrow> raise_to (modelDeploymentScalerCeil (val / hi)) denominator low);
          high = (case bd_minimum band of None \<Rightarrow> high
                  | Some lo \<Rightarrow> lower_to (modelDeploymentScalerFloor (val / lo)) denominator high)
      in (low ! denominator \<le> high ! denominator, low, high))"

fun propagate :: "ScalerComponent \<Rightarrow> nat \<Rightarrow> RatioBand list \<Rightarrow> int list \<Rightarrow> int list \<Rightarrow> (int list \<times> int list) option" where
  "propagate c index [] low high = Some (low, high)"
| "propagate c index (band # bands) low high =
     (let numerator = role_index c (bd_numerator band); denominator = role_index c (bd_denominator band);
          tightened = (if numerator = index then tightenDenominator low high denominator numerator band
                       else if denominator = index then tightenNumerator low high numerator denominator band
                       else (True, low, high))
      in if fst tightened then propagate c index bands (fst (snd tightened)) (snd (snd tightened)) else None)"

text \<open>The loop over the counts of one role; the budget is counted down once for each.\<close>

fun try_values :: "(int \<Rightarrow> int \<Rightarrow> bool \<times> int) \<Rightarrow> int list \<Rightarrow> int \<Rightarrow> bool \<times> int" where
  "try_values attempt [] budget = (False, budget)"
| "try_values attempt (v # vs) budget =
     (let budget = budget - 1 in
      if budget \<le> 0 then (False, budget)
      else let (found, budget) = attempt v budget in
        if found then (True, budget) else try_values attempt vs budget)"

text \<open>\<open>search\<close>, over the roles that are not assigned yet.\<close>

fun search :: "ScalerComponent \<Rightarrow> string list \<Rightarrow> int list \<Rightarrow> int list \<Rightarrow> int \<Rightarrow> bool \<times> int" where
  "search c [] low high budget = (component_holds c low, budget)"
| "search c (role # roles) low high budget =
     (if budget \<le> 0 then (False, budget)
      else let index = role_index c role in
        try_values (\<lambda>v budget.
            case propagate c index (co_ratios c) (low[index := v]) (high[index := v]) of
              None \<Rightarrow> (False, budget)
            | Some (nextLow, nextHigh) \<Rightarrow> search c roles nextLow nextHigh budget)
          [low ! index..high ! index] budget)"

definition feasible :: "ScalerComponent \<Rightarrow> int \<Rightarrow> bool \<times> int" where
  "feasible c budget =
     (if co_ratios c = [] then (True, budget)
      else if component_holds c (co_low c) \<or> component_holds c (co_high c) then (True, budget)
      else search c (co_roles c) (co_low c) (co_high c) budget)"

definition modelDeploymentScalerFeasibilityBudget :: int where
  "modelDeploymentScalerFeasibilityBudget = 16384"

definition component_errors :: "ScalerComponent \<Rightarrow> scaler_error list" where
  "component_errors c =
     (let (ok, budget) = feasible c modelDeploymentScalerFeasibilityBudget in
      if ok then [] else if budget \<le> 0 then [] else [NoFeasibleVector (co_roles c)])"

definition validateModelDeploymentScalerRatioFeasibility :: "ScalerRules \<Rightarrow> scaler_error list option" where
  "validateModelDeploymentScalerRatioFeasibility s =
     map_option (concat \<circ> map component_errors) (modelDeploymentScalerComponents s)"

end
