(* ===== verification/Ratio_Search.thy ===== *)
theory Ratio_Search
  imports Ratio_Feasibility
begin

text \<open>
  The search of \<open>Ratio_Feasibility\<close> decides: when it finds counts they are within the bounds and
  satisfy every ratio, and when it gives up with budget left no counts within the bounds do. The
  first half holds of every component. The second needs the products and quotients of a bound with
  a count to fit 64 bits, as they are cut to that width.
\<close>

section \<open>Rounding\<close>

lemma quotient_floor:
  assumes "quotient_of r = (n, d)"
  shows "0 < d" "\<lfloor>r\<rfloor> = n div d" "r = of_int n / of_int d"
  using quotient_of_denom_pos [OF assms] quotient_of_div [OF assms] by (simp_all add: floor_divide_of_int_eq)

lemma Floor_exact:
  assumes "0 \<le> r" "r < 9223372036854775808"
  shows "modelDeploymentScalerFloor r = \<lfloor>r\<rfloor>"
proof -
  obtain n d where q: "quotient_of r = (n, d)" by (cases "quotient_of r")
  note f = quotient_floor [OF q]
  have "0 \<le> n" using assms(1) f(1,3) by (simp add: zero_le_divide_iff)
  then have e: "quot n d = \<lfloor>r\<rfloor>" using f by (simp add: quot_nonneg)
  have "0 \<le> \<lfloor>r\<rfloor>" "\<lfloor>r\<rfloor> < 9223372036854775808" using assms by (simp_all add: floor_less_iff)
  then show ?thesis by (simp add: modelDeploymentScalerFloor_def q e wrap64_id int64_def)
qed

lemma Ceil_exact:
  assumes "0 \<le> r" "r < 9223372036854775807"
  shows "modelDeploymentScalerCeil r = \<lceil>r\<rceil>"
proof -
  obtain n d where q: "quotient_of r = (n, d)" by (cases "quotient_of r")
  note f = quotient_floor [OF q]
  have "0 \<le> n" using assms(1) f(1,3) by (simp add: zero_le_divide_iff)
  then have e: "quot n d = \<lfloor>r\<rfloor>" using f by (simp add: quot_nonneg)
  have "n - quot n d * d = n mod d" using f \<open>0 \<le> n\<close> by (simp add: quot_nonneg minus_div_mult_eq_mod)
  then have rem: "quot n d * d < n \<longleftrightarrow> 0 < n mod d" by linarith
  have "\<lceil>r\<rceil> = (if 0 < n mod d then \<lfloor>r\<rfloor> + 1 else \<lfloor>r\<rfloor>)"
  proof (cases "n mod d = 0")
    case True
    then have "n = (n div d) * d" by (simp add: mod_eq_0_iff_dvd)
    then have "r = of_int (n div d)" using f(1,3) by (metis nonzero_mult_div_cancel_right of_int_0_eq_iff of_int_mult order_less_irrefl)
    then show ?thesis using True by simp
  next
    case False
    then have "0 < n mod d" using f(1) by (simp add: order_less_le)
    have "r \<noteq> of_int \<lfloor>r\<rfloor>"
    proof
      assume "r = of_int \<lfloor>r\<rfloor>"
      then have "(of_int n :: rat) = of_int \<lfloor>r\<rfloor> * of_int d" using f(1,3) by (metis nonzero_eq_divide_eq of_int_0_eq_iff order_less_irrefl)
      then have "n = \<lfloor>r\<rfloor> * d" by (metis of_int_eq_iff of_int_mult)
      then show False using False by simp
    qed
    then have "\<lceil>r\<rceil> = \<lfloor>r\<rfloor> + 1" by (simp add: ceiling_altdef)
    then show ?thesis using \<open>0 < n mod d\<close> by simp
  qed
  moreover have "0 \<le> \<lceil>r\<rceil>" "\<lceil>r\<rceil> < 9223372036854775808"
    using assms ceiling_correct [of r] by linarith+
  moreover have "modelDeploymentScalerCeil r = wrap64 (if 0 < n mod d then quot n d + 1 else quot n d)"
    by (simp add: modelDeploymentScalerCeil_def q Let_def rem)
  ultimately show ?thesis unfolding e by (simp only: wrap64_id int64_def) (simp add: wrap64_id int64_def)
qed

section \<open>Boxes of counts\<close>

definition in_box :: "int list \<Rightarrow> int list \<Rightarrow> int list \<Rightarrow> bool" where
  "in_box low high v \<longleftrightarrow> length low = length high \<and> length v = length low
     \<and> (\<forall>i < length low. low ! i \<le> v ! i \<and> v ! i \<le> high ! i)"

definition shrinks :: "nat \<Rightarrow> int list \<Rightarrow> int list \<Rightarrow> int list \<Rightarrow> int list \<Rightarrow> bool" where
  "shrinks n low high low' high' \<longleftrightarrow> length low = n \<and> length high = n \<and> length low' = n \<and> length high' = n
     \<and> (\<forall>i < n. low ! i \<le> low' ! i \<and> high' ! i \<le> high ! i)"

lemma shrinks_box: "shrinks n low high low' high' \<Longrightarrow> in_box low' high' v \<Longrightarrow> in_box low high v"
  unfolding shrinks_def in_box_def by (metis order_trans)

lemma shrinks_refl: "length low = n \<Longrightarrow> length high = n \<Longrightarrow> shrinks n low high low high"
  by (simp add: shrinks_def)

lemma shrinks_trans: "shrinks n a b c d \<Longrightarrow> shrinks n c d e f \<Longrightarrow> shrinks n a b e f"
  unfolding shrinks_def by (auto intro: order_trans)

lemma nth_update: "xs[i := x] ! j = (if i = j \<and> i < length xs then x else xs ! j)"
  by (cases "i < length xs") (simp_all add: nth_list_update list_update_beyond)

lemma raise_to_facts: "length (raise_to b i low) = length low" "j < length low \<Longrightarrow> low ! j \<le> raise_to b i low ! j"
    "j \<noteq> i \<Longrightarrow> raise_to b i low ! j = low ! j" "i < length low \<Longrightarrow> raise_to b i low ! i = max b (low ! i)"
  by (auto simp: raise_to_def nth_update max_def)

lemma lower_to_facts: "length (lower_to b i high) = length high" "j < length high \<Longrightarrow> lower_to b i high ! j \<le> high ! j"
    "j \<noteq> i \<Longrightarrow> lower_to b i high ! j = high ! j" "i < length high \<Longrightarrow> lower_to b i high ! i = min b (high ! i)"
  by (auto simp: lower_to_def nth_update min_def)

lemmas bound_facts = raise_to_facts lower_to_facts

lemma tightenNumerator_shrinks:
  assumes "tightenNumerator low high num den band = (ok, low', high')" "length low = n" "length high = n"
  shows "shrinks n low high low' high'" "j \<noteq> num \<Longrightarrow> low' ! j = low ! j \<and> high' ! j = high ! j"
    "ok \<longleftrightarrow> low' ! num \<le> high' ! num"
  using assms by (auto simp: tightenNumerator_def shrinks_def Let_def bound_facts split: option.splits)

lemma tightenDenominator_shrinks:
  assumes "tightenDenominator low high den num band = (ok, low', high')" "length low = n" "length high = n"
  shows "shrinks n low high low' high'" "j \<noteq> den \<Longrightarrow> low' ! j = low ! j \<and> high' ! j = high ! j"
    "ok \<longleftrightarrow> low' ! den \<le> high' ! den"
  using assms by (auto simp: tightenDenominator_def shrinks_def Let_def bound_facts split: option.splits)

lemma propagate_shrinks:
  assumes "propagate c index bands low high = Some (low', high')" "length low = n" "length high = n"
    "\<forall>i < n. low ! i \<le> high ! i"
  shows "shrinks n low high low' high' \<and> (\<forall>i < n. low' ! i \<le> high' ! i)"
  using assms
proof (induction bands arbitrary: low high)
  case Nil
  then show ?case by (simp add: shrinks_refl)
next
  case (Cons band bands)
  let ?num = "role_index c (bd_numerator band)" and ?den = "role_index c (bd_denominator band)"
  define t where "t = (if ?num = index then tightenDenominator low high ?den ?num band
                       else if ?den = index then tightenNumerator low high ?num ?den band
                       else (True, low, high))"
  obtain ok l h where t: "t = (ok, l, h)" by (cases t)
  have ok: ok and rest: "propagate c index bands l h = Some (low', high')"
    using Cons.prems(1) by (simp_all add: t t_def [symmetric] Let_def split: if_splits)
  have "shrinks n low high l h \<and> (\<forall>i < n. l ! i \<le> h ! i)"
  proof (cases "?num = index")
    case True
    then have "tightenDenominator low high ?den ?num band = (ok, l, h)" using t by (simp add: t_def)
    from tightenDenominator_shrinks [OF this Cons.prems(2,3)] ok Cons.prems(4) show ?thesis by metis
  next
    case num: False
    show ?thesis
    proof (cases "?den = index")
      case True
      then have "tightenNumerator low high ?num ?den band = (ok, l, h)" using t num by (simp add: t_def)
      from tightenNumerator_shrinks [OF this Cons.prems(2,3)] ok Cons.prems(4) show ?thesis by metis
    next
      case False
      then show ?thesis using t num Cons.prems(2-4) by (simp add: t_def shrinks_refl)
    qed
  qed
  moreover from this have "length l = n" "length h = n" by (simp_all add: shrinks_def)
  ultimately show ?case using Cons.IH [OF rest] shrinks_trans by blast
qed

section \<open>What is found satisfies the ratios\<close>

lemma try_values_found:
  "try_values attempt vs budget = (True, budget') \<Longrightarrow> \<exists>v \<in> set vs. \<exists>b b'. attempt v b = (True, b')"
  by (induction vs arbitrary: budget) (force simp: Let_def split: if_splits prod.splits)+

lemma search_sound:
  assumes "search c roles low high budget = (True, budget')" "length low = n" "length high = n"
    "\<forall>i < n. low ! i \<le> high ! i" "\<forall>r \<in> set roles. role_index c r < n"
  shows "\<exists>v. in_box low high v \<and> component_holds c v"
  using assms
proof (induction roles arbitrary: low high budget budget')
  case Nil
  then show ?case by (auto simp: in_box_def)
next
  case (Cons role roles)
  let ?i = "role_index c role"
  have i: "?i < n" using Cons.prems(5) by simp
  from Cons.prems(1) obtain v b b' where v: "v \<in> set [low ! ?i..high ! ?i]"
    and run: "(case propagate c ?i (co_ratios c) (low[?i := v]) (high[?i := v]) of
              None \<Rightarrow> (False, b) | Some (nextLow, nextHigh) \<Rightarrow> search c roles nextLow nextHigh b) = (True, b')"
    by (auto simp: Let_def split: if_splits dest!: try_values_found)
  from run obtain l h where p: "propagate c ?i (co_ratios c) (low[?i := v]) (high[?i := v]) = Some (l, h)"
    and s: "search c roles l h b = (True, b')" by (auto split: option.splits)
  have box0: "shrinks n low high (low[?i := v]) (high[?i := v])"
    using Cons.prems(2,3) v by (auto simp: shrinks_def nth_update)
  have le0: "\<forall>j < n. low[?i := v] ! j \<le> high[?i := v] ! j"
    using Cons.prems(2-4) by (simp add: nth_update)
  have sh: "shrinks n (low[?i := v]) (high[?i := v]) l h" and le: "\<forall>j < n. l ! j \<le> h ! j"
    using propagate_shrinks [OF p _ _ le0] Cons.prems(2,3) by simp_all
  then have len: "length l = n" "length h = n" by (simp_all add: shrinks_def)
  from Cons.IH [OF s len le] Cons.prems(5) obtain w where "in_box l h w" "component_holds c w" by auto
  then show ?case using shrinks_box [OF shrinks_trans [OF box0 sh]] by blast
qed

section \<open>What is not found does not exist\<close>

text \<open>The numbers of a band stay within 64 bits for counts up to 1024.\<close>

definition tame :: "rat option \<Rightarrow> bool" where
  "tame b \<longleftrightarrow> (\<forall>x. b = Some x \<longrightarrow> 0 < x \<and> x * 1024 < 9223372036854775807 \<and> 1024 / x < 9223372036854775807)"

definition tame_band :: "RatioBand \<Rightarrow> bool" where
  "tame_band band \<longleftrightarrow> tame (bd_minimum band) \<and> tame (bd_maximum band)"

definition counts_ok :: "int list \<Rightarrow> int list \<Rightarrow> bool" where
  "counts_ok low high \<longleftrightarrow> length low = length high \<and> (\<forall>i < length low. 1 \<le> low ! i \<and> high ! i \<le> 1024)"

lemma counts_ok_shrinks: "shrinks n low high low' high' \<Longrightarrow> counts_ok low high \<Longrightarrow> counts_ok low' high'"
  unfolding shrinks_def counts_ok_def by (metis order_trans)

lemma tame_mult:
  assumes "tame (Some x)" "1 \<le> k" "k \<le> 1024"
  shows "0 \<le> x * of_int k" "x * of_int k < 9223372036854775807"
proof -
  have x: "0 < x" "x * 1024 < 9223372036854775807" using assms(1) by (simp_all add: tame_def)
  have "x * of_int k \<le> x * 1024" using x(1) assms(3) by (intro mult_left_mono) simp_all
  then show "x * of_int k < 9223372036854775807" using x(2) by linarith
  show "0 \<le> x * of_int k" using x(1) assms(2) by simp
qed

lemma tame_divide:
  assumes "tame (Some x)" "1 \<le> k" "k \<le> 1024"
  shows "0 \<le> of_int k / x" "of_int k / x < 9223372036854775807"
proof -
  have x: "0 < x" "1024 / x < 9223372036854775807" using assms(1) by (simp_all add: tame_def)
  have "of_int k / x \<le> 1024 / x" using x(1) assms(3) by (intro divide_right_mono) simp_all
  then show "of_int k / x < 9223372036854775807" using x(2) by linarith
  show "0 \<le> of_int k / x" using x(1) assms(2) by simp
qed

lemma band_bounds:
  fixes n d :: int
  assumes "0 < d" "\<not> of_int n / of_int d < lo" "0 < (lo :: rat)"
  shows "\<lceil>lo * of_int d\<rceil> \<le> n" "d \<le> \<lfloor>of_int n / lo\<rfloor>"
proof -
  have "lo * of_int d \<le> of_int n" using assms(1,2) by (simp add: not_less pos_le_divide_eq)
  then show "\<lceil>lo * of_int d\<rceil> \<le> n" "d \<le> \<lfloor>of_int n / lo\<rfloor>"
    using assms(3) by (simp_all add: ceiling_le_iff le_floor_iff pos_le_divide_eq mult.commute)
qed

lemma band_bounds_max:
  fixes n d :: int
  assumes "0 < d" "\<not> of_int n / of_int d > hi" "0 < (hi :: rat)"
  shows "n \<le> \<lfloor>hi * of_int d\<rfloor>" "\<lceil>of_int n / hi\<rceil> \<le> d"
proof -
  have "of_int n \<le> hi * of_int d" using assms(1,2) by (simp add: not_less pos_divide_le_eq)
  then show "n \<le> \<lfloor>hi * of_int d\<rfloor>" "\<lceil>of_int n / hi\<rceil> \<le> d"
    using assms(3) by (simp_all add: ceiling_le_iff le_floor_iff pos_divide_le_eq mult.commute)
qed

lemma tightened_box:
  assumes "in_box low high v" "i < length low"
    "\<forall>b. lb = Some b \<longrightarrow> b \<le> v ! i" "\<forall>b. ub = Some b \<longrightarrow> v ! i \<le> b"
  shows "in_box (case lb of None \<Rightarrow> low | Some b \<Rightarrow> raise_to b i low) (case ub of None \<Rightarrow> high | Some b \<Rightarrow> lower_to b i high) v
    \<and> (case lb of None \<Rightarrow> low | Some b \<Rightarrow> raise_to b i low) ! i \<le> (case ub of None \<Rightarrow> high | Some b \<Rightarrow> lower_to b i high) ! i"
proof -
  let ?l = "case lb of None \<Rightarrow> low | Some b \<Rightarrow> raise_to b i low"
  let ?h = "case ub of None \<Rightarrow> high | Some b \<Rightarrow> lower_to b i high"
  have "in_box ?l ?h v"
    using assms unfolding in_box_def by (auto simp: raise_to_def lower_to_def nth_update split: option.splits)
  moreover from this have "?l ! i \<le> v ! i" "v ! i \<le> ?h ! i"
    using assms(1,2) unfolding in_box_def by (metis)+
  ultimately show ?thesis by (auto intro: order_trans)
qed

text \<open>Tightening a role by a band keeps every solution that has the known count.\<close>

lemma tightenNumerator_keeps:
  assumes "tightenNumerator low high num den band = (ok, low', high')"
    "in_box low high v" "low ! den = v ! den" "counts_ok low high" "num < length low" "den < length low"
    "tame_band band" "band_holds c v band" "role_index c (bd_numerator band) = num" "role_index c (bd_denominator band) = den"
  shows "ok \<and> in_box low' high' v"
proof -
  have v: "1 \<le> v ! den" "v ! den \<le> 1024" "low ! num \<le> v ! num" "v ! num \<le> high ! num"
    using assms(2,4,5,6) unfolding in_box_def counts_ok_def by (metis order_trans)+
  have lo: "modelDeploymentScalerCeil (x * of_int (v ! den)) \<le> v ! num" if "bd_minimum band = Some x" for x
  proof -
    have t: "tame (Some x)" using assms(7) that by (simp add: tame_band_def)
    have "\<not> of_int (v ! num) / of_int (v ! den) < x"
      using assms(8-10) that by (simp add: band_holds_def Let_def split: if_splits)
    then have "\<lceil>x * of_int (v ! den)\<rceil> \<le> v ! num" using band_bounds(1) [of "v ! den" "v ! num" x] v t by (simp add: tame_def)
    then show ?thesis using Ceil_exact [OF tame_mult [OF t v(1,2)]] by simp
  qed
  have hi: "v ! num \<le> modelDeploymentScalerFloor (x * of_int (v ! den))" if "bd_maximum band = Some x" for x
  proof -
    have t: "tame (Some x)" using assms(7) that by (simp add: tame_band_def)
    have "\<not> of_int (v ! num) / of_int (v ! den) > x"
      using assms(8-10) that by (simp add: band_holds_def Let_def split: if_splits)
    then have "v ! num \<le> \<lfloor>x * of_int (v ! den)\<rfloor>" using band_bounds_max(1) [of "v ! den" x "v ! num"] v t by (simp add: tame_def)
    then show ?thesis using Floor_exact [of "x * of_int (v ! den)"] tame_mult [OF t v(1,2)] by simp
  qed
  show ?thesis
    using assms(1,3) tightened_box [OF assms(2,5), of "map_option (\<lambda>x. modelDeploymentScalerCeil (x * of_int (v ! den))) (bd_minimum band)"
        "map_option (\<lambda>x. modelDeploymentScalerFloor (x * of_int (v ! den))) (bd_maximum band)"] lo hi
    by (auto simp: tightenNumerator_def Let_def split: option.splits)
qed

lemma tightenDenominator_keeps:
  assumes "tightenDenominator low high den num band = (ok, low', high')"
    "in_box low high v" "low ! num = v ! num" "counts_ok low high" "num < length low" "den < length low"
    "tame_band band" "band_holds c v band" "role_index c (bd_numerator band) = num" "role_index c (bd_denominator band) = den"
  shows "ok \<and> in_box low' high' v"
proof -
  have v: "1 \<le> v ! num" "v ! num \<le> 1024" "1 \<le> v ! den"
    using assms(2,4,5,6) unfolding in_box_def counts_ok_def by (metis order_trans)+
  have lo: "modelDeploymentScalerCeil (of_int (v ! num) / x) \<le> v ! den" if "bd_maximum band = Some x" for x
  proof -
    have t: "tame (Some x)" using assms(7) that by (simp add: tame_band_def)
    have "\<not> of_int (v ! num) / of_int (v ! den) > x"
      using assms(8-10) that by (simp add: band_holds_def Let_def split: if_splits)
    then have "\<lceil>of_int (v ! num) / x\<rceil> \<le> v ! den"
      using band_bounds_max(2) [of "v ! den" x "v ! num"] v t by (simp add: tame_def)
    then show ?thesis using Ceil_exact [OF tame_divide [OF t v(1,2)]] by simp
  qed
  have hi: "v ! den \<le> modelDeploymentScalerFloor (of_int (v ! num) / x)" if "bd_minimum band = Some x" for x
  proof -
    have t: "tame (Some x)" using assms(7) that by (simp add: tame_band_def)
    have "\<not> of_int (v ! num) / of_int (v ! den) < x"
      using assms(8-10) that by (simp add: band_holds_def Let_def split: if_splits)
    then have "v ! den \<le> \<lfloor>of_int (v ! num) / x\<rfloor>"
      using band_bounds(2) [of "v ! den" "v ! num" x] v t by (simp add: tame_def)
    then show ?thesis using Floor_exact [of "of_int (v ! num) / x"] tame_divide [OF t v(1,2)] by simp
  qed
  show ?thesis
    using assms(1,3) tightened_box [OF assms(2,6), of "map_option (\<lambda>x. modelDeploymentScalerCeil (of_int (v ! num) / x)) (bd_maximum band)"
        "map_option (\<lambda>x. modelDeploymentScalerFloor (of_int (v ! num) / x)) (bd_minimum band)"] lo hi
    by (auto simp: tightenDenominator_def Let_def split: option.splits)
qed

lemma propagate_keeps:
  assumes "in_box low high v" "low ! index = v ! index" "counts_ok low high" "index < length low"
    "\<forall>band \<in> set bands. band_holds c v band \<and> tame_band band
       \<and> role_index c (bd_numerator band) < length low \<and> role_index c (bd_denominator band) < length low
       \<and> role_index c (bd_numerator band) \<noteq> role_index c (bd_denominator band)"
  shows "\<exists>low' high'. propagate c index bands low high = Some (low', high') \<and> in_box low' high' v"
  using assms
proof (induction bands arbitrary: low high)
  case Nil
  then show ?case by simp
next
  case (Cons band bands)
  let ?num = "role_index c (bd_numerator band)" and ?den = "role_index c (bd_denominator band)"
  have len: "length high = length low" using Cons.prems(1) by (simp add: in_box_def)
  have b: "band_holds c v band" "tame_band band" "?num < length low" "?den < length low" "?num \<noteq> ?den"
    using Cons.prems(5) by simp_all
  define t where "t = (if ?num = index then tightenDenominator low high ?den ?num band
                       else if ?den = index then tightenNumerator low high ?num ?den band
                       else (True, low, high))"
  obtain ok l h where t: "t = (ok, l, h)" by (cases t)
  have "ok \<and> in_box l h v \<and> shrinks (length low) low high l h \<and> l ! index = low ! index"
  proof (cases "?num = index")
    case True
    then have d: "tightenDenominator low high ?den ?num band = (ok, l, h)" using t by (simp add: t_def)
    from tightenDenominator_keeps [OF d Cons.prems(1) _ Cons.prems(3) b(3,4,2,1) refl refl]
      tightenDenominator_shrinks(1,2) [OF d refl len] True b(5) Cons.prems(2)
    show ?thesis by metis
  next
    case num: False
    show ?thesis
    proof (cases "?den = index")
      case True
      then have d: "tightenNumerator low high ?num ?den band = (ok, l, h)" using t num by (simp add: t_def)
      from tightenNumerator_keeps [OF d Cons.prems(1) _ Cons.prems(3) b(3,4,2,1) refl refl]
        tightenNumerator_shrinks(1,2) [OF d refl len] True b(5) Cons.prems(2)
      show ?thesis by metis
    next
      case False
      then show ?thesis using t num Cons.prems(1) len by (simp add: t_def shrinks_refl)
    qed
  qed
  then have ok: ok "in_box l h v" "l ! index = v ! index" "counts_ok l h" "length l = length low"
    using counts_ok_shrinks Cons.prems(2,3) by (auto simp: shrinks_def)
  have "propagate c index (band # bands) low high = propagate c index bands l h"
    using ok(1) by (simp add: t t_def [symmetric] Let_def)
  then show ?case using Cons.IH [OF ok(2-4)] Cons.prems(4,5) ok(5) by simp
qed

lemma try_values_budget:
  "(\<And>v b. snd (attempt v b) \<le> b) \<Longrightarrow> snd (try_values attempt vs budget) \<le> budget"
proof (induction vs arbitrary: budget)
  case (Cons v vs)
  have "snd (attempt v (budget - 1)) \<le> budget - 1" by (rule Cons.prems)
  moreover have "snd (try_values attempt vs b) \<le> b" for b by (rule Cons.IH [OF Cons.prems])
  then have "snd (try_values attempt vs (snd (attempt v (budget - 1)))) \<le> snd (attempt v (budget - 1))" .
  ultimately show ?case by (auto simp: Let_def case_prod_beta)
qed simp

lemma search_budget: "snd (search c roles low high budget) \<le> budget"
proof (induction roles arbitrary: low high budget)
  case (Cons role roles)
  then show ?case
    by (auto simp: Let_def intro!: try_values_budget split: option.splits)
qed simp

lemma try_values_exhausted:
  assumes "try_values attempt vs budget = (False, budget')" "0 < budget'" "\<And>v b. snd (attempt v b) \<le> b" "v \<in> set vs"
  shows "\<exists>b b'. attempt v b = (False, b') \<and> 0 < b'"
  using assms(1,2,4)
proof (induction vs arbitrary: budget)
  case (Cons w vs)
  obtain found b where w: "attempt w (budget - 1) = (found, b)" by (cases "attempt w (budget - 1)")
  have "0 < budget - 1" using Cons.prems(1,2) by (auto simp: Let_def split: if_splits)
  then have rest: "\<not> found" "try_values attempt vs b = (False, budget')"
    using Cons.prems(1) w by (auto simp: Let_def split: if_splits)
  have "budget' \<le> b" using try_values_budget [of attempt vs b] assms(3) rest(2) by auto
  then have "attempt w (budget - 1) = (False, b) \<and> 0 < b" using Cons.prems(2) w rest(1) by simp
  then show ?case using Cons.IH [OF rest(2) Cons.prems(2)] Cons.prems(3) by (cases "v = w") auto
qed simp

definition bands_ok :: "ScalerComponent \<Rightarrow> nat \<Rightarrow> bool" where
  "bands_ok c n \<longleftrightarrow> (\<forall>band \<in> set (co_ratios c). tame_band band
     \<and> role_index c (bd_numerator band) < n \<and> role_index c (bd_denominator band) < n
     \<and> role_index c (bd_numerator band) \<noteq> role_index c (bd_denominator band))"

lemma search_complete:
  assumes "search c roles low high budget = (False, budget')" "0 < budget'" "bands_ok c (length low)"
    "counts_ok low high" "\<forall>r \<in> set roles. role_index c r < length low"
    "\<forall>i < length low. i \<notin> role_index c ` set roles \<longrightarrow> low ! i = high ! i" "in_box low high v"
  shows "\<not> component_holds c v"
  using assms
proof (induction roles arbitrary: low high budget budget')
  case Nil
  then have "v = low" by (auto simp: in_box_def list_eq_iff_nth_eq)
  then show ?case using Nil.prems(1) by simp
next
  case (Cons role roles)
  show ?case
  proof
    assume holds: "component_holds c v"
    let ?i = "role_index c role"
    let ?l = "low[?i := v ! ?i]" and ?h = "high[?i := v ! ?i]"
    have i: "?i < length low" using Cons.prems(5) by simp
    have len: "length high = length low" using Cons.prems(4) by (simp add: counts_ok_def)
    have mem: "v ! ?i \<in> set [low ! ?i..high ! ?i]" using Cons.prems(7) i by (simp add: in_box_def)
    let ?attempt = "\<lambda>w budget. case propagate c ?i (co_ratios c) (low[?i := w]) (high[?i := w]) of
        None \<Rightarrow> (False, budget) | Some (nextLow, nextHigh) \<Rightarrow> search c roles nextLow nextHigh budget"
    have dec: "snd (?attempt w b) \<le> b" for w b by (auto split: option.split simp: search_budget)
    have run: "try_values ?attempt [low ! ?i..high ! ?i] budget = (False, budget')"
      using Cons.prems(1,2) by (auto simp: Let_def split: if_splits)
    obtain b b' where att: "?attempt (v ! ?i) b = (False, b')" and b': "0 < b'"
      using try_values_exhausted [OF run Cons.prems(2) dec mem] by blast
    have box: "in_box ?l ?h v" using Cons.prems(7) by (auto simp: in_box_def nth_update)
    have cnt: "counts_ok ?l ?h"
      using Cons.prems(4,7) unfolding counts_ok_def in_box_def by (auto simp: nth_update) (metis order_trans)+
    have bands: "\<forall>band \<in> set (co_ratios c). band_holds c v band \<and> tame_band band
       \<and> role_index c (bd_numerator band) < length ?l \<and> role_index c (bd_denominator band) < length ?l
       \<and> role_index c (bd_numerator band) \<noteq> role_index c (bd_denominator band)"
      using Cons.prems(3) holds by (simp add: bands_ok_def component_holds_def list_all_iff)
    obtain l' h' where p: "propagate c ?i (co_ratios c) ?l ?h = Some (l', h')" and box': "in_box l' h' v"
      using propagate_keeps [OF box _ cnt _ bands, of ?i] i by auto
    have le: "\<forall>j < length low. ?l ! j \<le> ?h ! j" using box by (auto simp: in_box_def intro: order_trans)
    have sh: "shrinks (length low) ?l ?h l' h'" "\<forall>j < length low. l' ! j \<le> h' ! j"
      using propagate_shrinks [OF p _ _ le] len by simp_all
    have fixed: "\<forall>j < length l'. j \<notin> role_index c ` set roles \<longrightarrow> l' ! j = h' ! j"
    proof (intro allI impI)
      fix j assume j: "j < length l'" "j \<notin> role_index c ` set roles"
      then have "j < length low" using sh(1) by (simp add: shrinks_def)
      moreover from this have "?l ! j = ?h ! j" using Cons.prems(6) j(2) len by (auto simp: nth_update)
      ultimately have "?l ! j \<le> l' ! j" "l' ! j \<le> h' ! j" "h' ! j \<le> ?l ! j"
        using sh by (auto simp: shrinks_def)
      then show "l' ! j = h' ! j" by linarith
    qed
    have "length l' = length low" using sh(1) by (simp add: shrinks_def)
    then have "\<not> component_holds c v"
      using Cons.IH [of l' h' b b'] att p b' Cons.prems(3,5) counts_ok_shrinks [OF sh(1) cnt] fixed box' by simp
    then show False using holds by simp
  qed
qed

section \<open>The decision\<close>

definition component_ok :: "ScalerComponent \<Rightarrow> bool" where
  "component_ok c \<longleftrightarrow> length (co_low c) = length (co_roles c) \<and> length (co_high c) = length (co_roles c)
     \<and> (\<forall>i < length (co_roles c). role_index c (co_roles c ! i) = i)
     \<and> (\<forall>i < length (co_roles c). 1 \<le> co_low c ! i \<and> co_low c ! i \<le> co_high c ! i \<and> co_high c ! i \<le> 1024)
     \<and> (\<forall>band \<in> set (co_ratios c). bd_numerator band \<in> set (co_roles c) \<and> bd_denominator band \<in> set (co_roles c)
          \<and> bd_numerator band \<noteq> bd_denominator band)"

lemma component_ok_index:
  assumes "component_ok c" "r \<in> set (co_roles c)"
  shows "role_index c r < length (co_roles c)" "co_roles c ! role_index c r = r"
proof -
  obtain i where "i < length (co_roles c)" "co_roles c ! i = r" using assms(2) by (metis in_set_conv_nth)
  then show "role_index c r < length (co_roles c)" "co_roles c ! role_index c r = r"
    using assms(1) by (auto simp: component_ok_def)
qed

lemma feasible_sound:
  assumes "component_ok c" "feasible c budget = (True, budget')"
  shows "\<exists>v. in_box (co_low c) (co_high c) v \<and> component_holds c v"
proof -
  have lo: "in_box (co_low c) (co_high c) (co_low c)" and hi: "in_box (co_low c) (co_high c) (co_high c)"
    using assms(1) by (simp_all add: component_ok_def in_box_def)
  show ?thesis
  proof (cases "co_ratios c = [] \<or> component_holds c (co_low c) \<or> component_holds c (co_high c)")
    case True
    then show ?thesis using lo hi by (auto simp: component_holds_def)
  next
    case False
    then have "search c (co_roles c) (co_low c) (co_high c) budget = (True, budget')"
      using assms(2) by (simp add: feasible_def)
    then show ?thesis
      using search_sound [of c "co_roles c" "co_low c" "co_high c" budget budget' "length (co_roles c)"]
        assms(1) component_ok_index [OF assms(1)] by (simp add: component_ok_def)
  qed
qed

lemma feasible_complete:
  assumes "component_ok c" "\<forall>band \<in> set (co_ratios c). tame_band band" "feasible c budget = (False, budget')" "0 < budget'"
    "in_box (co_low c) (co_high c) v"
  shows "\<not> component_holds c v"
proof -
  have run: "search c (co_roles c) (co_low c) (co_high c) budget = (False, budget')"
    using assms(3) by (simp add: feasible_def split: if_splits)
  have len: "length (co_low c) = length (co_roles c)" using assms(1) by (simp add: component_ok_def)
  have "bands_ok c (length (co_low c))"
    unfolding bands_ok_def len
  proof
    fix band assume band: "band \<in> set (co_ratios c)"
    then have roles: "bd_numerator band \<in> set (co_roles c)" "bd_denominator band \<in> set (co_roles c)"
        "bd_numerator band \<noteq> bd_denominator band"
      using assms(1) by (simp_all add: component_ok_def)
    then have "role_index c (bd_numerator band) \<noteq> role_index c (bd_denominator band)"
      using component_ok_index(2) [OF assms(1)] by metis
    then show "tame_band band \<and> role_index c (bd_numerator band) < length (co_roles c)
        \<and> role_index c (bd_denominator band) < length (co_roles c)
        \<and> role_index c (bd_numerator band) \<noteq> role_index c (bd_denominator band)"
      using assms(2) band component_ok_index(1) [OF assms(1)] roles by simp
  qed
  moreover have "counts_ok (co_low c) (co_high c)" using assms(1) by (simp add: counts_ok_def component_ok_def)
  moreover have "i \<in> role_index c ` set (co_roles c)" if "i < length (co_roles c)" for i
  proof
    show "i = role_index c (co_roles c ! i)" using assms(1) that by (simp add: component_ok_def)
  qed (use that in simp)
  ultimately show ?thesis
    using search_complete [OF run assms(4)] component_ok_index [OF assms(1)] assms(5) len by simp
qed

end
