(* ===== verification/Ratio_Components.thy ===== *)
theory Ratio_Components
  imports Ratio_Search
begin

text \<open>
  From the search of one component to the check of a whole scaler. The union-find of
  \<open>modelDeploymentScalerComponents\<close> returns on every input that reaches it, keeps the set every
  role belongs to while it halves paths, and puts the two roles of a ratio into one set. A scaler
  that passed the validation of its roles and ratios is refused for infeasibility only if no counts
  within its bounds satisfy its ratios, and accepted, when no search ran out of budget, only if some
  do.
\<close>

section \<open>Union-find\<close>

text \<open>\<open>root_in parent i r n\<close>: the root of \<open>i\<close> is \<open>r\<close>, \<open>n\<close> steps up.\<close>

inductive root_in :: "nat list \<Rightarrow> nat \<Rightarrow> nat \<Rightarrow> nat \<Rightarrow> bool" for parent where
  here: "parent ! r = r \<Longrightarrow> root_in parent r r 0"
| up: "parent ! i = j \<Longrightarrow> j \<noteq> i \<Longrightarrow> root_in parent j r n \<Longrightarrow> root_in parent i r (Suc n)"

inductive_cases root_inE: "root_in parent i r n"
inductive_cases root_in_SucE: "root_in parent i r (Suc n)"

lemma root_in_unique: "root_in parent i r n \<Longrightarrow> root_in parent i r' n' \<Longrightarrow> r = r' \<and> n = n'"
proof (induction arbitrary: r' n' rule: root_in.induct)
  case (here r)
  then show ?case by (auto elim: root_inE)
next
  case (up i j r n)
  from up.prems up.hyps(1,2) obtain m where "n' = Suc m" "root_in parent j r' m" by (auto elim: root_inE)
  then show ?case using up.IH by auto
qed

lemma root_in_root: "root_in parent i r n \<Longrightarrow> parent ! r = r"
  by (induction rule: root_in.induct) auto

definition roots_kept :: "nat list \<Rightarrow> nat list \<Rightarrow> bool" where
  "roots_kept parent parent' \<longleftrightarrow> length parent' = length parent
     \<and> (\<forall>x r n. root_in parent x r n \<longrightarrow> (\<exists>m. root_in parent' x r m))"

lemma roots_kept_refl: "roots_kept parent parent"
  by (auto simp: roots_kept_def)

lemma roots_kept_trans: "roots_kept a b \<Longrightarrow> roots_kept b c \<Longrightarrow> roots_kept a c"
  by (fastforce simp: roots_kept_def)

text \<open>A change above an element does not concern the elements nearer to the root.\<close>

lemma root_in_update:
  assumes "root_in parent i s d"
  shows "root_in parent x r n \<Longrightarrow> n < d \<Longrightarrow> root_in (parent[i := y]) x r n"
proof (induction rule: root_in.induct)
  case (here r)
  then have "r \<noteq> i" using root_in_unique [OF assms root_in.here] by auto
  then show ?case using here by (simp add: root_in.here)
next
  case (up a j r n)
  then have "a \<noteq> i" using root_in_unique [OF assms, of r "Suc n"] root_in.up [OF up.hyps] by auto
  then show ?case using up by (intro root_in.up) auto
qed

lemma halving_step:
  assumes "root_in parent i r n" "parent ! i \<noteq> i" "i < length parent"
  defines "k \<equiv> parent ! (parent ! i)"
  shows "roots_kept parent (parent[i := k]) \<and> (\<exists>m < n. root_in (parent[i := k]) k r m)"
proof -
  let ?p = "parent[i := k]" and ?j = "parent ! i"
  from assms(1,2) obtain n1 where n: "n = Suc n1" and j: "root_in parent ?j r n1" by (auto elim: root_inE)
  have near: "\<exists>m < n. root_in ?p k r m \<and> k \<noteq> i"
  proof (cases "k = ?j")
    case True
    then have "r = ?j" using j by (metis k_def root_in.here root_in_unique)
    moreover have "?p ! ?j = ?j" using True assms(2) by (simp add: k_def)
    ultimately show ?thesis using True n assms(2) root_in.here [of ?p] by auto
  next
    case False
    then obtain n2 where n2: "n1 = Suc n2" "root_in parent k r n2" using j by (auto simp: k_def elim: root_inE)
    then have "k \<noteq> i" using root_in_unique [OF assms(1), of r n2] n by auto
    then show ?thesis using root_in_update [OF assms(1) n2(2), of k] n n2(1) by (intro exI [of _ n2]) simp
  qed
  have "\<exists>m. root_in ?p x r' m" if "root_in parent x r' d" for x r' d
    using that
  proof (induction rule: root_in.induct)
    case (here r')
    then have "r' \<noteq> i" using assms(2) by auto
    then show ?case using here root_in.here [of ?p r'] by auto
  next
    case (up a b r' d)
    show ?case
    proof (cases "a = i")
      case True
      have "r' = r" using root_in_unique [OF assms(1), of r' "Suc d"] root_in.up [OF up.hyps] True by simp
      moreover obtain m where "root_in ?p k r m" "k \<noteq> i" using near by auto
      ultimately show ?thesis using True assms(3) root_in.up [of ?p i k r m] by auto
    next
      case False
      then show ?thesis using up root_in.up [of ?p a b r'] by auto
    qed
  qed
  then show ?thesis using near by (auto simp: roots_kept_def)
qed

definition in_range :: "nat list \<Rightarrow> bool" where
  "in_range parent \<longleftrightarrow> (\<forall>i < length parent. parent ! i < length parent)"

lemma Find_returns:
  assumes "root_in parent i r n" "i < length parent" "in_range parent"
  shows "\<exists>parent'. modelDeploymentScalerFind parent i = Some (r, parent') \<and> roots_kept parent parent' \<and> in_range parent'"
  using assms
proof (induction n arbitrary: parent i rule: less_induct)
  case (less n)
  show ?case
  proof (cases "parent ! i = i")
    case True
    then have "r = i" using root_in_unique [OF less.prems(1) root_in.here] by simp
    then show ?thesis using True less.prems(3) roots_kept_refl by (subst modelDeploymentScalerFind.simps) auto
  next
    case False
    define k where "k = parent ! (parent ! i)"
    let ?p = "parent[i := k]"
    obtain m where m: "m < n" "root_in ?p k r m" and kept: "roots_kept parent ?p"
      using halving_step [OF less.prems(1) False less.prems(2)] by (auto simp: k_def)
    have k: "k < length parent" using less.prems(2,3) by (auto simp: k_def in_range_def)
    then have cl: "in_range ?p" using less.prems(3) by (auto simp: in_range_def nth_update)
    obtain p' where "modelDeploymentScalerFind ?p k = Some (r, p')" "roots_kept ?p p'" "in_range p'"
      using less.IH [OF m] k cl by auto
    moreover have "modelDeploymentScalerFind parent i = modelDeploymentScalerFind ?p k"
      using False less.prems(2) by (subst modelDeploymentScalerFind.simps) (simp add: Let_def k_def)
    ultimately show ?thesis using roots_kept_trans [OF kept] by auto
  qed
qed

text \<open>The roots of a forest, as a function.\<close>

definition rooted :: "nat list \<Rightarrow> (nat \<Rightarrow> nat) \<Rightarrow> bool" where
  "rooted parent f \<longleftrightarrow> in_range parent \<and> (\<forall>i < length parent. f i < length parent \<and> (\<exists>n. root_in parent i (f i) n))"

lemma Find_rooted:
  assumes "rooted parent f" "i < length parent"
  shows "\<exists>parent'. modelDeploymentScalerFind parent i = Some (f i, parent') \<and> rooted parent' f
           \<and> length parent' = length parent"
proof -
  obtain n where "root_in parent i (f i) n" using assms by (auto simp: rooted_def)
  then obtain p where "modelDeploymentScalerFind parent i = Some (f i, p)" "roots_kept parent p" "in_range p"
    using Find_returns assms by (metis rooted_def)
  then show ?thesis using assms(1) unfolding rooted_def roots_kept_def by (metis)
qed

lemma link_roots:
  assumes "rooted parent f" "f a = a" "f b = b" "a \<noteq> b" "a < length parent" "b < length parent"
  shows "rooted (parent[b := a]) (\<lambda>i. if f i = b then a else f i)"
proof -
  let ?p = "parent[b := a]"
  have self: "parent ! x = x" if "f x = x" "x < length parent" for x
    using assms(1) that root_in_root unfolding rooted_def by metis
  have a: "root_in ?p a a 0" using self [OF assms(2,5)] assms(4) by (intro root_in.here) simp
  then have b: "root_in ?p b a 1" using assms(4,6) root_in.up [of ?p b a a 0] by simp
  have moved: "\<exists>m. root_in ?p x (if r = b then a else r) m" if "root_in parent x r n" for x r n
    using that
  proof (induction rule: root_in.induct)
    case (here r)
    then show ?case using b root_in.here [of ?p r] by (cases "r = b") auto
  next
    case (up i j r n)
    have "i \<noteq> b" using up.hyps(1,2) self [OF assms(3,6)] by auto
    then have "?p ! i = j" using up.hyps(1) by simp
    then show ?case using up.IH root_in.up [OF _ up.hyps(2)] by blast
  qed
  have "in_range ?p" using assms(1,5) by (auto simp: rooted_def in_range_def nth_update)
  moreover have "(if f i = b then a else f i) < length parent \<and> (\<exists>n. root_in ?p i (if f i = b then a else f i) n)"
    if i: "i < length parent" for i
  proof -
    obtain n where "f i < length parent" "root_in parent i (f i) n" using assms(1) i by (auto simp: rooted_def)
    then show ?thesis using moved assms(5) by simp
  qed
  ultimately show ?thesis by (simp add: rooted_def)
qed

lemma Union_rooted:
  assumes "rooted parent f" "a < length parent" "b < length parent"
  shows "\<exists>parent' g. modelDeploymentScalerUnion parent a b = Some parent' \<and> rooted parent' g
    \<and> length parent' = length parent \<and> g a = g b \<and> (\<forall>x y. f x = f y \<longrightarrow> g x = g y)"
proof -
  obtain p where p: "modelDeploymentScalerFind parent a = Some (f a, p)" "rooted p f" "length p = length parent"
    using Find_rooted [OF assms(1,2)] by blast
  obtain p' where p': "modelDeploymentScalerFind p b = Some (f b, p')" "rooted p' f" "length p' = length parent"
    using Find_rooted [OF p(2)] assms(3) p(3) by metis
  have idem: "f (f x) = f x" if "x < length parent" for x
  proof -
    have r: "f x < length parent" and "\<exists>n. root_in parent x (f x) n" using assms(1) that by (auto simp: rooted_def)
    then have "root_in parent (f x) (f x) 0" using root_in_root root_in.here by blast
    moreover obtain n where "root_in parent (f x) (f (f x)) n" using assms(1) r by (auto simp: rooted_def)
    ultimately show ?thesis using root_in_unique by blast
  qed
  show ?thesis
  proof (cases "f a = f b")
    case True
    then have "modelDeploymentScalerUnion parent a b = Some p'" by (simp add: modelDeploymentScalerUnion_def p(1) p'(1))
    then show ?thesis using p'(2,3) True by blast
  next
    case False
    let ?g = "\<lambda>i. if f i = f b then f a else f i"
    have "f a < length p'" "f b < length p'" using assms p'(3) by (auto simp: rooted_def)
    then have "rooted (p'[f b := f a]) ?g"
      using link_roots [OF p'(2)] idem assms(2,3) False by auto
    moreover have "modelDeploymentScalerUnion parent a b = Some (p'[f b := f a])"
      using False by (simp add: modelDeploymentScalerUnion_def p(1) p'(1))
    ultimately show ?thesis using p'(3) by (intro exI [of _ "p'[f b := f a]"] exI [of _ ?g]) auto
  qed
qed

section \<open>Grouping\<close>

lemma join_ratios_rooted:
  assumes "rooted parent f"
    "\<forall>ratio \<in> set ratios. \<exists>a b. map_of position (rr_NumeratorRole ratio) = Some a \<and> a < length parent
       \<and> map_of position (rr_DenominatorRole ratio) = Some b \<and> b < length parent"
  shows "\<exists>parent' g. join_ratios position ratios parent = Some (parent', map band_of ratios) \<and> rooted parent' g
    \<and> length parent' = length parent \<and> (\<forall>x y. f x = f y \<longrightarrow> g x = g y)
    \<and> (\<forall>ratio \<in> set ratios. g (the (map_of position (rr_NumeratorRole ratio)))
                             = g (the (map_of position (rr_DenominatorRole ratio))))"
  using assms
proof (induction ratios arbitrary: parent f)
  case Nil
  then show ?case by auto
next
  case (Cons ratio ratios)
  then obtain a b where ab: "map_of position (rr_NumeratorRole ratio) = Some a" "a < length parent"
      "map_of position (rr_DenominatorRole ratio) = Some b" "b < length parent" by auto
  obtain p g where p: "modelDeploymentScalerUnion parent a b = Some p" "rooted p g" "length p = length parent"
      "g a = g b" "\<forall>x y. f x = f y \<longrightarrow> g x = g y"
    using Union_rooted [OF Cons.prems(1) ab(2,4)] by blast
  have "\<forall>ratio \<in> set ratios. \<exists>a b. map_of position (rr_NumeratorRole ratio) = Some a \<and> a < length p
       \<and> map_of position (rr_DenominatorRole ratio) = Some b \<and> b < length p"
    using Cons.prems(2) unfolding p(3) by simp
  from Cons.IH [OF p(2) this]
  obtain p' h where p': "join_ratios position ratios p = Some (p', map band_of ratios)" "rooted p' h" "length p' = length p"
      "\<forall>x y. g x = g y \<longrightarrow> h x = h y"
      "\<forall>ratio \<in> set ratios. h (the (map_of position (rr_NumeratorRole ratio)))
                             = h (the (map_of position (rr_DenominatorRole ratio)))"
    by blast
  have "join_ratios position (ratio # ratios) parent = Some (p', map band_of (ratio # ratios))"
    by (simp add: ab(1,3) p(1) p'(1))
  moreover have "h (the (map_of position (rr_NumeratorRole r))) = h (the (map_of position (rr_DenominatorRole r)))"
    if "r \<in> set (ratio # ratios)" for r
  proof (cases "r = ratio")
    case True
    show ?thesis unfolding True ab(1,3) option.sel using p(4) p'(4) by blast
  next
    case False
    then show ?thesis using that p'(5) by (meson set_ConsD)
  qed
  moreover have "\<forall>x y. f x = f y \<longrightarrow> h x = h y" using p(5) p'(4) by blast
  moreover have "length p' = length parent" using p'(3) p(3) by (rule trans)
  ultimately show ?case using p'(2) by blast
qed

definition built :: "(nat \<times> ScalerRoleBounds) list \<Rightarrow> ScalerComponent" where
  "built ms = fold (\<lambda>(i, bounds). add_role bounds) ms empty_component"

definition group_at :: "(nat \<Rightarrow> nat) \<Rightarrow> (nat \<times> ScalerRoleBounds) list \<Rightarrow> nat \<Rightarrow> ScalerComponent option" where
  "group_at f ms r = (let part = filter (\<lambda>(i, bounds). f i = r) ms in if part = [] then None else Some (built part))"

lemma built_snoc: "built (ms @ [m]) = add_role (snd m) (built ms)"
  by (simp add: built_def case_prod_beta)

lemma built_nil: "built [] = empty_component"
  by (simp add: built_def)

lemma group_roles_groups:
  assumes "rooted parent f" "\<forall>(i, b) \<in> set ms. i < length parent" "wf_map groups" "map_of groups = group_at f seen"
  shows "\<exists>parent' groups'. group_roles ms parent groups = Some (parent', groups') \<and> rooted parent' f
    \<and> length parent' = length parent \<and> wf_map groups' \<and> map_of groups' = group_at f (seen @ ms)"
  using assms
proof (induction ms arbitrary: parent groups seen)
  case Nil
  then show ?case by simp
next
  case (Cons m ms)
  obtain i b where m: "m = (i, b)" by (cases m)
  obtain p where p: "modelDeploymentScalerFind parent i = Some (f i, p)" "rooted p f" "length p = length parent"
    using Find_rooted [OF Cons.prems(1), of i] Cons.prems(2) m by auto
  let ?c = "add_role b (map_get groups (f i) empty_component)"
  have "map_get groups (f i) empty_component = built (filter (\<lambda>(j, b). f j = f i) seen)"
    using Cons.prems(4) by (simp add: map_get_def group_at_def Let_def built_def split: if_splits)
  then have "map_of (map_put (f i) ?c groups) = group_at f (seen @ [m])"
    using Cons.prems(4) by (auto simp: fun_eq_iff group_at_def Let_def m built_snoc)
  from Cons.IH [OF p(2) _ wf_put [OF Cons.prems(3)] this] Cons.prems(2) p(3)
  show ?case by (simp add: m p(1))
qed

lemma group_bands_groups:
  assumes "rooted parent f" "wf_map groups"
    "\<forall>band \<in> set bands. map_get position (bd_numerator band) 0 < length parent
       \<and> map_get position (bd_denominator band) 0 < length parent
       \<and> f (map_get position (bd_numerator band) 0) = f (map_get position (bd_denominator band) 0)
       \<and> map_of groups (f (map_get position (bd_numerator band) 0)) \<noteq> None"
  shows "\<exists>groups'. group_bands position bands parent groups = Some groups' \<and> wf_map groups'
    \<and> (\<forall>r. map_of groups' r = map_option (\<lambda>c. c\<lparr>co_ratios := co_ratios c
          @ filter (\<lambda>band. f (map_get position (bd_numerator band) 0) = r) bands\<rparr>) (map_of groups r))"
  using assms
proof (induction bands arbitrary: parent groups)
  case Nil
  have "map_option (\<lambda>c. c\<lparr>co_ratios := co_ratios c\<rparr>) x = x" for x :: "ScalerComponent option"
    by (cases x) simp_all
  then show ?case using Nil by simp
next
  case (Cons band bands)
  let ?a = "map_get position (bd_numerator band) 0" and ?b = "map_get position (bd_denominator band) 0"
  have "?a < length parent \<and> ?b < length parent \<and> f ?a = f ?b \<and> map_of groups (f ?a) \<noteq> None"
    using Cons.prems(3) by (rule bspec) simp
  then have ab: "?a < length parent" "?b < length parent" "f ?a = f ?b" "map_of groups (f ?a) \<noteq> None"
    by blast+
  obtain p where p: "modelDeploymentScalerFind parent ?a = Some (f ?a, p)" "rooted p f" "length p = length parent"
    using Find_rooted [OF Cons.prems(1) ab(1)] by blast
  obtain p' where p': "modelDeploymentScalerFind p ?b = Some (f ?b, p')" "rooted p' f" "length p' = length parent"
    using Find_rooted [OF p(2)] ab(2) p(3) by metis
  obtain c where c: "map_of groups (f ?a) = Some c" using ab(4) by auto
  have get: "map_get groups (f ?a) empty_component = c" by (simp add: map_get_def [of groups] c)
  let ?g = "map_put (f ?a) (c\<lparr>co_ratios := co_ratios c @ [band]\<rparr>) groups"
  have "\<forall>band \<in> set bands. map_get position (bd_numerator band) 0 < length p'
       \<and> map_get position (bd_denominator band) 0 < length p'
       \<and> f (map_get position (bd_numerator band) 0) = f (map_get position (bd_denominator band) 0)
       \<and> map_of ?g (f (map_get position (bd_numerator band) 0)) \<noteq> None"
    using Cons.prems(3) p'(3) by auto
  from Cons.IH [OF p'(2) wf_put [OF Cons.prems(2)] this]
  obtain groups' where g: "group_bands position bands p' ?g = Some groups'" "wf_map groups'"
    "\<forall>r. map_of groups' r = map_option (\<lambda>c. c\<lparr>co_ratios := co_ratios c
          @ filter (\<lambda>band. f (map_get position (bd_numerator band) 0) = r) bands\<rparr>) (map_of ?g r)"
    by blast
  have "group_bands position (band # bands) parent groups = Some groups'"
    using g(1) by (simp add: p(1) p'(1) get Let_def flip: ab(3))
  then show ?case using g(2,3) c by (intro exI [of _ groups']) auto
qed

section \<open>What the validation of roles and ratios guarantees\<close>

lemma role_errors_nil:
  "role_errors i seen bs = [] \<Longrightarrow> distinct (map sb_Name bs) \<and> sb_Name ` set bs \<inter> fst ` set seen = {}
     \<and> (\<forall>b \<in> set bs. 1 \<le> sb_MinReplicas b \<and> sb_MinReplicas b \<le> sb_MaxReplicas b \<and> sb_MaxReplicas b \<le> 1024)"
proof (induction i seen bs rule: role_errors.induct)
  case (2 i seen b bs)
  then have none: "map_of seen (sb_Name b) = None" by (cases "map_of seen (sb_Name b)") simp_all
  then have fresh: "sb_Name b \<notin> fst ` set seen" by (simp add: map_of_eq_None_iff)
  have errs: "role_bound_errors i b = []" "role_errors (Suc i) (map_put (sb_Name b) i seen) bs = []"
    using 2(3) none by simp_all
  note IH = 2(1) [OF none errs(2)]
  have bound: "1 \<le> sb_MinReplicas b \<and> sb_MinReplicas b \<le> sb_MaxReplicas b \<and> sb_MaxReplicas b \<le> 1024"
    using errs(1) by (auto simp: role_bound_errors_def modelDeploymentScalerMaxReplicas_def split: if_splits)
  then show ?case using IH fresh by (auto simp: keys_put)
qed simp

definition positive :: "Dec option \<Rightarrow> bool" where
  "positive q \<longleftrightarrow> (\<forall>d. q = Some d \<longrightarrow> 0 < dec_Unscaled d)"

lemma positive_value: "positive q \<Longrightarrow> modelDeploymentScalerRatioValue q = Some x \<Longrightarrow> 0 < x"
  by (auto simp: positive_def modelDeploymentScalerRatioValue_def split: option.splits if_splits)

lemma positive_nil: "validateModelDeploymentScalerPositiveQuantity e q = [] \<Longrightarrow> positive q"
  by (auto simp: validateModelDeploymentScalerPositiveQuantity_def positive_def split: option.splits if_splits)

lemma ratio_errors_nil:
  "ratio_errors known i seen rs = [] \<Longrightarrow> \<forall>r \<in> set rs. rr_NumeratorRole r \<noteq> rr_DenominatorRole r
     \<and> rr_NumeratorRole r \<in> known \<and> rr_DenominatorRole r \<in> known \<and> positive (rr_Min r) \<and> positive (rr_Max r)"
proof (induction known i seen rs rule: ratio_errors.induct)
  case (2 known i seen r rs)
  have diff: "rr_NumeratorRole r \<noteq> rr_DenominatorRole r" using 2(4) by (auto split: if_splits)
  have known: "rr_NumeratorRole r \<in> known" "rr_DenominatorRole r \<in> known" using 2(4) diff by (auto split: if_splits)
  have none: "map_of seen (ratio_key r) = None" using 2(4) diff by (cases "map_of seen (ratio_key r)") simp_all
  have errs: "validateModelDeploymentScalerRatioQuantities i r = []"
    "ratio_errors known (Suc i) (map_put (ratio_key r) i seen) rs = []" using 2(4) diff known none by simp_all
  have "positive (rr_Min r)" "positive (rr_Max r)"
    using errs(1) by (auto simp: validateModelDeploymentScalerRatioQuantities_def Let_def intro: positive_nil)
  then show ?case using 2(2) [OF diff none errs(2)] diff known by simp
qed simp

lemma positions_absent:
  assumes "k \<notin> (\<lambda>x. sb_Name (snd x)) ` set xs"
  shows "map_of (fold (\<lambda>(i, b). map_put (sb_Name b) i) xs m) k = map_of m k"
  using assms by (induction xs arbitrary: m) auto

lemma positions_present:
  assumes "distinct (map (\<lambda>x. sb_Name (snd x)) xs)" "(i, b) \<in> set xs"
  shows "map_of (fold (\<lambda>(i, b). map_put (sb_Name b) i) xs m) (sb_Name b) = Some i"
  using assms
proof (induction xs arbitrary: m)
  case (Cons x xs)
  show ?case
  proof (cases "x = (i, b)")
    case True
    then show ?thesis using Cons.prems(1) by (simp add: positions_absent)
  next
    case False
    then show ?thesis using Cons by (simp add: case_prod_beta)
  qed
qed simp

lemma positions_nth:
  assumes "distinct (map sb_Name roles)" "i < length roles"
  shows "map_of (positions roles) (sb_Name (roles ! i)) = Some i"
proof -
  have "map (\<lambda>x. sb_Name (snd x)) (enumerate 0 roles) = map sb_Name roles"
    by (simp add: list_eq_iff_nth_eq nth_enumerate_eq)
  moreover have "(i, roles ! i) \<in> set (enumerate 0 roles)" using assms(2) by (simp add: in_set_enumerate_eq)
  ultimately show ?thesis
    unfolding positions_def using positions_present [of "enumerate 0 roles" i "roles ! i" "[]"] assms(1) by simp
qed

lemma built_fields:
  "co_roles (built ms) = map (\<lambda>x. sb_Name (snd x)) ms" "co_low (built ms) = map (\<lambda>x. sb_MinReplicas (snd x)) ms"
  "co_high (built ms) = map (\<lambda>x. sb_MaxReplicas (snd x)) ms" "co_ratios (built ms) = []"
  by (induction ms rule: rev_induct) (simp_all add: built_snoc built_nil add_role_def empty_component_def)

lemma built_index:
  assumes "distinct (map (\<lambda>x. sb_Name (snd x)) ms)" "j < length ms"
  shows "map_of (co_index (built ms)) (sb_Name (snd (ms ! j))) = Some j"
  using assms
proof (induction ms rule: rev_induct)
  case (snoc m ms)
  obtain i b where m: "m = (i, b)" by (cases m)
  show ?case
  proof (cases "j < length ms")
    case True
    have "sb_Name b \<notin> (\<lambda>x. sb_Name (snd x)) ` set ms" using snoc.prems(1) m by simp
    then have "sb_Name (snd (ms ! j)) \<noteq> sb_Name b" using nth_mem [OF True] by (metis image_eqI)
    then show ?thesis using True snoc by (simp add: m built_snoc add_role_def nth_append)
  next
    case False
    then have "j = length ms" using snoc.prems(2) by simp
    then show ?thesis by (simp add: m built_snoc add_role_def built_fields)
  qed
qed simp

section \<open>The components of a scaler\<close>

definition member_roles :: "ScalerRules \<Rightarrow> (nat \<Rightarrow> nat) \<Rightarrow> nat \<Rightarrow> (nat \<times> ScalerRoleBounds) list" where
  "member_roles s f r = filter (\<lambda>(i, b). f i = r) (enumerate 0 (sc_Roles s))"

definition component_of :: "ScalerRules \<Rightarrow> (nat \<Rightarrow> nat) \<Rightarrow> nat \<Rightarrow> ScalerComponent" where
  "component_of s f r = (built (member_roles s f r))\<lparr>co_ratios :=
     filter (\<lambda>band. f (map_get (positions (sc_Roles s)) (bd_numerator band) 0) = r) (map band_of (sc_Ratios s))\<rparr>"

definition rules_valid :: "ScalerRules \<Rightarrow> bool" where
  "rules_valid s \<longleftrightarrow> validateModelDeploymentScalerRoles s = [] \<and> validateModelDeploymentScalerRatios s = []"

lemma rules_validD:
  assumes "rules_valid s"
  shows "distinct (map sb_Name (sc_Roles s))"
    "b \<in> set (sc_Roles s) \<Longrightarrow> 1 \<le> sb_MinReplicas b \<and> sb_MinReplicas b \<le> sb_MaxReplicas b \<and> sb_MaxReplicas b \<le> 1024"
    "ratio \<in> set (sc_Ratios s) \<Longrightarrow> rr_NumeratorRole ratio \<noteq> rr_DenominatorRole ratio
      \<and> rr_NumeratorRole ratio \<in> sb_Name ` set (sc_Roles s) \<and> rr_DenominatorRole ratio \<in> sb_Name ` set (sc_Roles s)
      \<and> positive (rr_Min ratio) \<and> positive (rr_Max ratio)"
  using assms role_errors_nil [of 0 "[]" "sc_Roles s"] ratio_errors_nil [of _ 0 "[]" "sc_Ratios s"]
  by (auto simp: rules_valid_def validateModelDeploymentScalerRoles_def validateModelDeploymentScalerRatios_def)

lemma rules_valid_position:
  assumes "rules_valid s" "name \<in> sb_Name ` set (sc_Roles s)"
  shows "\<exists>i < length (sc_Roles s). map_of (positions (sc_Roles s)) name = Some i
           \<and> map_get (positions (sc_Roles s)) name 0 = i \<and> sb_Name (sc_Roles s ! i) = name"
proof -
  obtain i where "i < length (sc_Roles s)" "sb_Name (sc_Roles s ! i) = name"
    using assms(2) by (auto simp: in_set_conv_nth)
  then show ?thesis using positions_nth [OF rules_validD(1) [OF assms(1)]] by (auto simp: map_get_def)
qed

lemma components_of_scaler:
  assumes "rules_valid s"
  obtains f comps where "modelDeploymentScalerComponents s = Some comps"
    "set comps = component_of s f ` f ` {..<length (sc_Roles s)}"
    "\<And>ratio. ratio \<in> set (sc_Ratios s) \<Longrightarrow> f (map_get (positions (sc_Roles s)) (rr_NumeratorRole ratio) 0)
       = f (map_get (positions (sc_Roles s)) (rr_DenominatorRole ratio) 0)"
proof -
  let ?n = "length (sc_Roles s)" and ?pos = "positions (sc_Roles s)" and ?ms = "enumerate 0 (sc_Roles s)"
  have "root_in [0..<?n] i i 0" if "i < ?n" for i using that by (intro root_in.here) simp
  then have start: "rooted [0..<?n] (\<lambda>i. i)" by (auto simp: rooted_def in_range_def)
  have known: "\<forall>ratio \<in> set (sc_Ratios s). \<exists>a b. map_of ?pos (rr_NumeratorRole ratio) = Some a \<and> a < length [0..<?n]
       \<and> map_of ?pos (rr_DenominatorRole ratio) = Some b \<and> b < length [0..<?n]"
    using rules_validD(3) [OF assms] rules_valid_position [OF assms] by (metis diff_zero length_upt)
  obtain p f where p: "join_ratios ?pos (sc_Ratios s) [0..<?n] = Some (p, map band_of (sc_Ratios s))" "rooted p f"
      "length p = length [0..<?n]" "\<forall>ratio \<in> set (sc_Ratios s). f (the (map_of ?pos (rr_NumeratorRole ratio)))
                             = f (the (map_of ?pos (rr_DenominatorRole ratio)))"
    using join_ratios_rooted [OF start known] by blast
  have len: "length p = ?n" using p(3) by simp
  have r: "\<forall>(i, b) \<in> set ?ms. i < length p" by (auto simp: len in_set_enumerate_eq)
  have e: "map_of [] = group_at f []" and nil: "wf_map ([] :: (nat, ScalerComponent) gomap)"
    by (simp_all add: group_at_def fun_eq_iff wf_map_def)
  obtain p' groups where g: "group_roles ?ms p [] = Some (p', groups)" "rooted p' f" "length p' = ?n" "wf_map groups"
      "map_of groups = group_at f ?ms"
    using group_roles_groups [OF p(2) r nil e] len by auto
  have same: "f (map_get ?pos (rr_NumeratorRole ratio) 0) = f (map_get ?pos (rr_DenominatorRole ratio) 0)
      \<and> map_get ?pos (rr_NumeratorRole ratio) 0 < ?n \<and> map_get ?pos (rr_DenominatorRole ratio) 0 < ?n"
    if ratio: "ratio \<in> set (sc_Ratios s)" for ratio
  proof -
    obtain a b where "a < ?n" "map_of ?pos (rr_NumeratorRole ratio) = Some a" "map_get ?pos (rr_NumeratorRole ratio) 0 = a"
        "b < ?n" "map_of ?pos (rr_DenominatorRole ratio) = Some b" "map_get ?pos (rr_DenominatorRole ratio) 0 = b"
      using rules_validD(3) [OF assms ratio] rules_valid_position [OF assms] by metis
    then show ?thesis using p(4) ratio by force
  qed
  have occupied: "map_of groups (f i) \<noteq> None" if "i < ?n" for i
  proof -
    have "(i, sc_Roles s ! i) \<in> set (filter (\<lambda>(j, b). f j = f i) ?ms)" using that by (simp add: in_set_enumerate_eq)
    then have "filter (\<lambda>(j, b). f j = f i) ?ms \<noteq> []" by (metis list.set(1) empty_iff)
    then show ?thesis by (simp add: g(5) group_at_def Let_def)
  qed
  have bands: "\<forall>band \<in> set (map band_of (sc_Ratios s)). map_get ?pos (bd_numerator band) 0 < length p'
       \<and> map_get ?pos (bd_denominator band) 0 < length p'
       \<and> f (map_get ?pos (bd_numerator band) 0) = f (map_get ?pos (bd_denominator band) 0)
       \<and> map_of groups (f (map_get ?pos (bd_numerator band) 0)) \<noteq> None"
  proof
    fix band assume "band \<in> set (map band_of (sc_Ratios s))"
    then obtain ratio where "ratio \<in> set (sc_Ratios s)" "band = band_of ratio" by auto
    then show "map_get ?pos (bd_numerator band) 0 < length p'
       \<and> map_get ?pos (bd_denominator band) 0 < length p'
       \<and> f (map_get ?pos (bd_numerator band) 0) = f (map_get ?pos (bd_denominator band) 0)
       \<and> map_of groups (f (map_get ?pos (bd_numerator band) 0)) \<noteq> None"
      using same [of ratio] occupied g(3) by (simp add: band_of_def)
  qed
  obtain groups' where g': "group_bands ?pos (map band_of (sc_Ratios s)) p' groups = Some groups'" "wf_map groups'"
    "\<forall>r. map_of groups' r = map_option (\<lambda>c. c\<lparr>co_ratios := co_ratios c
          @ filter (\<lambda>band. f (map_get ?pos (bd_numerator band) 0) = r) (map band_of (sc_Ratios s))\<rparr>) (map_of groups r)"
    using group_bands_groups [OF g(2,4) bands] by blast
  have comps: "modelDeploymentScalerComponents s = Some (map snd groups')"
    by (simp add: modelDeploymentScalerComponents_def p(1) g(1) g'(1))
  have at: "map_of groups' r = (if r \<in> f ` {..<?n} then Some (component_of s f r) else None)" for r
  proof (cases "r \<in> f ` {..<?n}")
    case True
    then obtain c where c: "map_of groups r = Some c" using occupied by force
    then have "c = built (member_roles s f r)" by (auto simp: g(5) group_at_def member_roles_def Let_def split: if_splits)
    then show ?thesis using True c g'(3) by (simp add: component_of_def built_fields)
  next
    case False
    then have "filter (\<lambda>(j, b). f j = r) ?ms = []" by (auto simp: filter_empty_conv in_set_enumerate_eq)
    then have "map_of groups r = None" by (simp add: g(5) group_at_def)
    then show ?thesis using False g'(3) by simp
  qed
  have pick: "(\<exists>r. (if r \<in> A then Some (h r) else None) = Some c) \<longleftrightarrow> c \<in> h ` A" for A and h :: "nat \<Rightarrow> ScalerComponent" and c
    by (auto split: if_splits)
  have "c \<in> set (map snd groups') \<longleftrightarrow> (\<exists>r. map_of groups' r = Some c)" for c
    using wf_map_iff [OF g'(2)] by (force simp: image_iff)
  then have "c \<in> set (map snd groups') \<longleftrightarrow> c \<in> component_of s f ` f ` {..<?n}" for c
    unfolding at pick .
  then have "set (map snd groups') = component_of s f ` f ` {..<?n}" by blast
  then show thesis using that [OF comps] same by blast
qed

lemma member_roles_names:
  assumes "rules_valid s"
  shows "distinct (map (\<lambda>x. sb_Name (snd x)) (member_roles s f r))"
    "x \<in> set (member_roles s f r) \<longleftrightarrow> fst x < length (sc_Roles s) \<and> snd x = sc_Roles s ! fst x \<and> f (fst x) = r"
proof -
  have "map (\<lambda>x. sb_Name (snd x)) (enumerate 0 (sc_Roles s)) = map sb_Name (sc_Roles s)"
    by (simp add: list_eq_iff_nth_eq nth_enumerate_eq)
  then have "distinct (map (\<lambda>x. sb_Name (snd x)) (enumerate 0 (sc_Roles s)))"
    using rules_validD(1) [OF assms] by simp
  then show "distinct (map (\<lambda>x. sb_Name (snd x)) (member_roles s f r))"
    by (simp add: member_roles_def distinct_map_filter)
  show "x \<in> set (member_roles s f r) \<longleftrightarrow> fst x < length (sc_Roles s) \<and> snd x = sc_Roles s ! fst x \<and> f (fst x) = r"
    by (cases x) (auto simp: member_roles_def in_set_enumerate_eq)
qed

lemma component_of_fields:
  "co_roles (component_of s f r) = map (\<lambda>x. sb_Name (snd x)) (member_roles s f r)"
  "co_low (component_of s f r) = map (\<lambda>x. sb_MinReplicas (snd x)) (member_roles s f r)"
  "co_high (component_of s f r) = map (\<lambda>x. sb_MaxReplicas (snd x)) (member_roles s f r)"
  "co_ratios (component_of s f r)
     = filter (\<lambda>band. f (map_get (positions (sc_Roles s)) (bd_numerator band) 0) = r) (map band_of (sc_Ratios s))"
  by (simp_all add: component_of_def built_fields)

lemma member_role_at:
  assumes "rules_valid s" "name \<in> sb_Name ` set (sc_Roles s)"
  shows "name \<in> set (co_roles (component_of s f (f (map_get (positions (sc_Roles s)) name 0))))"
proof -
  obtain i where "i < length (sc_Roles s)" "map_get (positions (sc_Roles s)) name 0 = i" "sb_Name (sc_Roles s ! i) = name"
    using rules_valid_position [OF assms] by auto
  then have "(i, sc_Roles s ! i) \<in> set (member_roles s f (f (map_get (positions (sc_Roles s)) name 0)))"
    using member_roles_names(2) [OF assms(1)] by simp
  then show ?thesis
    unfolding component_of_fields using \<open>sb_Name (sc_Roles s ! i) = name\<close> by force
qed

lemma component_of_ok:
  assumes "rules_valid s"
    "\<And>ratio. ratio \<in> set (sc_Ratios s) \<Longrightarrow> f (map_get (positions (sc_Roles s)) (rr_NumeratorRole ratio) 0)
       = f (map_get (positions (sc_Roles s)) (rr_DenominatorRole ratio) 0)"
  shows "component_ok (component_of s f r)"
proof -
  let ?c = "component_of s f r" and ?ms = "member_roles s f r"
  note names = member_roles_names(1) [OF assms(1), of f r] member_roles_names(2) [OF assms(1), of _ f r]
  have "role_index ?c (co_roles ?c ! j) = j" if "j < length ?ms" for j
    using built_index [OF names(1) that] that
    by (simp add: role_index_def component_of_def map_get_def built_fields)
  moreover have "1 \<le> co_low ?c ! j \<and> co_low ?c ! j \<le> co_high ?c ! j \<and> co_high ?c ! j \<le> 1024" if "j < length ?ms" for j
  proof -
    have "?ms ! j \<in> set ?ms" using that by simp
    then have "snd (?ms ! j) \<in> set (sc_Roles s)" unfolding names(2) by (metis nth_mem)
    then show ?thesis using rules_validD(2) [OF assms(1)] that by (simp add: component_of_fields)
  qed
  moreover have "bd_numerator band \<in> set (co_roles ?c) \<and> bd_denominator band \<in> set (co_roles ?c)
          \<and> bd_numerator band \<noteq> bd_denominator band" if band: "band \<in> set (co_ratios ?c)" for band
  proof -
    obtain ratio where ratio: "ratio \<in> set (sc_Ratios s)" "band = band_of ratio"
        "f (map_get (positions (sc_Roles s)) (rr_NumeratorRole ratio) 0) = r"
      using band by (auto simp: component_of_fields band_of_def)
    note v = rules_validD(3) [OF assms(1) ratio(1)]
    have "rr_NumeratorRole ratio \<in> set (co_roles ?c)"
      using member_role_at [OF assms(1), of "rr_NumeratorRole ratio" f] v ratio(3) by simp
    moreover have "rr_DenominatorRole ratio \<in> set (co_roles ?c)"
      using member_role_at [OF assms(1), of "rr_DenominatorRole ratio" f] v ratio(3) assms(2) [OF ratio(1)] by simp
    ultimately show ?thesis using v ratio(2) by (simp add: band_of_def)
  qed
  ultimately show ?thesis unfolding component_ok_def by (simp add: component_of_fields(1-3))
qed

section \<open>The check of a scaler\<close>

text \<open>Counts for the roles that lie within the bounds and keep every ratio.\<close>

definition counts_satisfy :: "ScalerRules \<Rightarrow> (string \<Rightarrow> int) \<Rightarrow> bool" where
  "counts_satisfy s v \<longleftrightarrow>
     (\<forall>b \<in> set (sc_Roles s). sb_MinReplicas b \<le> v (sb_Name b) \<and> v (sb_Name b) \<le> sb_MaxReplicas b)
     \<and> (\<forall>ratio \<in> set (sc_Ratios s). v (rr_DenominatorRole ratio) \<noteq> 0
          \<and> (\<forall>lo. modelDeploymentScalerRatioValue (rr_Min ratio) = Some lo \<longrightarrow>
               lo \<le> of_int (v (rr_NumeratorRole ratio)) / of_int (v (rr_DenominatorRole ratio)))
          \<and> (\<forall>hi. modelDeploymentScalerRatioValue (rr_Max ratio) = Some hi \<longrightarrow>
               of_int (v (rr_NumeratorRole ratio)) / of_int (v (rr_DenominatorRole ratio)) \<le> hi))"

text \<open>No product or quotient of a band and a count leaves the range of 64 bits.\<close>

definition ratios_tame :: "ScalerRules \<Rightarrow> bool" where
  "ratios_tame s \<longleftrightarrow> (\<forall>ratio \<in> set (sc_Ratios s). tame_band (band_of ratio))"

definition decided :: "ScalerComponent \<Rightarrow> bool" where
  "decided c \<longleftrightarrow> fst (feasible c modelDeploymentScalerFeasibilityBudget)
     \<or> 0 < snd (feasible c modelDeploymentScalerFeasibilityBudget)"

lemma band_holds_counts:
  assumes "component_ok c" "bd_numerator band \<in> set (co_roles c)" "bd_denominator band \<in> set (co_roles c)"
  shows "band_holds c (map v (co_roles c)) band \<longleftrightarrow> v (bd_denominator band) \<noteq> 0
     \<and> (\<forall>lo. bd_minimum band = Some lo \<longrightarrow> lo \<le> of_int (v (bd_numerator band)) / of_int (v (bd_denominator band)))
     \<and> (\<forall>hi. bd_maximum band = Some hi \<longrightarrow> of_int (v (bd_numerator band)) / of_int (v (bd_denominator band)) \<le> hi)"
  using component_ok_index [OF assms(1,2)] component_ok_index [OF assms(1,3)]
  by (auto simp: band_holds_def Let_def not_less split: option.splits)

lemma counts_in_component:
  assumes "rules_valid s" "component_ok (component_of s f r)" "counts_satisfy s v"
  shows "in_box (co_low (component_of s f r)) (co_high (component_of s f r)) (map v (co_roles (component_of s f r)))
    \<and> component_holds (component_of s f r) (map v (co_roles (component_of s f r)))"
proof
  let ?c = "component_of s f r" and ?ms = "member_roles s f r"
  have "snd (?ms ! i) \<in> set (sc_Roles s)" if "i < length ?ms" for i
    using member_roles_names(2) [OF assms(1), of "?ms ! i" f r] that nth_mem by auto
  then show "in_box (co_low ?c) (co_high ?c) (map v (co_roles ?c))"
    using assms(3) by (simp add: in_box_def component_of_fields counts_satisfy_def)
  have "band_holds ?c (map v (co_roles ?c)) band" if band: "band \<in> set (co_ratios ?c)" for band
  proof -
    obtain ratio where ratio: "ratio \<in> set (sc_Ratios s)" "band = band_of ratio"
      using band by (auto simp: component_of_fields)
    moreover have "bd_numerator band \<in> set (co_roles ?c)" "bd_denominator band \<in> set (co_roles ?c)"
      using assms(2) band by (simp_all add: component_ok_def)
    ultimately show ?thesis
      using assms(3) by (simp add: band_holds_counts [OF assms(2)]) (simp add: counts_satisfy_def band_of_def)
  qed
  then show "component_holds ?c (map v (co_roles ?c))" by (simp add: component_holds_def list_all_iff)
qed

text \<open>Counts that suit every component, put together.\<close>

lemma counts_from_components:
  assumes "rules_valid s" "\<And>r. component_ok (component_of s f r)"
    "\<And>r. r \<in> f ` {..<length (sc_Roles s)} \<Longrightarrow>
       \<exists>w. in_box (co_low (component_of s f r)) (co_high (component_of s f r)) w \<and> component_holds (component_of s f r) w"
  shows "\<exists>v. counts_satisfy s v"
proof -
  let ?c = "component_of s f" and ?rt = "\<lambda>name. f (map_get (positions (sc_Roles s)) name 0)"
  obtain w where w: "\<And>r. r \<in> f ` {..<length (sc_Roles s)} \<Longrightarrow>
      in_box (co_low (?c r)) (co_high (?c r)) (w r) \<and> component_holds (?c r) (w r)"
    using assms(3) by metis
  define v where "v name = w (?rt name) ! role_index (?c (?rt name)) name" for name
  have rt: "?rt (sb_Name b) \<in> f ` {..<length (sc_Roles s)}" if "b \<in> set (sc_Roles s)" for b
    using rules_valid_position [OF assms(1), of "sb_Name b"] that by auto
  have of_member: "?rt (sb_Name (snd x)) = r" if "x \<in> set (member_roles s f r)" for x r
    using that member_roles_names(2) [OF assms(1)] positions_nth [OF rules_validD(1) [OF assms(1)]]
    by (simp add: map_get_def)
  have vec: "map v (co_roles (?c r)) = w r" if r: "r \<in> f ` {..<length (sc_Roles s)}" for r
  proof (rule nth_equalityI)
    show len: "length (map v (co_roles (?c r))) = length (w r)"
      using w [OF r] by (simp add: in_box_def component_of_fields)
    fix j assume "j < length (map v (co_roles (?c r)))"
    then have j: "j < length (member_roles s f r)" by (simp add: component_of_fields)
    then have "role_index (?c r) (co_roles (?c r) ! j) = j"
      using assms(2) [of r] by (simp add: component_ok_def component_of_fields(1))
    moreover have "?rt (co_roles (?c r) ! j) = r"
      using of_member [of "member_roles s f r ! j" r] j by (simp add: component_of_fields)
    ultimately show "map v (co_roles (?c r)) ! j = w r ! j" using j by (simp add: v_def component_of_fields(1))
  qed
  have "sb_MinReplicas b \<le> v (sb_Name b) \<and> v (sb_Name b) \<le> sb_MaxReplicas b" if b: "b \<in> set (sc_Roles s)" for b
  proof -
    let ?r = "?rt (sb_Name b)"
    obtain i where i: "i < length (sc_Roles s)" "sc_Roles s ! i = b" using b by (auto simp: in_set_conv_nth)
    then have "(i, b) \<in> set (member_roles s f ?r)"
      using positions_nth [OF rules_validD(1) [OF assms(1)] i(1)] member_roles_names(2) [OF assms(1)]
      by (simp add: map_get_def)
    then obtain j where j: "j < length (member_roles s f ?r)" "member_roles s f ?r ! j = (i, b)"
      by (auto simp: in_set_conv_nth)
    have "in_box (co_low (?c ?r)) (co_high (?c ?r)) (map v (co_roles (?c ?r)))"
      using w [OF rt [OF b]] vec [OF rt [OF b]] by simp
    then show ?thesis using j by (auto simp: in_box_def component_of_fields dest: spec [of _ j])
  qed
  moreover have "v (rr_DenominatorRole ratio) \<noteq> 0
          \<and> (\<forall>lo. modelDeploymentScalerRatioValue (rr_Min ratio) = Some lo \<longrightarrow>
               lo \<le> of_int (v (rr_NumeratorRole ratio)) / of_int (v (rr_DenominatorRole ratio)))
          \<and> (\<forall>hi. modelDeploymentScalerRatioValue (rr_Max ratio) = Some hi \<longrightarrow>
               of_int (v (rr_NumeratorRole ratio)) / of_int (v (rr_DenominatorRole ratio)) \<le> hi)"
    if ratio: "ratio \<in> set (sc_Ratios s)" for ratio
  proof -
    let ?r = "?rt (rr_NumeratorRole ratio)"
    have r: "?r \<in> f ` {..<length (sc_Roles s)}"
      using rules_validD(3) [OF assms(1) ratio] rt by auto
    have band: "band_of ratio \<in> set (co_ratios (?c ?r))" using ratio by (simp add: component_of_fields band_of_def)
    then have "band_holds (?c ?r) (map v (co_roles (?c ?r))) (band_of ratio)"
      using w [OF r] vec [OF r] by (simp add: component_holds_def list_all_iff)
    moreover have "bd_numerator (band_of ratio) \<in> set (co_roles (?c ?r))" "bd_denominator (band_of ratio) \<in> set (co_roles (?c ?r))"
      using assms(2) [of ?r] band by (simp_all add: component_ok_def)
    ultimately show ?thesis using band_holds_counts [OF assms(2)] by (simp add: band_of_def)
  qed
  ultimately show ?thesis unfolding counts_satisfy_def by blast
qed

lemma component_errors_iff:
  "component_errors c \<noteq> [] \<longleftrightarrow> \<not> fst (feasible c modelDeploymentScalerFeasibilityBudget)
     \<and> 0 < snd (feasible c modelDeploymentScalerFeasibilityBudget)"
  by (simp add: component_errors_def case_prod_beta Let_def)

text \<open>C35: The check for a feasible replica vector is exact. For a scaler whose roles and ratios passed their
  own validation, the grouping of the roles returns, and the scaler is refused only if no counts
  within the bounds satisfy every ratio at once. If it is accepted and no search ran out of its
  budget, then such counts exist. The numbers of the ratios are assumed small enough for the 64-bit
  results of the rounding.
\<close>

theorem feasibility_check_exact:
  assumes "validateModelDeploymentScalerRoles s = []" "validateModelDeploymentScalerRatios s = []" "ratios_tame s"
  shows "\<exists>comps errs. modelDeploymentScalerComponents s = Some comps
    \<and> validateModelDeploymentScalerRatioFeasibility s = Some errs
    \<and> (errs \<noteq> [] \<longrightarrow> (\<nexists>v. counts_satisfy s v))
    \<and> (errs = [] \<and> (\<forall>c \<in> set comps. decided c) \<longrightarrow> (\<exists>v. counts_satisfy s v))"
proof -
  have valid: "rules_valid s" using assms(1,2) by (simp add: rules_valid_def)
  obtain f comps where comps: "modelDeploymentScalerComponents s = Some comps"
    "set comps = component_of s f ` f ` {..<length (sc_Roles s)}"
    and same: "\<And>ratio. ratio \<in> set (sc_Ratios s) \<Longrightarrow> f (map_get (positions (sc_Roles s)) (rr_NumeratorRole ratio) 0)
       = f (map_get (positions (sc_Roles s)) (rr_DenominatorRole ratio) 0)"
    by (rule components_of_scaler [OF valid]) (rule that)
  have ok: "component_ok (component_of s f r)" for r using valid same by (rule component_of_ok)
  let ?errs = "concat (map component_errors comps)"
  have errs: "validateModelDeploymentScalerRatioFeasibility s = Some ?errs"
    by (simp add: validateModelDeploymentScalerRatioFeasibility_def comps(1))
  have "\<nexists>v. counts_satisfy s v" if some: "?errs \<noteq> []"
  proof
    assume "\<exists>v. counts_satisfy s v"
    then obtain v where v: "counts_satisfy s v" ..
    obtain r where "component_errors (component_of s f r) \<noteq> []" using some comps(2) by auto
    then obtain b where b: "feasible (component_of s f r) modelDeploymentScalerFeasibilityBudget = (False, b)" "0 < b"
      unfolding component_errors_iff by (metis prod.collapse)
    have tame: "\<forall>band \<in> set (co_ratios (component_of s f r)). tame_band band"
      using assms(3) by (auto simp: component_of_fields ratios_tame_def)
    show False
      using feasible_complete [OF ok tame b] counts_in_component [OF valid ok v] by blast
  qed
  moreover have "\<exists>v. counts_satisfy s v" if none: "?errs = []" and dec: "\<forall>c \<in> set comps. decided c"
  proof (rule counts_from_components [OF valid ok])
    fix r assume "r \<in> f ` {..<length (sc_Roles s)}"
    then have "component_of s f r \<in> set comps" using comps(2) by simp
    then have "fst (feasible (component_of s f r) modelDeploymentScalerFeasibilityBudget)"
      using none dec component_errors_iff [of "component_of s f r"] by (auto simp: decided_def)
    then show "\<exists>w. in_box (co_low (component_of s f r)) (co_high (component_of s f r)) w \<and> component_holds (component_of s f r) w"
      using feasible_sound [OF ok] by (metis prod.collapse)
  qed
  ultimately show ?thesis using comps(1) errs by blast
qed

text \<open>A scaler of two roles with one ratio between them, its lower and upper bound as decimals.\<close>

definition pair_scaler :: "Dec option \<Rightarrow> Dec option \<Rightarrow> ScalerRules" where
  "pair_scaler lo hi = \<lparr>
     sc_Roles = [\<lparr>sb_Name = ''a'', sb_MinReplicas = 1, sb_MaxReplicas = 4\<rparr>,
                 \<lparr>sb_Name = ''b'', sb_MinReplicas = 2, sb_MaxReplicas = 3\<rparr>],
     sc_Ratios = [\<lparr>rr_NumeratorRole = ''a'', rr_DenominatorRole = ''b'', rr_Target = None, rr_Min = lo, rr_Max = hi\<rparr>]\<rparr>"

lemma pair_scaler_valid:
  "validateModelDeploymentScalerRoles (pair_scaler (Some \<lparr>dec_Unscaled = 20, dec_Scale = 1\<rparr>) None) = []"
  "validateModelDeploymentScalerRatios (pair_scaler (Some \<lparr>dec_Unscaled = 20, dec_Scale = 1\<rparr>) None) = []"
  "validateModelDeploymentScalerRoles (pair_scaler (Some \<lparr>dec_Unscaled = 30, dec_Scale = 1\<rparr>) None) = []"
  "validateModelDeploymentScalerRatios (pair_scaler (Some \<lparr>dec_Unscaled = 30, dec_Scale = 1\<rparr>) None) = []"
  by code_simp+

lemma pair_scaler_tame:
  "ratios_tame (pair_scaler (Some \<lparr>dec_Unscaled = 20, dec_Scale = 1\<rparr>) None)"
  "ratios_tame (pair_scaler (Some \<lparr>dec_Unscaled = 30, dec_Scale = 1\<rparr>) None)"
  by (simp_all add: ratios_tame_def pair_scaler_def band_of_def tame_band_def tame_def modelDeploymentScalerRatioValue_def)

lemma pair_scaler_accepts:
  "validateModelDeploymentScalerRatioFeasibility (pair_scaler (Some \<lparr>dec_Unscaled = 20, dec_Scale = 1\<rparr>) None) = Some []"
  "map_option (list_all decided) (modelDeploymentScalerComponents (pair_scaler (Some \<lparr>dec_Unscaled = 20, dec_Scale = 1\<rparr>) None))
     = Some True"
  by code_simp+

lemma pair_scaler_refuses:
  "validateModelDeploymentScalerRatioFeasibility (pair_scaler (Some \<lparr>dec_Unscaled = 30, dec_Scale = 1\<rparr>) None)
     = Some [NoFeasibleVector [''a'', ''b'']]"
  by code_simp

text \<open>With a lower bound of two the scaler has counts; with a lower bound of three it has none.\<close>

theorem feasibility_check_exact_witness:
  "(\<exists>v. counts_satisfy (pair_scaler (Some \<lparr>dec_Unscaled = 20, dec_Scale = 1\<rparr>) None) v)
   \<and> (\<nexists>v. counts_satisfy (pair_scaler (Some \<lparr>dec_Unscaled = 30, dec_Scale = 1\<rparr>) None) v)"
  using feasibility_check_exact [OF pair_scaler_valid(1,2) pair_scaler_tame(1)]
    feasibility_check_exact [OF pair_scaler_valid(3,4) pair_scaler_tame(2)]
    pair_scaler_accepts pair_scaler_refuses
  by (auto simp: list_all_iff)


end
