(* ===== verification/Float64.thy ===== *)
theory Float64
  imports Prelude Complex_Main "HOL-Library.Log_Nat"
begin

text \<open>
  Go's \<open>float64\<close>: a finite number is a rational, and every operation rounds its exact result to the
  nearest number of 53 significant bits, ties to even, with gradual underflow and overflow to
  infinity. Positive and negative zero are one value; no code modelled on top of this theory
  divides by a zero or reads the sign of one. A product and a sum are rounded one after the other; the
  language also allows an implementation to fuse them, which this theory does not model. The main facts are that rounding is monotone and keeps
  integers below \<open>2^53\<close>.
\<close>

section \<open>Rounding\<close>

text \<open>The exponent of the largest power of two below a positive rational.\<close>

definition binade :: "rat \<Rightarrow> int" where
  "binade x = (let (n, d) = quotient_of x; k = bitlen n - bitlen d
               in if 2 powi k \<le> x then k else k - 1)"

definition unit_of :: "rat \<Rightarrow> rat" where
  "unit_of x = 2 powi (max (binade x) (-1022) - 52)"

definition round_even :: "rat \<Rightarrow> int" where
  "round_even x =
     (let f = \<lfloor>x\<rfloor>; r = x - of_int f
      in if r < 1 / 2 then f else if r > 1 / 2 then f + 1 else if even f then f else f + 1)"

definition round_pos :: "rat \<Rightarrow> rat" where
  "round_pos x = of_int (round_even (x / unit_of x)) * unit_of x"

datatype f64 = NaN | NegInf | PosInf | Fin rat

definition round_signed :: "rat \<Rightarrow> rat" where
  "round_signed x = (if 0 < x then round_pos x else if x < 0 then - round_pos (- x) else 0)"

definition round64 :: "rat \<Rightarrow> f64" where
  "round64 x =
     (let y = round_signed x
      in if 2 powi 1024 \<le> y then PosInf else if y \<le> - (2 powi 1024) then NegInf else Fin y)"

section \<open>Operations\<close>

fun f_neg :: "f64 \<Rightarrow> f64" where
  "f_neg NaN = NaN"
| "f_neg NegInf = PosInf"
| "f_neg PosInf = NegInf"
| "f_neg (Fin x) = Fin (- x)"

fun f_add :: "f64 \<Rightarrow> f64 \<Rightarrow> f64" where
  "f_add (Fin x) (Fin y) = round64 (x + y)"
| "f_add NaN b = NaN"
| "f_add a NaN = NaN"
| "f_add PosInf NegInf = NaN"
| "f_add NegInf PosInf = NaN"
| "f_add PosInf b = PosInf"
| "f_add NegInf b = NegInf"
| "f_add (Fin x) b = b"

definition f_sub :: "f64 \<Rightarrow> f64 \<Rightarrow> f64" where
  "f_sub a b = f_add a (f_neg b)"

definition f_inf :: "rat \<Rightarrow> f64" where
  "f_inf s = (if s > 0 then PosInf else if s < 0 then NegInf else NaN)"

fun f_mul :: "f64 \<Rightarrow> f64 \<Rightarrow> f64" where
  "f_mul (Fin x) (Fin y) = round64 (x * y)"
| "f_mul NaN b = NaN"
| "f_mul a NaN = NaN"
| "f_mul PosInf PosInf = PosInf"
| "f_mul PosInf NegInf = NegInf"
| "f_mul NegInf PosInf = NegInf"
| "f_mul NegInf NegInf = PosInf"
| "f_mul PosInf (Fin y) = f_inf y"
| "f_mul NegInf (Fin y) = f_inf (- y)"
| "f_mul (Fin x) PosInf = f_inf x"
| "f_mul (Fin x) NegInf = f_inf (- x)"

fun f_div :: "f64 \<Rightarrow> f64 \<Rightarrow> f64" where
  "f_div (Fin x) (Fin y) = (if y = 0 then f_inf x else round64 (x / y))"
| "f_div NaN b = NaN"
| "f_div a NaN = NaN"
| "f_div PosInf (Fin y) = (if y < 0 then NegInf else PosInf)"
| "f_div NegInf (Fin y) = (if y < 0 then PosInf else NegInf)"
| "f_div (Fin x) b = Fin 0"
| "f_div a b = NaN"

fun f_less :: "f64 \<Rightarrow> f64 \<Rightarrow> bool" where
  "f_less (Fin x) (Fin y) = (x < y)"
| "f_less NegInf (Fin y) = True"
| "f_less NegInf PosInf = True"
| "f_less (Fin x) PosInf = True"
| "f_less a b = False"

definition f_eq :: "f64 \<Rightarrow> f64 \<Rightarrow> bool" where
  "f_eq a b = (a \<noteq> NaN \<and> a = b)"

definition f_le :: "f64 \<Rightarrow> f64 \<Rightarrow> bool" where
  "f_le a b = (f_less a b \<or> f_eq a b)"

fun f_abs :: "f64 \<Rightarrow> f64" where
  "f_abs NaN = NaN"
| "f_abs (Fin x) = Fin \<bar>x\<bar>"
| "f_abs b = PosInf"

fun f_ceil :: "f64 \<Rightarrow> f64" where
  "f_ceil (Fin x) = Fin (of_int \<lceil>x\<rceil>)"
| "f_ceil b = b"

fun f_floor :: "f64 \<Rightarrow> f64" where
  "f_floor (Fin x) = Fin (of_int \<lfloor>x\<rfloor>)"
| "f_floor b = b"

text \<open>\<open>math.Max\<close>: an infinite argument decides before one that is no number.\<close>

definition f_max :: "f64 \<Rightarrow> f64 \<Rightarrow> f64" where
  "f_max a b = (if a = PosInf \<or> b = PosInf then PosInf else if a = NaN \<or> b = NaN then NaN
                else if f_less b a then a else b)"

definition f_of_int :: "int \<Rightarrow> f64" where
  "f_of_int n = round64 (of_int n)"

definition is_finite :: "f64 \<Rightarrow> bool" where
  "is_finite a = (case a of Fin x \<Rightarrow> True | _ \<Rightarrow> False)"

definition trunc :: "rat \<Rightarrow> int" where
  "trunc x = (if 0 \<le> x then \<lfloor>x\<rfloor> else \<lceil>x\<rceil>)"

text \<open>
  A conversion to an integer type of \<open>w\<close> bits drops the fraction. A value the type cannot hold gives a
  result that the language leaves to the implementation, the argument \<open>wild\<close>.
\<close>

definition int_of :: "nat \<Rightarrow> (f64 \<Rightarrow> int) \<Rightarrow> f64 \<Rightarrow> int" where
  "int_of w wild a =
     (case a of
        Fin x \<Rightarrow> if - (2 ^ (w - 1)) \<le> trunc x \<and> trunc x < 2 ^ (w - 1) then trunc x else wild a
      | _ \<Rightarrow> wild a)"

section \<open>Rounding is monotone\<close>

lemma binade_bounds:
  assumes "0 < x"
  shows "2 powi binade x \<le> x" "x < 2 powi (binade x + 1)"
proof -
  obtain n d where nd: "quotient_of x = (n, d)" by (cases "quotient_of x")
  have d: "0 < d" using quotient_of_denom_pos [OF nd] .
  have x: "x = of_int n / of_int d" using quotient_of_div [OF nd] .
  have n: "0 < n" using assms d unfolding x by (simp add: zero_less_divide_iff)
  define a b where "a = bitlen n" and "b = bitlen d"
  have "0 < bitlen k" if "0 < k" for k
    using bitlen_bounds [OF that] that bitlen_nonneg [of k] by (cases "bitlen k = 0") auto
  then have ab: "0 < a" "0 < b" using n d by (simp_all add: a_def b_def)
  have nb: "(2 :: rat) powi (a - 1) \<le> of_int n \<and> of_int n < (2 :: rat) powi a"
  proof -
    have "2 ^ nat (a - 1) \<le> n" "n < 2 ^ nat a" using bitlen_bounds [OF n] by (simp_all add: a_def)
    then have "of_int (2 ^ nat (a - 1)) \<le> (of_int n :: rat)" "(of_int n :: rat) < of_int (2 ^ nat a)"
      by (simp_all only: of_int_le_iff of_int_less_iff)
    then show ?thesis using ab by (simp add: power_int_def)
  qed
  have db: "(2 :: rat) powi (b - 1) \<le> of_int d \<and> of_int d < (2 :: rat) powi b"
  proof -
    have "2 ^ nat (b - 1) \<le> d" "d < 2 ^ nat b" using bitlen_bounds [OF d] by (simp_all add: b_def)
    then have "of_int (2 ^ nat (b - 1)) \<le> (of_int d :: rat)" "(of_int d :: rat) < of_int (2 ^ nat b)"
      by (simp_all only: of_int_le_iff of_int_less_iff)
    then show ?thesis using ab by (simp add: power_int_def)
  qed
  have up: "x < 2 powi (a - b + 1)"
  proof -
    have "x < 2 powi a / 2 powi (b - 1)"
      unfolding x using nb db n d by (intro frac_less) auto
    also have "\<dots> = 2 powi (a - (b - 1))" by (rule power_int_diff [symmetric]) simp
    also have "a - (b - 1) = a - b + 1" by simp
    finally show ?thesis .
  qed
  have lo: "2 powi (a - b - 1) \<le> x"
  proof -
    have "2 powi (a - b - 1) = (2 :: rat) powi ((a - 1) - b)" by (simp add: algebra_simps)
    also have "\<dots> = (2 :: rat) powi (a - 1) / 2 powi b" by (rule power_int_diff) simp
    also have "\<dots> \<le> x" unfolding x using nb db n d by (intro frac_le) auto
    finally show ?thesis .
  qed
  show "2 powi binade x \<le> x" "x < 2 powi (binade x + 1)"
    using up lo by (simp_all add: binade_def nd a_def [symmetric] b_def [symmetric] Let_def not_le algebra_simps)
qed

lemma powi_mono: "a \<le> b \<Longrightarrow> (2 :: rat) powi a \<le> 2 powi b"
  by (simp add: power_int_increasing)

lemma powi_less_imp: "(2 :: rat) powi a < 2 powi b \<Longrightarrow> a < b"
  using powi_mono by (metis leD leI)

lemma powi_int: "0 \<le> k \<Longrightarrow> (2 :: rat) powi k = of_int (2 ^ nat k)"
  by (simp add: power_int_def)

lemma unit_pos: "0 < unit_of x"
  by (simp add: unit_of_def)

lemma binade_mono: "0 < x \<Longrightarrow> x \<le> y \<Longrightarrow> binade x \<le> binade y"
  using binade_bounds(1) [of x] binade_bounds(2) [of y] powi_less_imp [of "binade x" "binade y + 1"] by simp

lemma round_even_int: "round_even (of_int k) = k"
  by (simp add: round_even_def)

lemma round_even_close: "\<bar>of_int (round_even x) - x\<bar> \<le> 1 / 2"
  using of_int_floor_le [of x] floor_correct [of x] by (auto simp: round_even_def Let_def abs_le_iff)

lemma round_even_mono:
  assumes "x \<le> y"
  shows "round_even x \<le> round_even y"
proof (cases "\<lfloor>x\<rfloor> = \<lfloor>y\<rfloor>")
  case True
  then show ?thesis using assms by (auto simp: round_even_def Let_def)
next
  case False
  then have "\<lfloor>x\<rfloor> + 1 \<le> \<lfloor>y\<rfloor>" using floor_mono [OF assms] by simp
  moreover have "round_even x \<le> \<lfloor>x\<rfloor> + 1" "\<lfloor>y\<rfloor> \<le> round_even y" by (auto simp: round_even_def Let_def)
  ultimately show ?thesis by linarith
qed

text \<open>Rounding does not cross a multiple of the unit.\<close>

lemma round_pos_upper: "x \<le> of_int k * unit_of x \<Longrightarrow> round_pos x \<le> of_int k * unit_of x"
  using round_even_mono [of "x / unit_of x" "of_int k"] unit_pos [of x]
  by (simp add: round_pos_def round_even_int pos_divide_le_eq)

lemma round_pos_lower: "of_int k * unit_of x \<le> x \<Longrightarrow> of_int k * unit_of x \<le> round_pos x"
  using round_even_mono [of "of_int k" "x / unit_of x"] unit_pos [of x]
  by (simp add: round_pos_def round_even_int pos_le_divide_eq)

text \<open>A power of two is a multiple of every unit that is not larger.\<close>

lemma powi_multiple:
  assumes "b \<le> a"
  shows "\<exists>k. (2 :: rat) powi a = of_int k * 2 powi b"
proof -
  have "(2 :: rat) powi a = 2 powi (a - b) * 2 powi b" by (simp flip: power_int_add)
  also have "(2 :: rat) powi (a - b) = of_int (2 ^ nat (a - b))" using assms by (simp add: powi_int)
  finally show ?thesis by (rule exI)
qed

lemma round_pos_mono:
  assumes "0 < x" "x \<le> y"
  shows "round_pos x \<le> round_pos y"
proof (cases "unit_of x = unit_of y")
  case True
  have "round_even (x / unit_of y) \<le> round_even (y / unit_of y)"
    using assms(2) unit_pos [of y] by (intro round_even_mono divide_right_mono) auto
  then show ?thesis using unit_pos [of y] by (simp add: round_pos_def True)
next
  case False
  have b: "binade x \<le> binade y" using assms by (rule binade_mono)
  have "max (binade x) (-1022) \<noteq> max (binade y) (-1022)" using False by (metis unit_of_def)
  then have lt: "max (binade x) (-1022) < max (binade y) (-1022)" using b by linarith
  obtain k where k: "(2 :: rat) powi binade y = of_int k * unit_of x"
    unfolding unit_of_def using powi_multiple [of "max (binade x) (-1022) - 52" "binade y"] lt by fastforce
  obtain l where l: "(2 :: rat) powi binade y = of_int l * unit_of y"
    unfolding unit_of_def using powi_multiple [of "max (binade y) (-1022) - 52" "binade y"] lt by fastforce
  have "x \<le> 2 powi (binade x + 1)" using binade_bounds(2) [OF assms(1)] by simp
  also have "\<dots> \<le> 2 powi binade y" using lt by (intro powi_mono) auto
  finally have "round_pos x \<le> 2 powi binade y" unfolding k by (rule round_pos_upper)
  also have "\<dots> \<le> round_pos y"
    using binade_bounds(1) [of y] assms unfolding l by (intro round_pos_lower) auto
  finally show ?thesis .
qed

lemma round_pos_nonneg: "0 < x \<Longrightarrow> 0 \<le> round_pos x"
  using round_pos_lower [of 0 x] by simp

lemma round_signed_mono:
  assumes "x \<le> y"
  shows "round_signed x \<le> round_signed y"
proof -
  consider "0 < x" | "x \<le> 0" "0 \<le> y" | "y < 0" by linarith
  then show ?thesis
  proof cases
    case 1
    then show ?thesis using assms round_pos_mono by (simp add: round_signed_def)
  next
    case 2
    have "round_signed x \<le> 0" using 2 round_pos_nonneg [of "- x"] by (simp add: round_signed_def)
    moreover have "0 \<le> round_signed y" using 2 round_pos_nonneg [of y] by (simp add: round_signed_def)
    ultimately show ?thesis by linarith
  next
    case 3
    then show ?thesis using assms round_pos_mono [of "- y" "- x"] by (simp add: round_signed_def)
  qed
qed

lemma round64_mono: "x \<le> y \<Longrightarrow> f_le (round64 x) (round64 y)"
  using round_signed_mono [of x y] by (auto simp: round64_def Let_def f_le_def f_eq_def)

section \<open>Integers are kept\<close>

lemma integer_multiple:
  assumes "0 < x" "x < 2 ^ 53"
  obtains m where "of_int k = of_int m * unit_of x"
proof -
  have "(2 :: rat) powi binade x < 2 powi 53" using binade_bounds(1) [OF assms(1)] assms(2) by (simp add: power_int_def)
  then have b: "binade x < 53" by (rule powi_less_imp)
  obtain l where l: "(2 :: rat) powi 0 = of_int l * unit_of x"
    unfolding unit_of_def using powi_multiple [of "max (binade x) (-1022) - 52" 0] b by fastforce
  have "(of_int k :: rat) = of_int (k * l) * unit_of x" using l by (simp add: mult.assoc)
  then show thesis by (rule that)
qed

lemma round_pos_below: "0 < x \<Longrightarrow> x < 2 ^ 53 \<Longrightarrow> x \<le> of_int k \<Longrightarrow> round_pos x \<le> of_int k"
  by (metis integer_multiple round_pos_upper)

lemma round_pos_above: "0 < x \<Longrightarrow> x < 2 ^ 53 \<Longrightarrow> of_int k \<le> x \<Longrightarrow> of_int k \<le> round_pos x"
  by (metis integer_multiple round_pos_lower)

lemma round_signed_int:
  assumes "\<bar>n\<bar> < 2 ^ 53"
  shows "round_signed (of_int n) = of_int n"
proof -
  have pos: "round_pos (of_int m) = of_int m" if "0 < m" "m < 2 ^ 53" for m :: int
  proof -
    have "(of_int m :: rat) < of_int (2 ^ 53)" using that(2) by (simp only: of_int_less_iff)
    then show ?thesis using that(1) round_pos_below [of "of_int m" m] round_pos_above [of "of_int m" m] by simp
  qed
  show ?thesis using pos [of n] pos [of "- n"] assms by (auto simp: round_signed_def)
qed

lemma round64_int: "\<bar>n\<bar> < 2 ^ 53 \<Longrightarrow> round64 (of_int n) = Fin (of_int n)"
proof -
  assume n: "\<bar>n\<bar> < 2 ^ 53"
  have "(2 :: int) ^ 53 < 2 ^ 1024" by (rule power_strict_increasing) auto
  then have "n < 2 ^ 1024" "- n < 2 ^ 1024" using n by linarith+
  then have "(of_int n :: rat) < of_int (2 ^ 1024)" "(of_int (- n) :: rat) < of_int (2 ^ 1024)"
    by (simp_all only: of_int_less_iff)
  then show ?thesis by (simp add: round64_def round_signed_int [OF n] power_int_def)
qed

lemma f_of_int_small: "\<bar>n\<bar> < 2 ^ 53 \<Longrightarrow> f_of_int n = Fin (of_int n)"
  by (simp add: f_of_int_def round64_int)

lemma round64_between:
  assumes "of_int a \<le> x" "x \<le> of_int b" "\<bar>a\<bar> < 2 ^ 53" "\<bar>b\<bar> < 2 ^ 53"
  obtains y where "round64 x = Fin y" "of_int a \<le> y" "y \<le> of_int b"
proof -
  have "f_le (Fin (of_int a)) (round64 x)" "f_le (round64 x) (Fin (of_int b))"
    using round64_mono [OF assms(1)] round64_mono [OF assms(2)] round64_int [OF assms(3)] round64_int [OF assms(4)] by simp_all
  then show thesis using that by (cases "round64 x") (auto simp: f_le_def f_eq_def)
qed

lemma int_of_small: "w \<noteq> 0 \<Longrightarrow> - (2 ^ (w - 1)) \<le> n \<Longrightarrow> n < 2 ^ (w - 1) \<Longrightarrow> int_of w wild (Fin (of_int n)) = n"
  by (simp add: int_of_def trunc_def)

end
