(* ===== verification/Scaler_Constraints.thy ===== *)
theory Scaler_Constraints
  imports Ratio_Feasibility Float64
begin

text \<open>
  The constraint solver of the scaler, \<open>pkg/worker/controllers/worker/model_deployment_scaler_constraints.go\<close>.
  It takes the replica counts an algorithm recommends and returns the counts to commit: each role is
  held inside an interval of bounds, steps and guards, and roles that ratios couple move together to the
  closest vector that keeps every ratio, or not at all.

  A time is its distance in nanoseconds from the zero time. The float of a quantity, \<open>approx\<close>, and the
  result \<open>wild\<close> of a float conversion out of range are arguments, as is the reading of the clock. A map
  that a callee changes is returned; \<open>projectComponent\<close> receives the result struct by value, so only
  the maps it writes to are.
\<close>

section \<open>State\<close>

type_synonym gotime = int

record StabilizationSample =
  ss_Timestamp :: gotime
  ss_Replicas :: int

record StepPolicy =
  sp_Type :: string
  sp_Value :: int

record ScaleUpRules =
  su_StabilizationWindowSeconds :: int
  su_MaxStepReplicas :: int
  su_MaxStepPercent :: int
  su_StepPolicy :: "StepPolicy option"

record ScaleDownRules =
  sd_StabilizationWindowSeconds :: int
  sd_DecodePostScaleUpGraceSeconds :: int
  sd_StepPolicy :: "StepPolicy option"

record ScalerRoleState =
  rs_Name :: string
  rs_Kind :: string
  rs_CurrentReplicas :: int
  rs_RawRecommendedReplicas :: int
  rs_HoldScaleDown :: bool
  rs_CompleteCoverage :: bool
  rs_HasPendingUnadmittedWorkload :: bool
  rs_LastScaleUpTime :: gotime
  rs_StabilizationHistory :: "StabilizationSample list"

record ConstraintInput =
  ci_Rules :: ScalerRules
  ci_ScaleUp :: ScaleUpRules
  ci_ScaleDown :: ScaleDownRules
  ci_Roles :: "ScalerRoleState list"
  ci_HasActiveRetirement :: bool
  ci_InAbortCooldown :: bool
  ci_CooldownUntil :: gotime
  ci_Now :: gotime

record ReplicaInterval =
  ri_Floor :: int
  ri_Ceil :: int

record ConstraintResult =
  cr_Replicas :: "(string, int) gomap"
  cr_Reasons :: "(string, string) gomap"
  cr_Intervals :: "(string, ReplicaInterval) gomap"
  cr_StabilizationHistory :: "(string, StabilizationSample list) gomap"
  cr_BlockingReason :: string

definition zero_state :: ScalerRoleState where
  "zero_state = \<lparr>rs_Name = '''', rs_Kind = '''', rs_CurrentReplicas = 0, rs_RawRecommendedReplicas = 0,
     rs_HoldScaleDown = False, rs_CompleteCoverage = False, rs_HasPendingUnadmittedWorkload = False,
     rs_LastScaleUpTime = 0, rs_StabilizationHistory = []\<rparr>"

definition zero_interval :: ReplicaInterval where
  "zero_interval = \<lparr>ri_Floor = 0, ri_Ceil = 0\<rparr>"

definition reasonBoundsConflict :: string where "reasonBoundsConflict = ''BoundsConflict''"
definition reasonRatioConflict :: string where "reasonRatioConflict = ''RatioConflict''"
definition reasonPacingBounded :: string where "reasonPacingBounded = ''PacingBounded''"

section \<open>Numbers\<close>

definition maxInt32 :: "int \<Rightarrow> int \<Rightarrow> int" where "maxInt32 a b = (if a > b then a else b)"
definition minInt32 :: "int \<Rightarrow> int \<Rightarrow> int" where "minInt32 a b = (if a < b then a else b)"

definition clamp :: "int \<Rightarrow> int \<Rightarrow> int \<Rightarrow> int" where
  "clamp v low high = (if v < low then low else if v > high then high else v)"

definition second :: int where "second = 1000000000"

definition modelDeploymentScalerDefaultScaleDownWindow :: int where
  "modelDeploymentScalerDefaultScaleDownWindow = 300 * second"

definition modelDeploymentScalerDefaultDecodeGrace :: int where
  "modelDeploymentScalerDefaultDecodeGrace = 120 * second"

definition modelDeploymentScalerRatioEpsilon :: f64 where
  "modelDeploymentScalerRatioEpsilon = round64 (1 / 10 ^ 9)"

definition modelDeploymentScalerConstraintSearchBudget :: int where
  "modelDeploymentScalerConstraintSearchBudget = 16384"

definition modelDeploymentScalerMaxStabilizationSamples :: nat where
  "modelDeploymentScalerMaxStabilizationSamples = 256"

text \<open>\<open>Time.Sub\<close> saturates.\<close>

definition time_sub :: "gotime \<Rightarrow> gotime \<Rightarrow> int" where
  "time_sub t u = max (- 9223372036854775808) (min 9223372036854775807 (t - u))"

definition quantityFloat :: "(Dec \<Rightarrow> f64) \<Rightarrow> Dec option \<Rightarrow> f64" where
  "quantityFloat approx quantity = (case quantity of None \<Rightarrow> Fin 0 | Some q \<Rightarrow> approx q)"

definition ratioMaxFloat :: "(Dec \<Rightarrow> f64) \<Rightarrow> Dec option \<Rightarrow> f64" where
  "ratioMaxFloat approx quantity = (case quantity of None \<Rightarrow> PosInf | Some q \<Rightarrow> quantityFloat approx (Some q))"

section \<open>The history of recommendations\<close>

definition largestStabilizationWindow :: "ScaleUpRules \<Rightarrow> ScaleDownRules \<Rightarrow> int" where
  "largestStabilizationWindow up down =
     (let upWindow = su_StabilizationWindowSeconds up * second;
          downWindow = sd_StabilizationWindowSeconds down * second;
          downWindow = (if downWindow \<le> 0 then modelDeploymentScalerDefaultScaleDownWindow else downWindow)
      in if upWindow > downWindow then upWindow else downWindow)"

text \<open>The loop of the pruning: the last sample not after the cutoff, and the samples inside the window.\<close>

fun prune_loop :: "gotime \<Rightarrow> gotime \<Rightarrow> StabilizationSample list \<Rightarrow> StabilizationSample option
    \<Rightarrow> StabilizationSample list \<Rightarrow> StabilizationSample option \<times> StabilizationSample list" where
  "prune_loop cutoff now [] anchor pruned = (anchor, pruned)"
| "prune_loop cutoff now (sample # rest) anchor pruned =
     (if \<not> ss_Timestamp sample > cutoff then prune_loop cutoff now rest (Some sample) pruned
      else if \<not> ss_Timestamp sample > now then prune_loop cutoff now rest anchor (pruned @ [sample])
      else prune_loop cutoff now rest anchor pruned)"

definition pruneStabilizationHistory :: "StabilizationSample list \<Rightarrow> gotime \<Rightarrow> int \<Rightarrow> StabilizationSample list" where
  "pruneStabilizationHistory history now window =
     (if history = [] then []
      else let history =
          (if 0 < window \<and> now \<noteq> 0
           then case prune_loop (now - window) now history None [] of
                  (Some anchor, pruned) \<Rightarrow> anchor # pruned
                | (None, pruned) \<Rightarrow> pruned
           else history)
        in if length history > modelDeploymentScalerMaxStabilizationSamples
           then hd history # drop (length history - (modelDeploymentScalerMaxStabilizationSamples - 1)) history
           else history)"

fun rolling_loop :: "gotime \<Rightarrow> gotime \<Rightarrow> StabilizationSample list \<Rightarrow> int option \<Rightarrow> int option" where
  "rolling_loop cutoff now [] maximum = maximum"
| "rolling_loop cutoff now (sample # rest) maximum =
     (if ss_Timestamp sample < cutoff \<or> ss_Timestamp sample > now then rolling_loop cutoff now rest maximum
      else case maximum of
          None \<Rightarrow> rolling_loop cutoff now rest (Some (ss_Replicas sample))
        | Some m \<Rightarrow> rolling_loop cutoff now rest (Some (if ss_Replicas sample > m then ss_Replicas sample else m)))"

definition rollingMaximum :: "StabilizationSample list \<Rightarrow> gotime \<Rightarrow> int \<Rightarrow> int option" where
  "rollingMaximum history now window = rolling_loop (now - window) now history None"

definition historySpans :: "StabilizationSample list \<Rightarrow> gotime \<Rightarrow> int \<Rightarrow> bool" where
  "historySpans history now window =
     (if window \<le> 0 then True
      else let cutoff = now - window in
        list_ex (\<lambda>sample. \<not> ss_Timestamp sample > cutoff) history
        \<and> list_ex (\<lambda>sample. \<not> ss_Timestamp sample < cutoff \<and> \<not> ss_Timestamp sample > now) history)"

section \<open>The interval of a role\<close>

definition percent_of :: "(f64 \<Rightarrow> int) \<Rightarrow> int \<Rightarrow> int \<Rightarrow> int" where
  "percent_of wild current percent =
     int_of 32 wild (f_ceil (f_div (f_mul (f_of_int current) (f_of_int percent)) (Fin 100)))"

definition stepAmount :: "(f64 \<Rightarrow> int) \<Rightarrow> int \<Rightarrow> StepPolicy \<Rightarrow> int" where
  "stepAmount wild current policy =
     (if sp_Value policy \<le> 0 then 0
      else if sp_Type policy = ''Percent'' then percent_of wild current (sp_Value policy)
      else sp_Value policy)"

definition step_ceiling :: "(f64 \<Rightarrow> int) \<Rightarrow> ScaleUpRules \<Rightarrow> int \<Rightarrow> int" where
  "step_ceiling wild up current =
     (case su_StepPolicy up of
        Some policy \<Rightarrow> wrap32 (current + stepAmount wild current policy)
      | None \<Rightarrow>
          let (pods, percent) = (if su_MaxStepReplicas up = 0 \<and> su_MaxStepPercent up = 0 then (4, 100)
                                 else (su_MaxStepReplicas up, su_MaxStepPercent up));
              ceil = current;
              ceil = (if 0 < pods then maxInt32 ceil (wrap32 (current + pods)) else ceil)
          in if 0 < percent then maxInt32 ceil (wrap32 (current + percent_of wild current percent)) else ceil)"

definition scale_down_guard :: "ConstraintInput \<Rightarrow> ScalerRoleState \<Rightarrow> bool" where
  "scale_down_guard input role =
     (let inCooldown = ci_InAbortCooldown input
            \<or> (ci_CooldownUntil input \<noteq> 0 \<and> ci_Now input < ci_CooldownUntil input)
      in rs_HoldScaleDown role \<or> \<not> rs_CompleteCoverage role \<or> ci_HasActiveRetirement input \<or> inCooldown)"

definition decode_grace :: "ConstraintInput \<Rightarrow> ScalerRoleState \<Rightarrow> bool" where
  "decode_grace input role =
     (let grace = sd_DecodePostScaleUpGraceSeconds (ci_ScaleDown input) * second;
          grace = (if grace \<le> 0 then modelDeploymentScalerDefaultDecodeGrace else grace)
      in rs_Kind role = ''Decode'' \<and> rs_LastScaleUpTime role \<noteq> 0
         \<and> time_sub (ci_Now input) (rs_LastScaleUpTime role) < grace)"

definition roleInterval :: "(f64 \<Rightarrow> int) \<Rightarrow> ConstraintInput \<Rightarrow> ScalerRoleState \<Rightarrow> ScalerRoleBounds
    \<Rightarrow> StabilizationSample list \<Rightarrow> int \<times> int" where
  "roleInterval wild input role bound history =
     (let minimum = (if sb_MinReplicas bound \<le> 0 then 1 else sb_MinReplicas bound);
          maximum = sb_MaxReplicas bound
      in if maximum < minimum then (minimum, maximum)
         else let current = clamp (rs_CurrentReplicas role) minimum maximum;
            up = ci_ScaleUp input;
            ceil = step_ceiling wild up current;
            ceil = clamp ceil current maximum;
            ceil = (if rs_HasPendingUnadmittedWorkload role then minInt32 ceil current else ceil);
            upWindow = su_StabilizationWindowSeconds up * second;
            ceil = (if 0 < su_StabilizationWindowSeconds up \<and> rs_RawRecommendedReplicas role > current
                       \<and> \<not> historySpans history (ci_Now input) upWindow
                    then minInt32 ceil current else ceil);
            down = ci_ScaleDown input;
            floor = (case sd_StepPolicy down of
                       None \<Rightarrow> wrap32 (current - 1)
                     | Some policy \<Rightarrow> wrap32 (current - stepAmount wild current policy));
            floor = maxInt32 floor minimum;
            window = sd_StabilizationWindowSeconds down * second;
            window = (if window \<le> 0 then modelDeploymentScalerDefaultScaleDownWindow else window);
            floor = (if \<not> historySpans history (ci_Now input) window then maxInt32 floor current
                     else case rollingMaximum history (ci_Now input) window of
                         None \<Rightarrow> floor
                       | Some maxRecommendation \<Rightarrow>
                           if maxRecommendation \<ge> current then maxInt32 floor current
                           else maxInt32 floor (minInt32 current maxRecommendation));
            floor = (if scale_down_guard input role then maxInt32 floor current else floor);
            floor = (if decode_grace input role then maxInt32 floor current else floor)
          in (clamp floor minimum maximum, clamp ceil minimum maximum))"

section \<open>Ratios\<close>

definition ratioGraph :: "ScalerRoleRatio list \<Rightarrow> (string, string list) gomap" where
  "ratioGraph ratios =
     fold (\<lambda>ratio graph.
         let graph = map_put (rr_NumeratorRole ratio)
               (map_get graph (rr_NumeratorRole ratio) [] @ [rr_DenominatorRole ratio]) graph
         in map_put (rr_DenominatorRole ratio)
               (map_get graph (rr_DenominatorRole ratio) [] @ [rr_NumeratorRole ratio]) graph)
       ratios []"

text \<open>
  The loop of \<open>connectedComponent\<close> over the neighbours of a role, each visited in depth when it has not
  been seen. The set \<open>seen\<close> holds the names mapped to true.
\<close>

partial_function (option) visit_unseen :: "(string, string list) gomap \<Rightarrow> string list \<Rightarrow> string set
    \<Rightarrow> (string list \<times> string set) option" where
  "visit_unseen graph names seen =
     (case names of
        [] \<Rightarrow> Some ([], seen)
      | next # rest \<Rightarrow>
          if next \<in> seen then visit_unseen graph rest seen
          else Option.bind (visit_unseen graph (map_get graph next []) (insert next seen)) (\<lambda>(below, seen).
            Option.bind (visit_unseen graph rest seen) (\<lambda>(others, seen). Some ((next # below) @ others, seen))))"

declare visit_unseen.simps [code]

definition connectedComponent :: "string \<Rightarrow> (string, string list) gomap \<Rightarrow> string set
    \<Rightarrow> (string list \<times> string set) option" where
  "connectedComponent start graph seen =
     map_option (\<lambda>(names, seen). (start # names, seen))
       (visit_unseen graph (map_get graph start []) (insert start seen))"

definition ratioLower :: "(f64 \<Rightarrow> int) \<Rightarrow> int \<Rightarrow> f64 \<Rightarrow> bool \<Rightarrow> int" where
  "ratioLower wild known ratio numerator =
     (if numerator then int_of 32 wild (f_ceil (f_sub (f_mul ratio (f_of_int known)) modelDeploymentScalerRatioEpsilon))
      else if f_le ratio (Fin 0) \<or> ratio = PosInf then 1
      else int_of 32 wild (f_ceil (f_sub (f_div (f_of_int known) ratio) modelDeploymentScalerRatioEpsilon)))"

definition ratioUpper :: "(f64 \<Rightarrow> int) \<Rightarrow> int \<Rightarrow> f64 \<Rightarrow> bool \<Rightarrow> int" where
  "ratioUpper wild known ratio numerator =
     (if numerator then
        if ratio = PosInf then 2147483647
        else int_of 32 wild (f_floor (f_add (f_mul ratio (f_of_int known)) modelDeploymentScalerRatioEpsilon))
      else if f_le ratio (Fin 0) then 2147483647
      else int_of 32 wild (f_floor (f_add (f_div (f_of_int known) ratio) modelDeploymentScalerRatioEpsilon)))"

definition ratio_kept :: "(Dec \<Rightarrow> f64) \<Rightarrow> (string, int) gomap \<Rightarrow> ScalerRoleRatio \<Rightarrow> bool" where
  "ratio_kept approx values ratio =
     (let denominator = map_get values (rr_DenominatorRole ratio) 0
      in if denominator \<le> 0 then False
         else let v = f_div (f_of_int (map_get values (rr_NumeratorRole ratio) 0)) (f_of_int denominator);
            minimum = quantityFloat approx (rr_Min ratio);
            maximum = ratioMaxFloat approx (rr_Max ratio)
          in \<not> (f_less v (f_sub minimum modelDeploymentScalerRatioEpsilon)
                \<or> f_less (f_add maximum modelDeploymentScalerRatioEpsilon) v))"

definition ratiosSatisfied :: "(Dec \<Rightarrow> f64) \<Rightarrow> (string, int) gomap \<Rightarrow> ScalerRoleRatio list \<Rightarrow> bool" where
  "ratiosSatisfied approx values ratios = list_all (ratio_kept approx values) ratios"

section \<open>The search\<close>

text \<open>The three numbers a vector is scored by: the distance from what is desired, the distance from the
  targets of the ratios, and the sum of the counts.\<close>

type_synonym score = "f64 \<times> f64 \<times> f64"

definition ratio_distance :: "(Dec \<Rightarrow> f64) \<Rightarrow> (string, int) gomap \<Rightarrow> ScalerRoleRatio \<Rightarrow> f64 \<Rightarrow> f64" where
  "ratio_distance approx values ratio acc =
     (let denominator = map_get values (rr_DenominatorRole ratio) 0
      in if denominator > 0
         then let target = quantityFloat approx (rr_Target ratio);
                target = (if f_eq target (Fin 0)
                          then f_div (f_add (quantityFloat approx (rr_Min ratio)) (quantityFloat approx (rr_Max ratio))) (Fin 2)
                          else target)
              in f_add acc (f_abs (f_sub (f_div (f_of_int (map_get values (rr_NumeratorRole ratio) 0)) (f_of_int denominator)) target))
         else acc)"

definition scoreVector :: "(Dec \<Rightarrow> f64) \<Rightarrow> (string, int) gomap \<Rightarrow> (string, int) gomap \<Rightarrow> ScalerRoleRatio list \<Rightarrow> score" where
  "scoreVector approx values desired ratios =
     (fold (\<lambda>(name, v) acc. f_add acc (f_abs (f_of_int (wrap32 (v - map_get desired name 0))))) values (Fin 0),
      fold (ratio_distance approx values) ratios (Fin 0),
      fold (\<lambda>(name, v) acc. f_add acc (f_of_int v)) values (Fin 0))"

definition better :: "score \<Rightarrow> score \<Rightarrow> bool" where
  "better s b =
     (f_less (fst s) (fst b)
      \<or> f_eq (fst s) (fst b) \<and> f_less (fst (snd s)) (fst (snd b))
      \<or> f_eq (fst s) (fst b) \<and> f_eq (fst (snd s)) (fst (snd b)) \<and> f_less (snd (snd b)) (snd (snd s)))"

text \<open>
  The loop of \<open>orderedCandidates\<close>. It stops when \<open>count\<close> candidates are there, which happens within the
  offsets up to the width of the interval (\<open>length_orderedCandidates\<close>).
\<close>

fun add_candidates :: "int \<Rightarrow> int \<Rightarrow> int \<Rightarrow> int \<Rightarrow> int list \<Rightarrow> int list \<Rightarrow> int list" where
  "add_candidates low high center limit candidates [] = candidates"
| "add_candidates low high center limit candidates (offset # offsets) =
     (if \<not> int (length candidates) < limit then candidates
      else let down = wrap32 (center - offset); up = wrap32 (center + offset);
               candidates = (if down \<ge> low then candidates @ [down] else candidates)
        in if down \<ge> low \<and> int (length candidates) = limit then candidates
           else add_candidates low high center limit (if up \<le> high then candidates @ [up] else candidates) offsets)"

definition orderedCandidates :: "int \<Rightarrow> int \<Rightarrow> int \<Rightarrow> int list" where
  "orderedCandidates low high target =
     (if low > high then []
      else let limit = wrap32 (high - low + 1);
               limit = (if limit > modelDeploymentScalerConstraintSearchBudget
                        then modelDeploymentScalerConstraintSearchBudget else limit);
               center = clamp target low high
        in add_candidates low high center limit [center] [1..high - low])"

record SearchState =
  se_best :: "(string, int) gomap option"
  se_bestScore :: score
  se_budget :: int

definition judge_vector :: "(Dec \<Rightarrow> f64) \<Rightarrow> ScalerRoleRatio list \<Rightarrow> (string, int) gomap \<Rightarrow> (string, int) gomap
    \<Rightarrow> SearchState \<Rightarrow> SearchState" where
  "judge_vector approx ratios desired assignment st =
     (let st = st\<lparr>se_budget := se_budget st - 1\<rparr>
      in if \<not> ratiosSatisfied approx assignment ratios then st
         else let s = scoreVector approx assignment desired ratios
           in if better s (se_bestScore st) then st\<lparr>se_best := Some assignment, se_bestScore := s\<rparr> else st)"

text \<open>The first role without a count next to a role that has one, or the empty name.\<close>

fun next_neighbor :: "(string, string list) gomap \<Rightarrow> (string, int) gomap \<Rightarrow> string list \<Rightarrow> string" where
  "next_neighbor graph assignment [] = ''''"
| "next_neighbor graph assignment (assigned # rest) =
     (if map_of assignment assigned = None then next_neighbor graph assignment rest
      else case find (\<lambda>neighbor. map_of assignment neighbor = None) (map_get graph assigned []) of
          None \<Rightarrow> next_neighbor graph assignment rest
        | Some neighbor \<Rightarrow> if neighbor \<noteq> '''' then neighbor else next_neighbor graph assignment rest)"

definition next_role :: "(string, string list) gomap \<Rightarrow> string list \<Rightarrow> (string, int) gomap \<Rightarrow> string" where
  "next_role graph component assignment =
     (let next = next_neighbor graph assignment component
      in if next \<noteq> '''' then next
         else case find (\<lambda>candidate. map_of assignment candidate = None) component of
             None \<Rightarrow> ''''
           | Some candidate \<Rightarrow> candidate)"

text \<open>The interval of the next role, tightened by its ratios with roles that have a count.\<close>

definition tighten :: "(Dec \<Rightarrow> f64) \<Rightarrow> (f64 \<Rightarrow> int) \<Rightarrow> (string, int) gomap \<Rightarrow> string \<Rightarrow> ScalerRoleRatio
    \<Rightarrow> int \<times> int \<Rightarrow> int \<times> int" where
  "tighten approx wild assignment next ratio bounds =
     (let bounds = (if rr_NumeratorRole ratio = next
            then case map_of assignment (rr_DenominatorRole ratio) of
                None \<Rightarrow> bounds
              | Some den \<Rightarrow>
                  (maxInt32 (fst bounds) (ratioLower wild den (quantityFloat approx (rr_Min ratio)) True),
                   minInt32 (snd bounds) (ratioUpper wild den (ratioMaxFloat approx (rr_Max ratio)) True))
            else bounds)
      in if rr_DenominatorRole ratio = next
         then case map_of assignment (rr_NumeratorRole ratio) of
             None \<Rightarrow> bounds
           | Some num \<Rightarrow>
               (maxInt32 (fst bounds) (ratioLower wild num (ratioMaxFloat approx (rr_Max ratio)) False),
                minInt32 (snd bounds) (ratioUpper wild num (quantityFloat approx (rr_Min ratio)) False))
         else bounds)"

fun try_counts :: "(int \<Rightarrow> SearchState \<Rightarrow> SearchState) \<Rightarrow> int list \<Rightarrow> SearchState \<Rightarrow> SearchState" where
  "try_counts attempt [] st = st"
| "try_counts attempt (v # vs) st =
     (if se_budget st \<le> 0 then st else try_counts attempt vs (attempt v st))"

record SearchProblem =
  pr_ratios :: "ScalerRoleRatio list"
  pr_component :: "string list"
  pr_low :: "(string, int) gomap"
  pr_high :: "(string, int) gomap"
  pr_desired :: "(string, int) gomap"

text \<open>
  \<open>left\<close> is the number of roles of the component without a count: the code compares the lengths of
  \<open>assignment\<close> and \<open>component\<close>. The deletion after a call undoes the extension of \<open>assignment\<close>.
\<close>

fun searchNeighbors :: "(Dec \<Rightarrow> f64) \<Rightarrow> (f64 \<Rightarrow> int) \<Rightarrow> SearchProblem \<Rightarrow> nat \<Rightarrow> (string, int) gomap
    \<Rightarrow> SearchState \<Rightarrow> SearchState" where
  "searchNeighbors approx wild pr 0 assignment st =
     (if se_budget st \<le> 0 then st else judge_vector approx (pr_ratios pr) (pr_desired pr) assignment st)"
| "searchNeighbors approx wild pr (Suc left) assignment st =
     (if se_budget st \<le> 0 then st
      else let next = next_role (ratioGraph (pr_ratios pr)) (pr_component pr) assignment
        in if next = '''' then st
           else let (boundsLow, boundsHigh) = fold (tighten approx wild assignment next) (pr_ratios pr)
                      (map_get (pr_low pr) next 0, map_get (pr_high pr) next 0)
             in try_counts (\<lambda>v. searchNeighbors approx wild pr left (map_put next v assignment))
                  (orderedCandidates boundsLow boundsHigh (map_get (pr_desired pr) next 0)) st)"

definition anchor_of :: "(string, string list) gomap \<Rightarrow> string list \<Rightarrow> string" where
  "anchor_of graph component =
     fold (\<lambda>name anchor. if length (map_get graph name []) > length (map_get graph anchor []) then name else anchor)
       (tl component) (hd component)"

definition anchored_search :: "(Dec \<Rightarrow> f64) \<Rightarrow> (f64 \<Rightarrow> int) \<Rightarrow> SearchProblem \<Rightarrow> SearchState" where
  "anchored_search approx wild pr =
     (let anchor = anchor_of (ratioGraph (pr_ratios pr)) (pr_component pr)
      in try_counts (\<lambda>v. searchNeighbors approx wild pr (length (pr_component pr) - 1) [(anchor, v)])
           (orderedCandidates (map_get (pr_low pr) anchor 0) (map_get (pr_high pr) anchor 0) (map_get (pr_desired pr) anchor 0))
           \<lparr>se_best = None, se_bestScore = (PosInf, PosInf, NegInf),
            se_budget = modelDeploymentScalerConstraintSearchBudget\<rparr>)"

definition searchComponent :: "(Dec \<Rightarrow> f64) \<Rightarrow> (f64 \<Rightarrow> int) \<Rightarrow> SearchProblem \<Rightarrow> (string, int) gomap option" where
  "searchComponent approx wild pr =
     (if list_ex (\<lambda>name. map_get (pr_low pr) name 0 > map_get (pr_high pr) name 0) (pr_component pr) then None
      else se_best (anchored_search approx wild pr))"

section \<open>Projection of a component\<close>

definition put_all :: "string list \<Rightarrow> (string \<Rightarrow> 'v) \<Rightarrow> (string, 'v) gomap \<Rightarrow> (string, 'v) gomap" where
  "put_all names f m = fold (\<lambda>name. map_put name (f name)) names m"

definition projectComponent :: "(Dec \<Rightarrow> f64) \<Rightarrow> (f64 \<Rightarrow> int) \<Rightarrow> ScalerRoleRatio list \<Rightarrow> string list
    \<Rightarrow> (string, ScalerRoleState) gomap \<Rightarrow> ConstraintResult \<Rightarrow> ConstraintResult" where
  "projectComponent approx wild ratios component states result =
     (let component = sort component;
          current = (\<lambda>name. rs_CurrentReplicas (map_get states name zero_state));
          raw = (\<lambda>name. rs_RawRecommendedReplicas (map_get states name zero_state));
          interval = (\<lambda>name. map_get (cr_Intervals result) name zero_interval);
          anyUp = list_ex (\<lambda>name. raw name > current name) component;
          anyDown = list_ex (\<lambda>name. raw name < current name) component
      in if \<not> anyUp \<and> \<not> anyDown
         then let result = result\<lparr>cr_Replicas := put_all component current (cr_Replicas result)\<rparr>
           in if \<not> ratiosSatisfied approx (put_all component current []) ratios
              then result\<lparr>cr_Reasons := put_all component (\<lambda>_. reasonRatioConflict) (cr_Reasons result)\<rparr>
              else result
         else let low = (\<lambda>name. if anyUp then maxInt32 (ri_Floor (interval name)) (current name) else ri_Floor (interval name));
            high = (\<lambda>name. if anyUp then ri_Ceil (interval name) else minInt32 (ri_Ceil (interval name)) (current name));
            desired = (\<lambda>name. clamp (raw name) (low name) (high name));
            pr = \<lparr>pr_ratios = ratios, pr_component = component, pr_low = put_all component low [],
                   pr_high = put_all component high [], pr_desired = put_all component desired []\<rparr>
          in case searchComponent approx wild pr of
              None \<Rightarrow>
                let full = pr\<lparr>pr_low := put_all component (\<lambda>name. ri_Floor (interval name)) [],
                              pr_high := put_all component (\<lambda>name. ri_Ceil (interval name)) []\<rparr>;
                    reason = (if searchComponent approx wild full \<noteq> None then reasonPacingBounded else reasonRatioConflict)
                in result\<lparr>cr_Replicas := put_all component current (cr_Replicas result),
                          cr_Reasons := put_all component (\<lambda>_. reason) (cr_Reasons result)\<rparr>
            | Some best \<Rightarrow>
                let held = filter (\<lambda>name. map_get best name 0 \<noteq> desired name
                              \<or> map_get best name 0 = current name \<and> desired name \<noteq> current name) component
                in result\<lparr>cr_Replicas := put_all component (\<lambda>name. map_get best name 0) (cr_Replicas result),
                          cr_Reasons := put_all held (\<lambda>_. reasonPacingBounded) (cr_Reasons result)\<rparr>)"

section \<open>The solver\<close>

text \<open>The loop over the roles that collects histories and intervals.\<close>

definition collect_role :: "(f64 \<Rightarrow> int) \<Rightarrow> ConstraintInput \<Rightarrow> (string, ScalerRoleBounds) gomap
    \<Rightarrow> ScalerRoleState \<Rightarrow> ConstraintResult \<Rightarrow> ConstraintResult" where
  "collect_role wild input bounds role result =
     (let history = rs_StabilizationHistory role @ [\<lparr>ss_Timestamp = ci_Now input, ss_Replicas = rs_RawRecommendedReplicas role\<rparr>];
          history = pruneStabilizationHistory history (ci_Now input)
                      (largestStabilizationWindow (ci_ScaleUp input) (ci_ScaleDown input));
          result = result\<lparr>cr_Replicas := map_put (rs_Name role) (rs_CurrentReplicas role) (cr_Replicas result),
            cr_StabilizationHistory := map_put (rs_Name role) history (cr_StabilizationHistory result)\<rparr>
      in case map_of bounds (rs_Name role) of
           None \<Rightarrow> result\<lparr>cr_BlockingReason := reasonBoundsConflict,
                     cr_Reasons := map_put (rs_Name role) reasonBoundsConflict (cr_Reasons result)\<rparr>
         | Some bound \<Rightarrow>
             let (floor, ceil) = roleInterval wild input role bound history
             in result\<lparr>cr_Intervals := map_put (rs_Name role) \<lparr>ri_Floor = floor, ri_Ceil = ceil\<rparr> (cr_Intervals result)\<rparr>)"

text \<open>The roles up to and including the first whose interval is empty, if there is one.\<close>

fun first_conflict :: "(string, ReplicaInterval) gomap \<Rightarrow> ScalerRoleState list \<Rightarrow> string list \<Rightarrow> string list option" where
  "first_conflict intervals [] names = None"
| "first_conflict intervals (role # rest) names =
     (let names = names @ [rs_Name role]; interval = map_get intervals (rs_Name role) zero_interval
      in if ri_Floor interval > ri_Ceil interval then Some names else first_conflict intervals rest names)"

fun project_roles :: "(Dec \<Rightarrow> f64) \<Rightarrow> (f64 \<Rightarrow> int) \<Rightarrow> ScalerRoleRatio list \<Rightarrow> (string, ScalerRoleState) gomap
    \<Rightarrow> string list \<Rightarrow> string set \<Rightarrow> ConstraintResult \<Rightarrow> ConstraintResult option" where
  "project_roles approx wild ratios states [] seen result = Some result"
| "project_roles approx wild ratios states (name # names) seen result =
     (if name \<in> seen then project_roles approx wild ratios states names seen result
      else case connectedComponent name (ratioGraph ratios) seen of
          None \<Rightarrow> None
        | Some (component, seen) \<Rightarrow>
            project_roles approx wild ratios states names seen
              (if length component = 1 \<and> map_get (ratioGraph ratios) name [] = []
               then let interval = map_get (cr_Intervals result) name zero_interval;
                      target = clamp (rs_RawRecommendedReplicas (map_get states name zero_state)) (ri_Floor interval) (ri_Ceil interval)
                    in result\<lparr>cr_Replicas := map_put name target (cr_Replicas result)\<rparr>
               else projectComponent approx wild ratios component states result))"

definition explain :: "ScalerRoleState list \<Rightarrow> ConstraintResult \<Rightarrow> ConstraintResult" where
  "explain roles result =
     (let result = (if cr_BlockingReason result = ''''
            then case find (\<lambda>(name, reason). reason = reasonRatioConflict \<or> reason = reasonPacingBounded) (cr_Reasons result) of
                None \<Rightarrow> result
              | Some (name, reason) \<Rightarrow> result\<lparr>cr_BlockingReason := reason\<rparr>
            else result)
      in if cr_BlockingReason result = ''''
         then fold (\<lambda>role result.
             if rs_RawRecommendedReplicas role \<noteq> rs_CurrentReplicas role
                \<and> map_get (cr_Replicas result) (rs_Name role) 0 = rs_CurrentReplicas role
             then result\<lparr>cr_BlockingReason := reasonPacingBounded,
                         cr_Reasons := map_put (rs_Name role) reasonPacingBounded (cr_Reasons result)\<rparr>
             else result) roles result
         else result)"

definition SolveModelDeploymentScalerConstraints :: "(Dec \<Rightarrow> f64) \<Rightarrow> (f64 \<Rightarrow> int) \<Rightarrow> gotime
    \<Rightarrow> ConstraintInput \<Rightarrow> ConstraintResult option" where
  "SolveModelDeploymentScalerConstraints approx wild clock input =
     (let input = (if ci_Now input = 0 then input\<lparr>ci_Now := clock\<rparr> else input);
          bounds = fold (\<lambda>bound. map_put (sb_Name bound) bound) (sc_Roles (ci_Rules input)) [];
          states = fold (\<lambda>role. map_put (rs_Name role) role) (ci_Roles input) [];
          result = fold (collect_role wild input bounds) (ci_Roles input)
            \<lparr>cr_Replicas = [], cr_Reasons = [], cr_Intervals = [], cr_StabilizationHistory = [], cr_BlockingReason = ''''\<rparr>
      in if cr_BlockingReason result = reasonBoundsConflict then Some result
         else case first_conflict (cr_Intervals result) (ci_Roles input) [] of
             Some names \<Rightarrow> Some (result\<lparr>cr_BlockingReason := reasonBoundsConflict,
                 cr_Reasons := put_all names (\<lambda>_. reasonBoundsConflict) (cr_Reasons result)\<rparr>)
           | None \<Rightarrow> map_option (explain (ci_Roles input))
               (project_roles approx wild (sc_Ratios (ci_Rules input)) states (sort (map rs_Name (ci_Roles input))) {} result))"

end
