(* ===== verification/Constraint_Search.thy ===== *)
theory Constraint_Search
  imports Scaler_Constraints
begin

text \<open>
  The search of the constraint solver for a replica vector of coupled roles. A vector it returns covers
  the component, lies in the box and keeps every ratio; if the budget lasts, it is as close to what is
  desired as any vector of the box that keeps the ratios exactly.
\<close>

section \<open>Candidates\<close>

lemma set_upto_split:
  fixes c low high :: int
  assumes "c \<in> {low..high}"
  shows "{low..high} = {c} \<union> (\<lambda>k. c - k) ` {k \<in> {1..high - low}. low \<le> c - k} \<union> (\<lambda>k. c + k) ` {k \<in> {1..high - low}. c + k \<le> high}"
proof -
  have "v \<in> {c} \<union> (\<lambda>k. c - k) ` {k \<in> {1..high - low}. low \<le> c - k} \<union> (\<lambda>k. c + k) ` {k \<in> {1..high - low}. c + k \<le> high}"
    if "low \<le> v" "v \<le> high" for v
  proof -
    consider "v = c" | "v < c" | "c < v" by linarith
    then show ?thesis
    proof cases
      case 2
      then have "c - v \<in> {k \<in> {1..high - low}. low \<le> c - k}" using that assms by auto
      then show ?thesis using image_eqI [of v "\<lambda>k. c - k" "c - v"] by auto
    next
      case 3
      then have "v - c \<in> {k \<in> {1..high - low}. c + k \<le> high}" using that assms by auto
      then show ?thesis using image_eqI [of v "\<lambda>k. c + k" "v - c"] by auto
    qed simp
  qed
  then have "{low..high} \<subseteq> {c} \<union> (\<lambda>k. c - k) ` {k \<in> {1..high - low}. low \<le> c - k} \<union> (\<lambda>k. c + k) ` {k \<in> {1..high - low}. c + k \<le> high}"
    by (meson atLeastAtMost_iff subsetI)
  moreover have "{c} \<union> (\<lambda>k. c - k) ` {k \<in> {1..high - low}. low \<le> c - k} \<union> (\<lambda>k. c + k) ` {k \<in> {1..high - low}. c + k \<le> high} \<subseteq> {low..high}"
    using assms by auto
  ultimately show ?thesis by (rule subset_antisym)
qed

text \<open>The candidates an offset adds when nothing stops it.\<close>

definition offered :: "int \<Rightarrow> int \<Rightarrow> int \<Rightarrow> int \<Rightarrow> int list" where
  "offered low high c k = (if low \<le> c - k then [c - k] else []) @ (if c + k \<le> high then [c + k] else [])"

lemma add_candidates_prefix:
  assumes "int32 low" "int32 high" "c \<in> {low..high}" "\<forall>k \<in> set ks. 1 \<le> k \<and> int32 (c - k) \<and> int32 (c + k)"
    "int (length cs) \<le> limit"
  shows "add_candidates low high c limit cs ks = take (nat limit) (cs @ concat (map (offered low high c) ks))"
  using assms(4,5)
proof (induction ks arbitrary: cs)
  case Nil
  then show ?case by simp
next
  case (Cons k ks)
  have w: "wrap32 (c - k) = c - k" "wrap32 (c + k) = c + k" using Cons.prems(1) by (simp_all add: wrap32_id)
  show ?case
  proof (cases "int (length cs) < limit")
    case False
    then show ?thesis using Cons.prems(2) by simp
  next
    case True
    let ?cs = "if low \<le> c - k then cs @ [c - k] else cs"
    show ?thesis
    proof (cases "low \<le> c - k \<and> int (length ?cs) = limit")
      case stop: True
      then have "nat limit = length ?cs" by linarith
      then have t: "take (nat limit) (?cs @ xs) = ?cs" for xs
        using append_eq_conv_conj [of ?cs xs "?cs @ xs"] by simp
      have "cs @ concat (map (offered low high c) (k # ks))
          = ?cs @ (if c + k \<le> high then [c + k] else []) @ concat (map (offered low high c) ks)"
        by (simp add: offered_def)
      then have "take (nat limit) (cs @ concat (map (offered low high c) (k # ks))) = ?cs" by (simp only: t)
      moreover have "add_candidates low high c limit cs (k # ks) = ?cs"
        using conjunct1 [OF stop] conjunct2 [OF stop] True by (simp add: w Let_def del: length_append)
      ultimately show ?thesis by simp
    next
      case go: False
      let ?ds = "if c + k \<le> high then ?cs @ [c + k] else ?cs"
      have "int (length ?ds) \<le> limit" using True go by (auto split: if_splits)
      then have "add_candidates low high c limit ?ds ks = take (nat limit) (?ds @ concat (map (offered low high c) ks))"
        using Cons.prems(1) by (intro Cons.IH) auto
      moreover have "add_candidates low high c limit cs (k # ks) = add_candidates low high c limit ?ds ks"
        using True go by (auto simp: w Let_def)
      moreover have "cs @ concat (map (offered low high c) (k # ks)) = ?ds @ concat (map (offered low high c) ks)"
        by (simp add: offered_def)
      ultimately show ?thesis by (simp only:)
    qed
  qed
qed

lemma distinct_offered:
  "c \<in> {low..high} \<Longrightarrow> distinct ks \<Longrightarrow> \<forall>k \<in> set ks. 1 \<le> k \<Longrightarrow> distinct (c # concat (map (offered low high c) ks))"
proof (induction ks)
  case (Cons k ks)
  have off: "x = c - k' \<or> x = c + k'" if "x \<in> set (offered low high c k')" for x k'
    using that by (auto simp: offered_def split: if_splits)
  have "x \<notin> set (concat (map (offered low high c) ks))" if x: "x \<in> set (offered low high c k)" for x
  proof
    assume "x \<in> set (concat (map (offered low high c) ks))"
    then obtain k' where k': "k' \<in> set ks" "x \<in> set (offered low high c k')" by auto
    have "k \<noteq> k'" "1 \<le> k" "1 \<le> k'" using Cons.prems k'(1) by auto
    then show False using off [OF x] off [OF k'(2)] by auto
  qed
  then have "set (offered low high c k) \<inter> set (concat (map (offered low high c) ks)) = {}" by blast
  then show ?case using Cons by (auto simp: offered_def)
qed simp

lemma set_offered:
  "c \<in> {low..high} \<Longrightarrow> set (c # concat (map (offered low high c) [1..high - low])) = {low..high}"
proof -
  assume c: "c \<in> {low..high}"
  have "set (concat (map (offered low high c) ks)) = (\<lambda>k. c - k) ` {k \<in> set ks. low \<le> c - k} \<union> (\<lambda>k. c + k) ` {k \<in> set ks. c + k \<le> high}" for ks
    by (induction ks) (auto simp: offered_def)
  from this [of "[1..high - low]"] show ?thesis using set_upto_split [OF c] by (simp add: Un_assoc)
qed

text \<open>The candidates are the numbers of the interval, the target or the end next to it first.\<close>

lemma orderedCandidates_all:
  assumes "- 1000000000 \<le> low" "high \<le> 1000000000" "high - low < 16384"
  shows "set (orderedCandidates low high target) = {low..high}"
    "low \<le> high \<Longrightarrow> int (length (orderedCandidates low high target)) = high - low + 1"
proof -
  let ?c = "clamp target low high" and ?ks = "[1..high - low]"
  let ?all = "?c # concat (map (offered low high ?c) ?ks)"
  have eq: "orderedCandidates low high target = ?all \<and> int (length ?all) = high - low + 1" if "low \<le> high"
  proof -
    have c: "?c \<in> {low..high}" using that by (auto simp: clamp_def)
    have len: "length ?all = nat (high - low + 1)"
    proof -
      have "distinct ?all" by (rule distinct_offered [OF c]) auto
      then have "length ?all = card (set ?all)" by (rule distinct_card [symmetric])
      then show ?thesis by (simp only: set_offered [OF c] card_atLeastAtMost_int)
    qed
    have w: "wrap32 (high - low + 1) = high - low + 1" using that assms by (intro wrap32_id) (simp add: int32_def)
    have "add_candidates low high ?c (high - low + 1) [?c] ?ks
        = take (nat (high - low + 1)) ([?c] @ concat (map (offered low high ?c) ?ks))"
      using that assms c by (intro add_candidates_prefix) (auto simp: int32_def)
    then show ?thesis using that assms(3) len
      by (simp add: orderedCandidates_def w modelDeploymentScalerConstraintSearchBudget_def Let_def)
  qed
  show "set (orderedCandidates low high target) = {low..high}"
  proof (cases "low \<le> high")
    case True
    then have "?c \<in> {low..high}" by (auto simp: clamp_def)
    then show ?thesis using eq [OF True] set_offered by metis
  qed (simp add: orderedCandidates_def)
  show "int (length (orderedCandidates low high target)) = high - low + 1" if "low \<le> high"
    using eq [OF that] by simp
qed

section \<open>What the search returns\<close>

lemma ratioGraph_adjacent:
  "b \<in> set (map_get (ratioGraph ratios) a []) \<longleftrightarrow>
     (\<exists>ratio \<in> set ratios. rr_NumeratorRole ratio = a \<and> rr_DenominatorRole ratio = b
        \<or> rr_DenominatorRole ratio = a \<and> rr_NumeratorRole ratio = b)"
proof (induction ratios rule: rev_induct)
  case Nil
  show ?case by (simp add: ratioGraph_def)
next
  case (snoc ratio ratios)
  have "ratioGraph (ratios @ [ratio])
      = (let graph = map_put (rr_NumeratorRole ratio) (map_get (ratioGraph ratios) (rr_NumeratorRole ratio) [] @ [rr_DenominatorRole ratio]) (ratioGraph ratios)
         in map_put (rr_DenominatorRole ratio) (map_get graph (rr_DenominatorRole ratio) [] @ [rr_NumeratorRole ratio]) graph)"
    by (simp add: ratioGraph_def)
  then show ?case using snoc by (auto simp: Let_def map_get_put split: if_splits)
qed

abbreviation low_of :: "SearchProblem \<Rightarrow> string \<Rightarrow> int" where
  "low_of pr name \<equiv> map_get (pr_low pr) name 0"

abbreviation high_of :: "SearchProblem \<Rightarrow> string \<Rightarrow> int" where
  "high_of pr name \<equiv> map_get (pr_high pr) name 0"

definition problem_ok :: "SearchProblem \<Rightarrow> bool" where
  "problem_ok pr \<longleftrightarrow> pr_component pr \<noteq> [] \<and> distinct (pr_component pr) \<and> '''' \<notin> set (pr_component pr)
     \<and> (\<forall>ratio \<in> set (pr_ratios pr). rr_NumeratorRole ratio \<in> set (pr_component pr) \<longleftrightarrow> rr_DenominatorRole ratio \<in> set (pr_component pr))
     \<and> (\<forall>name \<in> set (pr_component pr). 1 \<le> low_of pr name \<and> high_of pr name \<le> 1024)"

definition counts_in_box :: "SearchProblem \<Rightarrow> (string, int) gomap \<Rightarrow> bool" where
  "counts_in_box pr a \<longleftrightarrow> wf_map a \<and> fst ` set a \<subseteq> set (pr_component pr)
     \<and> (\<forall>(name, v) \<in> set a. low_of pr name \<le> v \<and> v \<le> high_of pr name)"

definition vector_ok :: "(Dec \<Rightarrow> f64) \<Rightarrow> SearchProblem \<Rightarrow> (string, int) gomap \<Rightarrow> bool" where
  "vector_ok approx pr b \<longleftrightarrow> counts_in_box pr b \<and> fst ` set b = set (pr_component pr)
     \<and> ratiosSatisfied approx b (pr_ratios pr)"

lemma next_neighbor_in:
  assumes "\<forall>a \<in> set cs. set (map_get graph a []) \<subseteq> C" "next_neighbor graph assignment cs \<noteq> ''''"
  shows "next_neighbor graph assignment cs \<in> C \<and> map_of assignment (next_neighbor graph assignment cs) = None"
  using assms
proof (induction cs)
  case (Cons c cs)
  show ?case
  proof (cases "find (\<lambda>neighbor. map_of assignment neighbor = None) (map_get graph c [])")
    case None
    then show ?thesis using Cons by auto
  next
    case (Some n)
    then have "map_of assignment n = None" "n \<in> set (map_get graph c [])" by (auto simp: find_Some_iff)
    then show ?thesis using Some Cons by (auto split: if_splits)
  qed
qed simp

lemma next_role_in:
  assumes "problem_ok pr" "fst ` set a \<subseteq> set (pr_component pr)" "fst ` set a \<noteq> set (pr_component pr)"
  shows "next_role (ratioGraph (pr_ratios pr)) (pr_component pr) a \<in> set (pr_component pr)"
    "map_of a (next_role (ratioGraph (pr_ratios pr)) (pr_component pr) a) = None"
proof -
  let ?g = "ratioGraph (pr_ratios pr)" and ?C = "pr_component pr"
  have closed: "b \<in> set ?C" if "c \<in> set ?C" "b \<in> set (map_get ?g c [])" for b c
    using assms(1) that unfolding ratioGraph_adjacent problem_ok_def by blast
  have "next_role ?g ?C a \<in> set ?C \<and> map_of a (next_role ?g ?C a) = None"
  proof (cases "next_neighbor ?g a ?C = ''''")
    case False
    then show ?thesis using next_neighbor_in [of ?C ?g "set ?C" a] closed by (simp add: next_role_def subset_iff)
  next
    case True
    obtain m where "m \<in> set ?C" "m \<notin> fst ` set a" using assms(2,3) by blast
    then have "map_of a m = None" by (simp add: map_of_eq_None_iff)
    then obtain n where n: "find (\<lambda>c. map_of a c = None) ?C = Some n"
      using \<open>m \<in> set ?C\<close> by (cases "find (\<lambda>c. map_of a c = None) ?C") (auto simp: find_None_iff)
    then have "n \<in> set ?C \<and> map_of a n = None" by (auto simp: find_Some_iff)
    then show ?thesis using True n by (simp add: next_role_def)
  qed
  then show "next_role ?g ?C a \<in> set ?C" "map_of a (next_role ?g ?C a) = None" by simp_all
qed

lemma tighten_shrinks:
  "fst bounds \<le> fst (tighten approx wild a nx ratio bounds) \<and> snd (tighten approx wild a nx ratio bounds) \<le> snd bounds"
  by (auto simp: tighten_def Let_def maxInt32_def minInt32_def split: option.splits)

lemma fold_tighten_shrinks:
  "fst bounds \<le> fst (fold (tighten approx wild a nx) ratios bounds) \<and> snd (fold (tighten approx wild a nx) ratios bounds) \<le> snd bounds"
proof (induction ratios arbitrary: bounds)
  case (Cons ratio ratios)
  show ?case using Cons [of "tighten approx wild a nx ratio bounds"] tighten_shrinks [of bounds approx wild a nx ratio] by simp
qed simp

lemma try_counts_keeps:
  "(\<And>v st. v \<in> set vs \<Longrightarrow> I st \<Longrightarrow> I (attempt v st)) \<Longrightarrow> I st \<Longrightarrow> I (try_counts attempt vs st)"
  by (induction vs arbitrary: st) auto

lemma counts_in_box_put:
  assumes "counts_in_box pr a" "name \<in> set (pr_component pr)" "map_of a name = None" "low_of pr name \<le> v" "v \<le> high_of pr name"
  shows "counts_in_box pr (map_put name v a)" "length (map_put name v a) = Suc (length a)"
proof -
  have eq: "map_put name v a = a @ [(name, v)]" using assms(3) by (induction a) (auto split: if_splits)
  then show "length (map_put name v a) = Suc (length a)" by simp
  show "counts_in_box pr (map_put name v a)"
    using assms unfolding counts_in_box_def eq by (auto simp: wf_map_def map_of_eq_None_iff)
qed

lemma box_keys:
  assumes "problem_ok pr" "counts_in_box pr a"
  shows "length a = length (pr_component pr) \<longleftrightarrow> fst ` set a = set (pr_component pr)"
    "fst ` set a \<subseteq> set (pr_component pr)"
proof -
  have sub: "fst ` set a \<subseteq> set (pr_component pr)" using assms(2) by (simp add: counts_in_box_def)
  have "card (fst ` set a) = length a"
    using assms(2) distinct_card [of "map fst a"] by (simp add: counts_in_box_def wf_map_def)
  moreover have "card (set (pr_component pr)) = length (pr_component pr)"
    using assms(1) by (simp add: problem_ok_def distinct_card)
  ultimately show "length a = length (pr_component pr) \<longleftrightarrow> fst ` set a = set (pr_component pr)"
    using card_subset_eq [OF _ sub] by auto
  show "fst ` set a \<subseteq> set (pr_component pr)" by (rule sub)
qed

text \<open>The role the search assigns nx, and its candidates.\<close>

lemma search_step:
  assumes "problem_ok pr" "counts_in_box pr a" "length a + Suc left = length (pr_component pr)"
  obtains nx lo hi where "nx \<in> set (pr_component pr)" "map_of a nx = None" "nx \<noteq> ''''"
    "(lo, hi) = fold (tighten approx wild a nx) (pr_ratios pr) (low_of pr nx, high_of pr nx)"
    "low_of pr nx \<le> lo" "hi \<le> high_of pr nx"
    "set (orderedCandidates lo hi (map_get (pr_desired pr) nx 0)) = {lo..hi}"
    "\<And>st. searchNeighbors approx wild pr (Suc left) a st = (if se_budget st \<le> 0 then st
        else try_counts (\<lambda>v. searchNeighbors approx wild pr left (map_put nx v a))
          (orderedCandidates lo hi (map_get (pr_desired pr) nx 0)) st)"
proof -
  define nx where "nx = next_role (ratioGraph (pr_ratios pr)) (pr_component pr) a"
  have "fst ` set a \<noteq> set (pr_component pr)" using box_keys(1) [OF assms(1,2)] assms(3) by simp
  note n = next_role_in [OF assms(1) box_keys(2) [OF assms(1,2)] this, folded nx_def]
  have ne: "nx \<noteq> ''''" using n(1) assms(1) by (auto simp: problem_ok_def)
  obtain lo hi where b: "(lo, hi) = fold (tighten approx wild a nx) (pr_ratios pr) (low_of pr nx, high_of pr nx)"
    by (metis prod.collapse)
  have in_box: "low_of pr nx \<le> lo \<and> hi \<le> high_of pr nx"
    using fold_tighten_shrinks [of "(low_of pr nx, high_of pr nx)"] b by (metis fst_conv snd_conv)
  have "1 \<le> low_of pr nx \<and> high_of pr nx \<le> 1024" using assms(1) n(1) by (simp add: problem_ok_def)
  then have all: "set (orderedCandidates lo hi (map_get (pr_desired pr) nx 0)) = {lo..hi}"
    using in_box by (intro orderedCandidates_all(1)) auto
  have "searchNeighbors approx wild pr (Suc left) a st = (if se_budget st \<le> 0 then st
        else try_counts (\<lambda>v. searchNeighbors approx wild pr left (map_put nx v a))
          (orderedCandidates lo hi (map_get (pr_desired pr) nx 0)) st)" for st
    using ne b [symmetric] by (simp add: nx_def [symmetric] Let_def)
  then show thesis using that [OF n ne b] in_box all by blast
qed

lemma searchNeighbors_sound:
  assumes "problem_ok pr" "counts_in_box pr a" "length a + left = length (pr_component pr)"
    "\<And>b. se_best st = Some b \<Longrightarrow> vector_ok approx pr b" "se_best (searchNeighbors approx wild pr left a st) = Some b"
  shows "vector_ok approx pr b"
proof -
  let ?I = "\<lambda>st. \<forall>b. se_best st = Some b \<longrightarrow> vector_ok approx pr b"
  have "?I (searchNeighbors approx wild pr left a st)" if "?I st" using assms(2,3) that
  proof (induction left arbitrary: a st)
    case 0
    have "fst ` set a = set (pr_component pr)" using box_keys(1) [OF assms(1) "0.prems"(1)] "0.prems"(2) by simp
    then show ?case using 0 by (auto simp: judge_vector_def Let_def vector_ok_def)
  next
    case (Suc left)
    obtain nx lo hi where s: "nx \<in> set (pr_component pr)" "map_of a nx = None" "nx \<noteq> ''''"
        "(lo, hi) = fold (tighten approx wild a nx) (pr_ratios pr) (low_of pr nx, high_of pr nx)"
        "low_of pr nx \<le> lo" "hi \<le> high_of pr nx"
        "set (orderedCandidates lo hi (map_get (pr_desired pr) nx 0)) = {lo..hi}"
      and step: "\<And>st. searchNeighbors approx wild pr (Suc left) a st = (if se_budget st \<le> 0 then st
        else try_counts (\<lambda>v. searchNeighbors approx wild pr left (map_put nx v a))
          (orderedCandidates lo hi (map_get (pr_desired pr) nx 0)) st)"
      by (rule search_step [OF assms(1) Suc.prems(1,2)]) (rule that)
    have each: "?I (searchNeighbors approx wild pr left (map_put nx v a) st)"
      if v: "v \<in> set (orderedCandidates lo hi (map_get (pr_desired pr) nx 0))" and st: "?I st" for v st
    proof (rule Suc.IH)
      have "low_of pr nx \<le> v" "v \<le> high_of pr nx" using v s(5-7) by simp_all
      note put = counts_in_box_put [OF Suc.prems(1) s(1,2) this]
      show "counts_in_box pr (map_put nx v a)" by (rule put(1))
      show "length (map_put nx v a) + left = length (pr_component pr)" using put(2) Suc.prems(2) by simp
      show "?I st" by (rule st)
    qed
    have "?I (try_counts (\<lambda>v. searchNeighbors approx wild pr left (map_put nx v a))
          (orderedCandidates lo hi (map_get (pr_desired pr) nx 0)) st)"
      by (rule try_counts_keeps [OF each Suc.prems(3)])
    then show ?case unfolding step using Suc.prems(3) by simp
  qed
  then show ?thesis using assms(4,5) by blast
qed

lemma anchor_in: "component \<noteq> [] \<Longrightarrow> anchor_of graph component \<in> set component"
proof -
  assume ne: "component \<noteq> []"
  have "fold (\<lambda>name anchor. if length (map_get graph name []) > length (map_get graph anchor []) then name else anchor) xs x
      \<in> insert x (set xs)" for xs x
  proof (induction xs arbitrary: x)
    case (Cons y ys)
    show ?case using Cons [of x] Cons [of y] by auto
  qed simp
  from this [of "tl component" "hd component"] show ?thesis using ne by (cases component) (auto simp: anchor_of_def)
qed

text \<open>A vector the search returns covers the component, lies in the box and keeps every ratio.\<close>

lemma searchComponent_sound:
  assumes "problem_ok pr" "searchComponent approx wild pr = Some b"
  shows "vector_ok approx pr b"
proof -
  let ?I = "\<lambda>st. \<forall>b. se_best st = Some b \<longrightarrow> vector_ok approx pr b"
  define anchor where "anchor = anchor_of (ratioGraph (pr_ratios pr)) (pr_component pr)"
  have anchor: "anchor \<in> set (pr_component pr)" unfolding anchor_def using assms(1) by (intro anchor_in) (simp add: problem_ok_def)
  have range: "1 \<le> low_of pr anchor" "high_of pr anchor \<le> 1024" using assms(1) anchor by (simp_all add: problem_ok_def)
  have all: "set (orderedCandidates (low_of pr anchor) (high_of pr anchor) (map_get (pr_desired pr) anchor 0))
      = {low_of pr anchor..high_of pr anchor}"
    using range by (intro orderedCandidates_all(1)) auto
  have each: "?I (searchNeighbors approx wild pr (length (pr_component pr) - 1) [(anchor, v)] st)"
    if v: "v \<in> set (orderedCandidates (low_of pr anchor) (high_of pr anchor) (map_get (pr_desired pr) anchor 0))"
      and st: "?I st" for v st
  proof -
    have box: "counts_in_box pr [(anchor, v)]" using v all anchor by (simp add: counts_in_box_def wf_map_def)
    have len: "length [(anchor, v)] + (length (pr_component pr) - 1) = length (pr_component pr)"
      using anchor by (cases "pr_component pr") auto
    show ?thesis using searchNeighbors_sound [OF assms(1) box len, of st approx] st by blast
  qed
  have "?I (anchored_search approx wild pr)"
    unfolding anchored_search_def anchor_def [symmetric] Let_def by (rule try_counts_keeps [where I = ?I, OF each]) simp_all
  then show ?thesis using assms(2) by (simp add: searchComponent_def split: if_splits)
qed

section \<open>Exact vectors are never pruned\<close>

text \<open>The counts keep a ratio exactly, as rationals.\<close>

definition keeps_exactly :: "(Dec \<Rightarrow> f64) \<Rightarrow> (string \<Rightarrow> int) \<Rightarrow> ScalerRoleRatio \<Rightarrow> bool" where
  "keeps_exactly approx t ratio \<longleftrightarrow>
     (\<exists>m. quantityFloat approx (rr_Min ratio) = Fin m
        \<and> m * of_int (t (rr_DenominatorRole ratio)) \<le> of_int (t (rr_NumeratorRole ratio)))
     \<and> (ratioMaxFloat approx (rr_Max ratio) = PosInf
        \<or> (\<exists>M. ratioMaxFloat approx (rr_Max ratio) = Fin M
             \<and> of_int (t (rr_NumeratorRole ratio)) \<le> M * of_int (t (rr_DenominatorRole ratio))))"

text \<open>The bounds of a ratio are far from the ends of 32 bits.\<close>

definition float_tame :: "(Dec \<Rightarrow> f64) \<Rightarrow> ScalerRoleRatio \<Rightarrow> bool" where
  "float_tame approx ratio \<longleftrightarrow>
     (\<forall>m. quantityFloat approx (rr_Min ratio) = Fin m \<longrightarrow> m = 0 \<or> 1 / 2 ^ 20 \<le> m)
     \<and> (\<forall>M. ratioMaxFloat approx (rr_Max ratio) = Fin M \<longrightarrow> 0 < M \<and> M \<le> 2 ^ 20)"

lemma epsilon: obtains e where "modelDeploymentScalerRatioEpsilon = Fin e" "0 \<le> e" "e \<le> 1"
  unfolding modelDeploymentScalerRatioEpsilon_def using round64_between [of 0 "1 / 10 ^ 9" 1] that by auto

lemma small_int: "1 \<le> n \<Longrightarrow> n \<le> 1024 \<Longrightarrow> f_of_int n = Fin (of_int n)"
  by (rule f_of_int_small) (simp add: abs_if)

lemma int_of_32: "- 2147483648 \<le> n \<Longrightarrow> n < 2147483648 \<Longrightarrow> int_of 32 wild (Fin (of_int n)) = n"
  by (rule int_of_small) simp_all

text \<open>Rounding a product or quotient and moving it by the tolerance keeps it on its side of a count.\<close>

lemma lower_bound_kept:
  assumes "0 \<le> x" "x \<le> of_int n" "1 \<le> n" "n \<le> 1024"
  shows "int_of 32 wild (f_ceil (f_sub (round64 x) modelDeploymentScalerRatioEpsilon)) \<le> n"
proof -
  obtain e where e: "modelDeploymentScalerRatioEpsilon = Fin e" "0 \<le> e" "e \<le> 1" by (rule epsilon)
  obtain y where y: "round64 x = Fin y" "0 \<le> y" "y \<le> of_int n"
    using round64_between [of 0 x n] assms by (auto simp: abs_if)
  have "of_int (- 1) \<le> y - e" "y - e \<le> of_int n" using y e by simp_all
  then obtain z where z: "round64 (y - e) = Fin z" "- 1 \<le> z" "z \<le> of_int n"
    using round64_between [of "- 1" "y - e" n] assms by (auto simp: abs_if)
  have "- 1 \<le> \<lceil>z\<rceil>" "\<lceil>z\<rceil> \<le> n" using z(2,3) by (simp_all add: ceiling_le_iff le_ceiling_iff)
  moreover from this have "int_of 32 wild (Fin (of_int \<lceil>z\<rceil>)) = \<lceil>z\<rceil>" using assms(4) by (intro int_of_32) linarith+
  ultimately show ?thesis by (simp add: y(1) e(1) f_sub_def z(1))
qed

lemma upper_bound_kept:
  assumes "of_int n \<le> x" "x \<le> 2 ^ 30" "1 \<le> n" "n \<le> 1024"
  shows "n \<le> int_of 32 wild (f_floor (f_add (round64 x) modelDeploymentScalerRatioEpsilon))"
proof -
  obtain e where e: "modelDeploymentScalerRatioEpsilon = Fin e" "0 \<le> e" "e \<le> 1" by (rule epsilon)
  obtain y where y: "round64 x = Fin y" "of_int n \<le> y" "y \<le> 2 ^ 30"
    using round64_between [of n x "2 ^ 30"] assms by (auto simp: abs_if)
  have "of_int n \<le> y + e" "y + e \<le> of_int (2 ^ 30 + 1)" using y e by simp_all
  then obtain z where z: "round64 (y + e) = Fin z" "of_int n \<le> z" "z \<le> 2 ^ 30 + 1"
    using round64_between [of n "y + e" "2 ^ 30 + 1"] assms by (auto simp: abs_if)
  have "n \<le> \<lfloor>z\<rfloor>" "\<lfloor>z\<rfloor> \<le> 1073741825" using z(2,3) by (simp_all add: le_floor_iff floor_le_iff)
  moreover from this have "int_of 32 wild (Fin (of_int \<lfloor>z\<rfloor>)) = \<lfloor>z\<rfloor>" using assms(3) by (intro int_of_32) linarith+
  ultimately show ?thesis by (simp add: y(1) e(1) z(1))
qed

lemma ratio_kept_exactly:
  assumes "keeps_exactly approx t ratio" "1 \<le> t (rr_NumeratorRole ratio)" "t (rr_NumeratorRole ratio) \<le> 1024"
    "1 \<le> t (rr_DenominatorRole ratio)" "t (rr_DenominatorRole ratio) \<le> 1024"
    "map_get values (rr_NumeratorRole ratio) 0 = t (rr_NumeratorRole ratio)"
    "map_get values (rr_DenominatorRole ratio) 0 = t (rr_DenominatorRole ratio)"
  shows "ratio_kept approx values ratio"
proof -
  let ?n = "t (rr_NumeratorRole ratio)" and ?d = "t (rr_DenominatorRole ratio)"
  let ?q = "of_int ?n / of_int ?d :: rat"
  obtain e where e: "modelDeploymentScalerRatioEpsilon = Fin e" "0 \<le> e" "e \<le> 1" by (rule epsilon)
  obtain m where m: "quantityFloat approx (rr_Min ratio) = Fin m" "m * of_int ?d \<le> of_int ?n"
    using assms(1) by (auto simp: keeps_exactly_def)
  have q: "f_div (f_of_int ?n) (f_of_int ?d) = round64 ?q" using assms by (simp add: small_int)
  have "m \<le> ?q" using m(2) assms(4) by (simp add: pos_le_divide_eq)
  then have "m - e \<le> ?q" using e(2) by simp
  then have "f_le (round64 (m - e)) (round64 ?q)" by (rule round64_mono)
  then have lo: "\<not> f_less (round64 ?q) (f_sub (Fin m) (Fin e))"
    by (cases "round64 ?q"; cases "round64 (m - e)") (auto simp: f_le_def f_eq_def f_sub_def)
  have hi: "\<not> f_less (f_add (ratioMaxFloat approx (rr_Max ratio)) (Fin e)) (round64 ?q)"
  proof (cases "ratioMaxFloat approx (rr_Max ratio) = PosInf")
    case True
    then show ?thesis by simp
  next
    case False
    then obtain M where M: "ratioMaxFloat approx (rr_Max ratio) = Fin M" "of_int ?n \<le> M * of_int ?d"
      using assms(1) by (auto simp: keeps_exactly_def)
    have "?q \<le> M" using M(2) assms(4) by (simp add: pos_divide_le_eq)
    then have "?q \<le> M + e" using e(2) by simp
    then have "f_le (round64 ?q) (round64 (M + e))" by (rule round64_mono)
    then show ?thesis unfolding M(1)
      by (cases "round64 ?q"; cases "round64 (M + e)") (auto simp: f_le_def f_eq_def)
  qed
  show ?thesis using assms(4,6,7) lo hi by (simp add: ratio_kept_def q m(1) e(1) Let_def)
qed

lemma exact_band_bounds:
  assumes "keeps_exactly approx t ratio" "float_tame approx ratio"
    "1 \<le> t (rr_NumeratorRole ratio)" "t (rr_NumeratorRole ratio) \<le> 1024"
    "1 \<le> t (rr_DenominatorRole ratio)" "t (rr_DenominatorRole ratio) \<le> 1024"
  shows "ratioLower wild (t (rr_DenominatorRole ratio)) (quantityFloat approx (rr_Min ratio)) True \<le> t (rr_NumeratorRole ratio)"
    "t (rr_NumeratorRole ratio) \<le> ratioUpper wild (t (rr_DenominatorRole ratio)) (ratioMaxFloat approx (rr_Max ratio)) True"
    "ratioLower wild (t (rr_NumeratorRole ratio)) (ratioMaxFloat approx (rr_Max ratio)) False \<le> t (rr_DenominatorRole ratio)"
    "t (rr_DenominatorRole ratio) \<le> ratioUpper wild (t (rr_NumeratorRole ratio)) (quantityFloat approx (rr_Min ratio)) False"
proof -
  let ?n = "t (rr_NumeratorRole ratio)" and ?d = "t (rr_DenominatorRole ratio)"
  obtain m where m: "quantityFloat approx (rr_Min ratio) = Fin m" "m * of_int ?d \<le> of_int ?n"
    using assms(1) by (auto simp: keeps_exactly_def)
  have m0: "m = 0 \<or> 1 / 2 ^ 20 \<le> m" using assms(2) m(1) by (simp add: float_tame_def)
  then have "0 \<le> m" by (auto intro: order_trans [of 0 "1 / 2 ^ 20"])
  show "ratioLower wild ?d (quantityFloat approx (rr_Min ratio)) True \<le> ?n"
    using lower_bound_kept [of "m * of_int ?d" ?n] m \<open>0 \<le> m\<close> assms(3-6) by (simp add: ratioLower_def small_int)
  show "?d \<le> ratioUpper wild ?n (quantityFloat approx (rr_Min ratio)) False"
  proof (cases "m = 0")
    case True
    then show ?thesis using assms(6) by (simp add: ratioUpper_def m(1) f_le_def f_eq_def)
  next
    case False
    then have pos: "0 < m" "1 / 2 ^ 20 \<le> m" using m0 \<open>0 \<le> m\<close> by auto
    have "of_int ?d \<le> of_int ?n / m" using pos m(2) by (simp add: pos_le_divide_eq mult.commute)
    moreover have "of_int ?n / m \<le> 1024 / (1 / 2 ^ 20)" using pos assms(3,4) by (intro frac_le) auto
    ultimately show ?thesis
      using upper_bound_kept [of ?d "of_int ?n / m" wild] pos assms(3-6)
      by (simp add: ratioUpper_def m(1) f_le_def f_eq_def small_int)
  qed
  show "?n \<le> ratioUpper wild ?d (ratioMaxFloat approx (rr_Max ratio)) True"
    "ratioLower wild ?n (ratioMaxFloat approx (rr_Max ratio)) False \<le> ?d"
  proof -
    have "?n \<le> ratioUpper wild ?d (ratioMaxFloat approx (rr_Max ratio)) True
        \<and> ratioLower wild ?n (ratioMaxFloat approx (rr_Max ratio)) False \<le> ?d"
    proof (cases "ratioMaxFloat approx (rr_Max ratio) = PosInf")
      case True
      then show ?thesis using assms(4,5) by (simp add: ratioUpper_def ratioLower_def)
    next
      case False
      then obtain M where M: "ratioMaxFloat approx (rr_Max ratio) = Fin M" "of_int ?n \<le> M * of_int ?d"
        using assms(1) by (auto simp: keeps_exactly_def)
      have M0: "0 < M" "M \<le> 2 ^ 20" using assms(2) M(1) by (simp_all add: float_tame_def)
      have "M * of_int ?d \<le> 2 ^ 20 * 1024" using M0 assms(5,6) by (intro mult_mono) auto
      then have up: "?n \<le> ratioUpper wild ?d (Fin M) True"
        using upper_bound_kept [of ?n "M * of_int ?d" wild] M(2) assms(3-6) by (simp add: ratioUpper_def small_int)
      have "of_int ?n / M \<le> of_int ?d" using M0 M(2) by (simp add: pos_divide_le_eq mult.commute)
      then have "ratioLower wild ?n (Fin M) False \<le> ?d"
        using lower_bound_kept [of "of_int ?n / M" ?d wild] M0 assms(3-6)
        by (simp add: ratioLower_def f_le_def f_eq_def small_int)
      then show ?thesis using up by (simp add: M(1))
    qed
    then show "?n \<le> ratioUpper wild ?d (ratioMaxFloat approx (rr_Max ratio)) True"
      "ratioLower wild ?n (ratioMaxFloat approx (rr_Max ratio)) False \<le> ?d" by simp_all
  qed
qed

lemma tighten_keeps:
  assumes "keeps_exactly approx t ratio" "float_tame approx ratio"
    "1 \<le> t (rr_NumeratorRole ratio)" "t (rr_NumeratorRole ratio) \<le> 1024"
    "1 \<le> t (rr_DenominatorRole ratio)" "t (rr_DenominatorRole ratio) \<le> 1024"
    "\<And>name v. map_of a name = Some v \<Longrightarrow> v = t name" "fst bounds \<le> t nx" "t nx \<le> snd bounds"
  shows "fst (tighten approx wild a nx ratio bounds) \<le> t nx \<and> t nx \<le> snd (tighten approx wild a nx ratio bounds)"
proof -
  note exact = exact_band_bounds [OF assms(1-6), of wild]
  have inside: "fst (maxInt32 l x, minInt32 h y) \<le> v \<and> v \<le> snd (maxInt32 l x, minInt32 h y)"
    if "l \<le> v" "v \<le> h" "x \<le> v" "v \<le> y" for l h x y v
    using that by (simp add: maxInt32_def minInt32_def)
  define b where "b = (if rr_NumeratorRole ratio = nx
            then case map_of a (rr_DenominatorRole ratio) of
                None \<Rightarrow> bounds
              | Some den \<Rightarrow>
                  (maxInt32 (fst bounds) (ratioLower wild den (quantityFloat approx (rr_Min ratio)) True),
                   minInt32 (snd bounds) (ratioUpper wild den (ratioMaxFloat approx (rr_Max ratio)) True))
            else bounds)"
  have b: "fst b \<le> t nx \<and> t nx \<le> snd b"
  proof (cases "rr_NumeratorRole ratio = nx")
    case True
    show ?thesis
    proof (cases "map_of a (rr_DenominatorRole ratio)")
      case None
      then show ?thesis using assms(8,9) by (simp add: b_def)
    next
      case (Some den)
      then have "den = t (rr_DenominatorRole ratio)" by (rule assms(7))
      then show ?thesis using True Some inside [OF assms(8,9)] exact(1,2) by (simp add: b_def)
    qed
  next
    case False
    then show ?thesis using assms(8,9) by (simp add: b_def)
  qed
  show ?thesis
  proof (cases "rr_DenominatorRole ratio = nx")
    case True
    show ?thesis
    proof (cases "map_of a (rr_NumeratorRole ratio)")
      case None
      then show ?thesis using True b by (simp add: tighten_def Let_def b_def [symmetric])
    next
      case (Some num)
      then have "num = t (rr_NumeratorRole ratio)" by (rule assms(7))
      then show ?thesis using True Some inside [of "fst b" "t nx" "snd b"] b exact(3,4)
        by (simp add: tighten_def Let_def b_def [symmetric])
    qed
  next
    case False
    then show ?thesis using b by (simp add: tighten_def Let_def b_def [symmetric])
  qed
qed

section \<open>The closest vector\<close>

definition distance :: "SearchProblem \<Rightarrow> (string \<Rightarrow> int) \<Rightarrow> int" where
  "distance pr t = (\<Sum>name \<in> set (pr_component pr). \<bar>t name - map_get (pr_desired pr) name 0\<bar>)"

definition desired_ok :: "SearchProblem \<Rightarrow> bool" where
  "desired_ok pr \<longleftrightarrow> length (pr_component pr) \<le> 2 ^ 32
     \<and> (\<forall>name \<in> set (pr_component pr). 0 \<le> map_get (pr_desired pr) name 0 \<and> map_get (pr_desired pr) name 0 \<le> 1024)"

lemma fold_add_ints:
  assumes "\<forall>x \<in> set xs. 0 \<le> g x \<and> g x \<le> 1024" "0 \<le> s" "s + 1024 * int (length xs) < 2 ^ 53"
  shows "fold (\<lambda>x acc. f_add acc (f_abs (f_of_int (g x)))) xs (Fin (of_int s)) = Fin (of_int (s + (\<Sum>x \<leftarrow> xs. g x)))"
  using assms
proof (induction xs arbitrary: s)
  case (Cons x xs)
  have g: "0 \<le> g x" "g x \<le> 1024" using Cons.prems(1) by simp_all
  have "f_of_int (g x) = Fin (of_int (g x))" using g by (intro f_of_int_small) simp
  moreover have "round64 (of_int (s + g x)) = Fin (of_int (s + g x))"
    using g Cons.prems(2,3) by (intro round64_int) simp
  ultimately have "f_add (Fin (of_int s)) (f_abs (f_of_int (g x))) = Fin (of_int (s + g x))" using g by simp
  then show ?case using Cons.IH [of "s + g x"] Cons.prems g by (simp add: add.assoc)
qed simp

lemma full_vector_sum:
  assumes "wf_map a" "\<And>name v. (name, v) \<in> set a \<Longrightarrow> v = t name"
  shows "(\<Sum>(name, v) \<leftarrow> a. f name v) = (\<Sum>name \<in> fst ` set a. f name (t name))"
proof -
  have "(\<Sum>(name, v) \<leftarrow> a. f name v) = (\<Sum>name \<leftarrow> map fst a. f name (t name))"
    using assms(2) by (auto intro!: arg_cong [of _ _ sum_list] simp: comp_def)
  also have "\<dots> = (\<Sum>name \<in> set (map fst a). f name (t name))"
    using assms(1) unfolding wf_map_def by (rule sum_list_distinct_conv_sum_set)
  finally show ?thesis by simp
qed

lemma score_distance:
  assumes "problem_ok pr" "desired_ok pr" "counts_in_box pr a" "fst ` set a = set (pr_component pr)"
    "\<And>name v. (name, v) \<in> set a \<Longrightarrow> v = t name"
  shows "fst (scoreVector approx a (pr_desired pr) ratios) = Fin (of_int (distance pr t))"
proof -
  let ?g = "\<lambda>(name, v). \<bar>v - map_get (pr_desired pr) name 0\<bar>"
  have b: "\<bar>v - map_get (pr_desired pr) name 0\<bar> \<le> 1024 \<and> wrap32 (v - map_get (pr_desired pr) name 0) = v - map_get (pr_desired pr) name 0"
    if e: "(name, v) \<in> set a" for name v
  proof -
    have n: "name \<in> set (pr_component pr)" using e assms(4) by force
    then have "0 \<le> map_get (pr_desired pr) name 0" "map_get (pr_desired pr) name 0 \<le> 1024"
      using assms(2) by (simp_all add: desired_ok_def)
    moreover have "low_of pr name \<le> v" "v \<le> high_of pr name" using assms(3) e by (auto simp: counts_in_box_def)
    moreover have "1 \<le> low_of pr name" "high_of pr name \<le> 1024" using assms(1) n by (simp_all add: problem_ok_def)
    ultimately show ?thesis by (auto intro!: wrap32_id simp: int32_def abs_le_iff)
  qed
  have len: "1024 * int (length a) < 2 ^ 53"
    using box_keys(1) [OF assms(1,3)] assms(2,4) by (simp add: desired_ok_def)
  have same: "(\<lambda>(name, v) acc. f_add acc (f_abs (f_of_int (wrap32 (v - map_get (pr_desired pr) name 0))))) x
      = (\<lambda>acc. f_add acc (f_abs (f_of_int (?g x))))" if x: "x \<in> set a" for x
  proof -
    obtain name v where nv: "x = (name, v)" by (cases x)
    define w where "w = v - map_get (pr_desired pr) name 0"
    have w: "\<bar>w\<bar> \<le> 1024" "wrap32 w = w" using b x unfolding nv w_def by simp_all
    then have "f_of_int w = Fin (of_int w)" "f_of_int \<bar>w\<bar> = Fin (of_int \<bar>w\<bar>)"
      using f_of_int_small [of w] f_of_int_small [of "\<bar>w\<bar>"] by simp_all
    then show ?thesis using w(2) unfolding nv prod.case w_def [symmetric] by simp
  qed
  have "fst (scoreVector approx a (pr_desired pr) ratios)
      = fold (\<lambda>x acc. f_add acc (f_abs (f_of_int (?g x)))) a (Fin (of_int 0))"
    unfolding scoreVector_def fst_conv of_int_0 using fold_cong [OF refl refl same] .
  also have "\<dots> = Fin (of_int (\<Sum>x \<leftarrow> a. ?g x))"
  proof -
    have "\<forall>x \<in> set a. 0 \<le> ?g x \<and> ?g x \<le> 1024" using b by auto
    from fold_add_ints [OF this, of 0] show ?thesis using len by simp
  qed
  also have "(\<Sum>x \<leftarrow> a. ?g x) = distance pr t"
    using full_vector_sum [of a t "\<lambda>name v. \<bar>v - map_get (pr_desired pr) name 0\<bar>"] assms(3-5)
    by (simp add: distance_def counts_in_box_def)
  finally show ?thesis .
qed

lemma searchNeighbors_keeps:
  assumes "\<And>a st. I st \<Longrightarrow> I (judge_vector approx (pr_ratios pr) (pr_desired pr) a st)"
  shows "I st \<Longrightarrow> I (searchNeighbors approx wild pr left a st)"
proof (induction left arbitrary: a st)
  case 0
  then show ?case using assms by simp
next
  case (Suc left)
  have "I (try_counts (\<lambda>v. searchNeighbors approx wild pr left (map_put n v a)) vs st)" for n vs
    using Suc.prems by (rule try_counts_keeps [rotated]) (rule Suc.IH)
  then show ?case using Suc.prems by (simp add: Let_def case_prod_beta)
qed

text \<open>What is known of the best vector so far.\<close>

definition best_known :: "(Dec \<Rightarrow> f64) \<Rightarrow> SearchProblem \<Rightarrow> SearchState \<Rightarrow> bool" where
  "best_known approx pr st \<longleftrightarrow> fst (se_bestScore st) \<noteq> NaN
     \<and> (se_best st = None \<longrightarrow> fst (se_bestScore st) = PosInf)
     \<and> (\<forall>b. se_best st = Some b \<longrightarrow> se_bestScore st = scoreVector approx b (pr_desired pr) (pr_ratios pr))"

definition best_within :: "int \<Rightarrow> SearchState \<Rightarrow> bool" where
  "best_within d st \<longleftrightarrow> se_best st \<noteq> None \<and> f_le (fst (se_bestScore st)) (Fin (of_int d))"

lemma better_le: "better s s' \<Longrightarrow> f_le (fst s') (Fin x) \<Longrightarrow> f_le (fst s) (Fin x)"
  by (cases "fst s"; cases "fst s'") (auto simp: better_def f_le_def f_eq_def)

lemma better_number: "better s s' \<Longrightarrow> fst s \<noteq> NaN"
  by (auto simp: better_def f_eq_def)

lemma judge_best_known:
  "best_known approx pr st \<Longrightarrow> best_known approx pr (judge_vector approx (pr_ratios pr) (pr_desired pr) a st)"
  using better_number by (auto simp: best_known_def judge_vector_def Let_def)

lemma judge_best_within: "best_within d st \<Longrightarrow> best_within d (judge_vector approx ratios desired a st)"
  using better_le by (auto simp: best_within_def judge_vector_def Let_def)

lemma judge_budget: "se_budget (judge_vector approx ratios desired a st) = se_budget st - 1"
  by (simp add: judge_vector_def Let_def)

lemma searchNeighbors_budget: "se_budget (searchNeighbors approx wild pr left a st) \<le> se_budget st"
  using searchNeighbors_keeps [of "\<lambda>s. se_budget s \<le> se_budget st" approx pr st] judge_budget by (simp add: le_diff_eq)

lemma try_counts_budget:
  "(\<And>v st. se_budget (attempt v st) \<le> se_budget st) \<Longrightarrow> se_budget (try_counts attempt vs st) \<le> se_budget st"
  by (rule try_counts_keeps [of vs "\<lambda>s. se_budget s \<le> se_budget st"]) (auto intro: order_trans)

lemma try_counts_finds:
  assumes "\<And>v st. se_budget (attempt v st) \<le> se_budget st" "\<And>v st. J st \<Longrightarrow> J (attempt v st)" "\<And>v st. I st \<Longrightarrow> I (attempt v st)"
    "\<And>st. I st \<Longrightarrow> 0 < se_budget (attempt w st) \<Longrightarrow> J (attempt w st)" "w \<in> set vs" "I st" "0 < se_budget (try_counts attempt vs st)"
  shows "J (try_counts attempt vs st)"
  using assms(5-7)
proof (induction vs arbitrary: st)
  case (Cons v vs)
  have b: "0 < se_budget st" using Cons.prems(3) by (auto split: if_splits)
  then have rest: "0 < se_budget (try_counts attempt vs (attempt v st))" using Cons.prems(3) by simp
  show ?case
  proof (cases "v = w")
    case True
    have "0 < se_budget (attempt w st)"
      using rest try_counts_budget [of attempt vs "attempt v st"] assms(1) True by simp
    then have "J (attempt w st)" using assms(4) Cons.prems(2) by blast
    then have "J (try_counts attempt vs (attempt w st))" by (rule try_counts_keeps [rotated]) (rule assms(2))
    then show ?thesis using b True by simp
  next
    case False
    then show ?thesis using Cons rest b assms(3) by simp
  qed
qed simp

text \<open>A vector of the box that keeps every ratio exactly.\<close>

definition exact_vector :: "(Dec \<Rightarrow> f64) \<Rightarrow> SearchProblem \<Rightarrow> (string \<Rightarrow> int) \<Rightarrow> bool" where
  "exact_vector approx pr t \<longleftrightarrow>
     (\<forall>name \<in> set (pr_component pr). low_of pr name \<le> t name \<and> t name \<le> high_of pr name)
     \<and> (\<forall>ratio \<in> set (pr_ratios pr). rr_NumeratorRole ratio \<in> set (pr_component pr)
          \<and> rr_DenominatorRole ratio \<in> set (pr_component pr) \<and> float_tame approx ratio \<and> keeps_exactly approx t ratio)"

lemma exact_vector_range:
  assumes "problem_ok pr" "exact_vector approx pr t" "name \<in> set (pr_component pr)"
  shows "1 \<le> t name" "t name \<le> 1024"
  using assms by (auto simp: problem_ok_def exact_vector_def intro: order_trans)

lemma fold_tighten_keeps:
  assumes "problem_ok pr" "exact_vector approx pr t" "\<And>name v. map_of a name = Some v \<Longrightarrow> v = t name"
    "set rs \<subseteq> set (pr_ratios pr)" "fst bounds \<le> t nx" "t nx \<le> snd bounds"
  shows "fst (fold (tighten approx wild a nx) rs bounds) \<le> t nx \<and> t nx \<le> snd (fold (tighten approx wild a nx) rs bounds)"
  using assms(4-6)
proof (induction rs arbitrary: bounds)
  case (Cons r rs)
  have r: "rr_NumeratorRole r \<in> set (pr_component pr)" "rr_DenominatorRole r \<in> set (pr_component pr)"
      "float_tame approx r" "keeps_exactly approx t r"
    using assms(2) Cons.prems(1) by (auto simp: exact_vector_def)
  note step = tighten_keeps [OF r(4,3) exact_vector_range [OF assms(1,2) r(1)] exact_vector_range [OF assms(1,2) r(2)] assms(3) Cons.prems(2,3)]
  show ?case using Cons.IH [of "tighten approx wild a nx r bounds"] Cons.prems(1) step [where wild = wild and a = a] by simp
qed simp

lemma searchNeighbors_finds:
  assumes ok: "problem_ok pr" "desired_ok pr" "exact_vector approx pr t"
  shows "counts_in_box pr a \<Longrightarrow> length a + left = length (pr_component pr)
    \<Longrightarrow> (\<And>name v. (name, v) \<in> set a \<Longrightarrow> v = t name) \<Longrightarrow> best_known approx pr st
    \<Longrightarrow> 0 < se_budget (searchNeighbors approx wild pr left a st)
    \<Longrightarrow> best_within (distance pr t) (searchNeighbors approx wild pr left a st)"
proof (induction left arbitrary: a st)
  case 0
  have keys: "fst ` set a = set (pr_component pr)" using box_keys(1) [OF ok(1) "0.prems"(1)] "0.prems"(2) by simp
  have b: "0 < se_budget st" using "0.prems"(5) by (auto split: if_splits)
  have at: "map_get a name 0 = t name" if n: "name \<in> set (pr_component pr)" for name
  proof -
    obtain v where v: "map_of a name = Some v" using n keys by (metis map_of_eq_None_iff not_None_eq)
    then have "v = t name" using "0.prems"(3) map_of_SomeD by metis
    then show ?thesis using v by (simp add: map_get_def)
  qed
  have "ratio_kept approx a r" if r: "r \<in> set (pr_ratios pr)" for r
  proof -
    have in_c: "rr_NumeratorRole r \<in> set (pr_component pr)" "rr_DenominatorRole r \<in> set (pr_component pr)" "keeps_exactly approx t r"
      using ok(3) r by (auto simp: exact_vector_def)
    show ?thesis using ratio_kept_exactly [OF in_c(3)] exact_vector_range [OF ok(1,3)] in_c(1,2) at by simp
  qed
  then have sat: "ratiosSatisfied approx a (pr_ratios pr)" by (simp add: ratiosSatisfied_def list_all_iff)
  let ?s = "scoreVector approx a (pr_desired pr) (pr_ratios pr)"
  have s: "fst ?s = Fin (of_int (distance pr t))" using score_distance [OF ok(1,2) "0.prems"(1) keys] "0.prems"(3) by blast
  have "best_within (distance pr t) (judge_vector approx (pr_ratios pr) (pr_desired pr) a st)"
  proof (cases "better ?s (se_bestScore st)")
    case True
    then show ?thesis using sat s by (simp add: judge_vector_def best_within_def Let_def f_le_def f_eq_def)
  next
    case False
    then have "\<not> f_less (Fin (of_int (distance pr t))) (fst (se_bestScore st))" using s by (auto simp: better_def)
    then have "best_within (distance pr t) st"
      using "0.prems"(4) by (cases "fst (se_bestScore st)") (auto simp: best_within_def best_known_def f_le_def f_eq_def)
    then show ?thesis by (rule judge_best_within)
  qed
  then show ?case using b by simp
next
  case (Suc left)
  obtain nx lo hi where n: "nx \<in> set (pr_component pr)" "map_of a nx = None" "nx \<noteq> ''''"
      "(lo, hi) = fold (tighten approx wild a nx) (pr_ratios pr) (low_of pr nx, high_of pr nx)"
      "low_of pr nx \<le> lo" "hi \<le> high_of pr nx"
      "set (orderedCandidates lo hi (map_get (pr_desired pr) nx 0)) = {lo..hi}"
    and step: "\<And>st. searchNeighbors approx wild pr (Suc left) a st = (if se_budget st \<le> 0 then st
      else try_counts (\<lambda>v. searchNeighbors approx wild pr left (map_put nx v a))
        (orderedCandidates lo hi (map_get (pr_desired pr) nx 0)) st)"
    by (rule search_step [OF ok(1) Suc.prems(1,2)]) (rule that)
  let ?vs = "orderedCandidates lo hi (map_get (pr_desired pr) nx 0)"
  have agree: "\<And>name v. map_of a name = Some v \<Longrightarrow> v = t name" using Suc.prems(3) map_of_SomeD by metis
  have box: "low_of pr nx \<le> t nx" "t nx \<le> high_of pr nx" using ok(3) n(1) by (simp_all add: exact_vector_def)
  have "fst (lo, hi) \<le> t nx \<and> t nx \<le> snd (lo, hi)"
    unfolding n(4) using box by (intro fold_tighten_keeps [OF ok(1,3) agree]) simp_all
  then have mem: "t nx \<in> set ?vs" using n(7) by simp
  note put = counts_in_box_put [OF Suc.prems(1) n(1,2) box]
  have put_eq: "map_put nx (t nx) a = a @ [(nx, t nx)]" using n(2) by (induction a) (auto split: if_splits)
  have b: "0 < se_budget st" using Suc.prems(5) unfolding step by (auto split: if_splits)
  have "best_within (distance pr t) (try_counts (\<lambda>v. searchNeighbors approx wild pr left (map_put nx v a)) ?vs st)"
  proof (rule try_counts_finds [where I = "best_known approx pr" and w = "t nx"])
    show "best_within (distance pr t) (searchNeighbors approx wild pr left (map_put nx v a) st)"
      if "best_within (distance pr t) st" for v st
      using that by (rule searchNeighbors_keeps [rotated]) (rule judge_best_within)
    show "best_known approx pr (searchNeighbors approx wild pr left (map_put nx v a) st)" if "best_known approx pr st" for v st
      using that by (rule searchNeighbors_keeps [rotated]) (rule judge_best_known)
    show "best_within (distance pr t) (searchNeighbors approx wild pr left (map_put nx (t nx) a) st)"
      if "best_known approx pr st" "0 < se_budget (searchNeighbors approx wild pr left (map_put nx (t nx) a) st)" for st
    proof (rule Suc.IH [OF put(1) _ _ that])
      show "length (map_put nx (t nx) a) + left = length (pr_component pr)" using put(2) Suc.prems(2) by simp
      show "v = t name" if "(name, v) \<in> set (map_put nx (t nx) a)" for name v
        using that Suc.prems(3) unfolding put_eq by auto
    qed
    show "t nx \<in> set ?vs" by (rule mem)
    show "best_known approx pr st" by (rule Suc.prems(4))
    show "0 < se_budget (try_counts (\<lambda>v. searchNeighbors approx wild pr left (map_put nx v a)) ?vs st)"
      using Suc.prems(5) b unfolding step by simp
  qed (rule searchNeighbors_budget)
  then show ?case using b unfolding step by simp
qed

section \<open>The budget\<close>

definition width :: "SearchProblem \<Rightarrow> string \<Rightarrow> int" where
  "width pr name = high_of pr name - low_of pr name + 1"

lemma try_counts_used:
  assumes "\<And>v st. v \<in> set vs \<Longrightarrow> se_budget st - k \<le> se_budget (attempt v st)" "0 \<le> k"
  shows "se_budget st - int (length vs) * k \<le> se_budget (try_counts attempt vs st)"
  using assms(1)
proof (induction vs arbitrary: st)
  case (Cons v vs)
  have "se_budget st - k \<le> se_budget (attempt v st)" using Cons.prems by simp
  moreover have "se_budget (attempt v st) - int (length vs) * k \<le> se_budget (try_counts attempt vs (attempt v st))"
    using Cons.prems by (intro Cons.IH) simp
  moreover have "int (length (v # vs)) * k = k + int (length vs) * k" by (simp add: algebra_simps)
  moreover have "0 \<le> k + int (length vs) * k" using assms(2) by simp
  ultimately show ?case by simp
qed simp

lemma candidates_width:
  assumes "1 \<le> l" "h \<le> 1024" "l \<le> lo" "hi \<le> h" "l \<le> h"
  shows "int (length (orderedCandidates lo hi target)) \<le> h - l + 1"
proof (cases "lo \<le> hi")
  case True
  then show ?thesis using orderedCandidates_all(2) [of lo hi target] assms by simp
next
  case False
  then show ?thesis using assms(5) by (simp add: orderedCandidates_def)
qed

lemma searchNeighbors_used:
  assumes ok: "problem_ok pr" "\<And>name. name \<in> set (pr_component pr) \<Longrightarrow> low_of pr name \<le> high_of pr name"
  shows "counts_in_box pr a \<Longrightarrow> length a + left = length (pr_component pr)
    \<Longrightarrow> se_budget st - (\<Prod>name \<in> set (pr_component pr) - fst ` set a. width pr name)
          \<le> se_budget (searchNeighbors approx wild pr left a st)"
proof (induction left arbitrary: a st)
  case 0
  then show ?case using box_keys(1) [OF ok(1) "0.prems"(1)] by (simp add: judge_budget)
next
  case (Suc left)
  obtain nx lo hi where n: "nx \<in> set (pr_component pr)" "map_of a nx = None" "nx \<noteq> ''''"
      "(lo, hi) = fold (tighten approx wild a nx) (pr_ratios pr) (low_of pr nx, high_of pr nx)"
      "low_of pr nx \<le> lo" "hi \<le> high_of pr nx"
      "set (orderedCandidates lo hi (map_get (pr_desired pr) nx 0)) = {lo..hi}"
    and step: "\<And>st. searchNeighbors approx wild pr (Suc left) a st = (if se_budget st \<le> 0 then st
      else try_counts (\<lambda>v. searchNeighbors approx wild pr left (map_put nx v a))
        (orderedCandidates lo hi (map_get (pr_desired pr) nx 0)) st)"
    by (rule search_step [OF ok(1) Suc.prems(1,2)]) (rule that)
  let ?vs = "orderedCandidates lo hi (map_get (pr_desired pr) nx 0)" and ?rest = "set (pr_component pr) - fst ` set a"
  let ?k = "\<Prod>name \<in> ?rest - {nx}. width pr name"
  have range: "1 \<le> low_of pr nx" "high_of pr nx \<le> 1024" using ok(1) n(1) by (simp_all add: problem_ok_def)
  have pos: "0 \<le> ?k" using ok(2) by (intro prod_nonneg) (simp add: width_def)
  have free: "nx \<in> ?rest" using n(1,2) by (simp add: map_of_eq_None_iff)
  have split: "(\<Prod>name \<in> ?rest. width pr name) = width pr nx * ?k" using free by (intro prod.remove) simp_all
  have keys: "fst ` set (map_put nx v a) = insert nx (fst ` set a)" for v by (simp add: keys_put)
  have len: "int (length ?vs) \<le> width pr nx"
    unfolding width_def using range n(5,6) ok(2) [OF n(1)] by (rule candidates_width)
  have each: "se_budget st - ?k \<le> se_budget (searchNeighbors approx wild pr left (map_put nx v a) st)"
    if v: "v \<in> set ?vs" for v st
  proof -
    have "low_of pr nx \<le> v" "v \<le> high_of pr nx" using v n(5-7) by simp_all
    note put = counts_in_box_put [OF Suc.prems(1) n(1,2) this]
    have l: "length (map_put nx v a) + left = length (pr_component pr)" using put(2) Suc.prems(2) by simp
    have "set (pr_component pr) - fst ` set (map_put nx v a) = ?rest - {nx}" unfolding keys by blast
    then show ?thesis using Suc.IH [OF put(1) l, of st] by (simp only:)
  qed
  have "se_budget st - int (length ?vs) * ?k
      \<le> se_budget (try_counts (\<lambda>v. searchNeighbors approx wild pr left (map_put nx v a)) ?vs st)"
    by (rule try_counts_used [OF each pos])
  moreover have "int (length ?vs) * ?k \<le> width pr nx * ?k" using len pos by (rule mult_right_mono)
  moreover have "0 \<le> width pr nx * ?k" using ok(2) [OF n(1)] pos by (simp add: width_def)
  ultimately show ?case unfolding step split by (simp split: if_split)
qed

lemma anchored_start:
  assumes "problem_ok pr"
  obtains anchor vs where "anchor \<in> set (pr_component pr)" "set vs = {low_of pr anchor..high_of pr anchor}"
    "low_of pr anchor \<le> high_of pr anchor \<Longrightarrow> int (length vs) = width pr anchor"
    "\<And>v. v \<in> set vs \<Longrightarrow> counts_in_box pr [(anchor, v)]" "\<And>v :: int. length [(anchor, v)] + (length (pr_component pr) - 1) = length (pr_component pr)"
    "anchored_search approx wild pr = try_counts (\<lambda>v. searchNeighbors approx wild pr (length (pr_component pr) - 1) [(anchor, v)]) vs
       \<lparr>se_best = None, se_bestScore = (PosInf, PosInf, NegInf), se_budget = 16384\<rparr>"
proof -
  define anchor where "anchor = anchor_of (ratioGraph (pr_ratios pr)) (pr_component pr)"
  define vs where "vs = orderedCandidates (low_of pr anchor) (high_of pr anchor) (map_get (pr_desired pr) anchor 0)"
  have anchor: "anchor \<in> set (pr_component pr)" unfolding anchor_def using assms by (intro anchor_in) (simp add: problem_ok_def)
  have range: "1 \<le> low_of pr anchor" "high_of pr anchor \<le> 1024" using assms anchor by (simp_all add: problem_ok_def)
  have all: "set vs = {low_of pr anchor..high_of pr anchor}"
    "low_of pr anchor \<le> high_of pr anchor \<Longrightarrow> int (length vs) = width pr anchor"
    unfolding vs_def width_def using range by (auto intro!: orderedCandidates_all(2) simp: orderedCandidates_all(1))
  have box: "counts_in_box pr [(anchor, v)]" if "v \<in> set vs" for v
    using that anchor all(1) by (simp add: counts_in_box_def wf_map_def)
  have len: "length [(anchor, v)] + (length (pr_component pr) - 1) = length (pr_component pr)" for v :: int
    using anchor by (cases "pr_component pr") auto
  show thesis
    by (rule that [OF anchor all box len])
      (simp_all add: anchored_search_def anchor_def [symmetric] vs_def modelDeploymentScalerConstraintSearchBudget_def)
qed

lemma anchored_search_finds:
  assumes "problem_ok pr" "desired_ok pr" "exact_vector approx pr t" "(\<Prod>name \<in> set (pr_component pr). width pr name) < 16384"
  shows "best_within (distance pr t) (anchored_search approx wild pr) \<and> best_known approx pr (anchored_search approx wild pr)"
proof -
  obtain anchor vs where s: "anchor \<in> set (pr_component pr)" "set vs = {low_of pr anchor..high_of pr anchor}"
    "low_of pr anchor \<le> high_of pr anchor \<Longrightarrow> int (length vs) = width pr anchor"
    "\<And>v. v \<in> set vs \<Longrightarrow> counts_in_box pr [(anchor, v)]" "\<And>v :: int. length [(anchor, v)] + (length (pr_component pr) - 1) = length (pr_component pr)"
    "anchored_search approx wild pr = try_counts (\<lambda>v. searchNeighbors approx wild pr (length (pr_component pr) - 1) [(anchor, v)]) vs
       \<lparr>se_best = None, se_bestScore = (PosInf, PosInf, NegInf), se_budget = 16384\<rparr>"
    by (rule anchored_start [OF assms(1)]) (rule that)
  let ?at = "\<lambda>v. searchNeighbors approx wild pr (length (pr_component pr) - 1) [(anchor, v)]"
  let ?st = "\<lparr>se_best = None, se_bestScore = (PosInf, PosInf, NegInf), se_budget = 16384\<rparr> :: SearchState"
  let ?k = "\<Prod>name \<in> set (pr_component pr) - {anchor}. width pr name"
  have box: "low_of pr name \<le> t name \<and> t name \<le> high_of pr name" if "name \<in> set (pr_component pr)" for name
    using assms(3) that by (simp add: exact_vector_def)
  then have ne: "low_of pr name \<le> high_of pr name" if "name \<in> set (pr_component pr)" for name using that by fastforce
  have pos: "0 \<le> ?k" using ne by (intro prod_nonneg) (simp add: width_def)
  have used: "se_budget st - ?k \<le> se_budget (?at v st)" if v: "v \<in> set vs" for v st
    using searchNeighbors_used [OF assms(1) ne s(4) [OF v] s(5), of st] by simp
  have "width pr anchor * ?k < 16384" using assms(4) s(1) by (simp add: prod.remove)
  then have left: "0 < se_budget (try_counts ?at vs ?st)"
    using try_counts_used [of vs ?k ?at ?st] used pos s(3) [OF ne [OF s(1)]] by simp
  have start: "best_known approx pr ?st" by (simp add: best_known_def)
  have "best_within (distance pr t) (try_counts ?at vs ?st)"
  proof (rule try_counts_finds [where I = "best_known approx pr" and w = "t anchor"])
    show "best_within (distance pr t) (?at v st)" if "best_within (distance pr t) st" for v st
      using that by (rule searchNeighbors_keeps [rotated]) (rule judge_best_within)
    show "best_known approx pr (?at v st)" if "best_known approx pr st" for v st
      using that by (rule searchNeighbors_keeps [rotated]) (rule judge_best_known)
    show mem: "t anchor \<in> set vs" using box [OF s(1)] s(2) by simp
    show "best_within (distance pr t) (?at (t anchor) st)" if "best_known approx pr st" "0 < se_budget (?at (t anchor) st)" for st
      using searchNeighbors_finds [OF assms(1-3) s(4) [OF mem] s(5)] that by simp
  qed (rule searchNeighbors_budget start left)+
  moreover have "best_known approx pr (try_counts ?at vs ?st)"
    by (rule try_counts_keeps [of vs "best_known approx pr", OF _ start]) (rule searchNeighbors_keeps [where I = "best_known approx pr", OF judge_best_known])
  ultimately show ?thesis unfolding s(6) by blast
qed

text \<open>C37: The projection of coupled roles is the closest one. Within a box of fewer than 16384 vectors (its
  budget), if some vector of the box keeps every ratio of the component exactly, then the search
  returns a vector that covers the component, lies in the box and keeps every ratio as the
  floating-point check reads it, and no exact vector is closer to the desired counts in the sum of the
  absolute differences. The numbers of the ratios are assumed between \<open>2^-20\<close> and \<open>2^20\<close>.
\<close>

theorem projection_closest:
  assumes "problem_ok pr" "desired_ok pr" "exact_vector approx pr t" "(\<Prod>name \<in> set (pr_component pr). width pr name) < 16384"
  shows "\<exists>b. searchComponent approx wild pr = Some b \<and> vector_ok approx pr b
    \<and> distance pr (\<lambda>name. map_get b name 0) \<le> distance pr t"
proof -
  have ne: "\<not> list_ex (\<lambda>name. low_of pr name > high_of pr name) (pr_component pr)"
    using assms(3) by (fastforce simp: exact_vector_def list_ex_iff)
  obtain b where b: "se_best (anchored_search approx wild pr) = Some b"
      "f_le (fst (scoreVector approx b (pr_desired pr) (pr_ratios pr))) (Fin (of_int (distance pr t)))"
    using anchored_search_finds [OF assms, of wild] by (auto simp: best_within_def best_known_def)
  then have found: "searchComponent approx wild pr = Some b" using ne by (simp add: searchComponent_def)
  then have ok: "vector_ok approx pr b" by (rule searchComponent_sound [OF assms(1)])
  then have keys: "counts_in_box pr b" "fst ` set b = set (pr_component pr)" by (simp_all add: vector_ok_def)
  have at: "v = map_get b name 0" if "(name, v) \<in> set b" for name v
    using keys(1) that by (simp add: counts_in_box_def wf_map_def map_get_def)
  have "fst (scoreVector approx b (pr_desired pr) (pr_ratios pr)) = Fin (of_int (distance pr (\<lambda>name. map_get b name 0)))"
    by (rule score_distance [OF assms(1,2) keys]) (rule at)
  then have "distance pr (\<lambda>name. map_get b name 0) \<le> distance pr t" using b(2) by (auto simp: f_le_def f_eq_def)
  then show ?thesis using found ok by blast
qed

text \<open>Two coupled roles: at least two of the first for each of the second, with the bounds as decimals that
  are their own floats.\<close>

definition whole_float :: "Dec \<Rightarrow> f64" where
  "whole_float q = f_of_int (dec_Unscaled q)"

definition pair_ratio :: ScalerRoleRatio where
  "pair_ratio = \<lparr>rr_NumeratorRole = ''a'', rr_DenominatorRole = ''b'', rr_Target = None,
     rr_Min = Some \<lparr>dec_Unscaled = 2, dec_Scale = 0\<rparr>, rr_Max = None\<rparr>"

definition pair_problem :: SearchProblem where
  "pair_problem = \<lparr>pr_ratios = [pair_ratio], pr_component = [''a'', ''b''], pr_low = [(''a'', 1), (''b'', 2)],
     pr_high = [(''a'', 4), (''b'', 3)], pr_desired = [(''a'', 4), (''b'', 3)]\<rparr>"

lemma whole_float_two: "whole_float \<lparr>dec_Unscaled = 2, dec_Scale = 0\<rparr> = Fin 2"
  using f_of_int_small [of 2] by (simp add: whole_float_def)

lemma pair_problem_facts:
  "problem_ok pair_problem" "desired_ok pair_problem"
  "exact_vector whole_float pair_problem (\<lambda>name. if name = ''a'' then 4 else 2)"
  "(\<Prod>name \<in> set (pr_component pair_problem). width pair_problem name) < 16384"
  by (simp_all add: problem_ok_def desired_ok_def exact_vector_def keeps_exactly_def float_tame_def quantityFloat_def
      ratioMaxFloat_def width_def whole_float_two pair_problem_def pair_ratio_def map_get_def)

theorem projection_closest_witness:
  "\<exists>b. searchComponent whole_float (\<lambda>_. 0) pair_problem = Some b \<and> vector_ok whole_float pair_problem b
     \<and> distance pair_problem (\<lambda>name. map_get b name 0) \<le> 1"
  using projection_closest [OF pair_problem_facts, of "\<lambda>_. 0"]
  by (simp add: distance_def [of pair_problem "\<lambda>name. if name = ''a'' then 4 else 2"])
    (simp add: pair_problem_def map_get_def)

end
