(* ===== verification/Constraint_Solver.thy ===== *)
theory Constraint_Solver
  imports Ratio_Components Constraint_Search
begin

text \<open>
  The constraint solver as a whole. The interval of a role lies inside its bounds and around its current
  count, and the guards close it on one side; the grouping of coupled roles returns and is their
  connected component; the counts returned lie in the intervals or are the current ones, and coupled
  roles keep their ratios or stay where they are.
\<close>

section \<open>Intervals\<close>

lemma maxInt32_max: "maxInt32 a b = max a b"
  by (simp add: maxInt32_def max_def)

lemma minInt32_min: "minInt32 a b = min a b"
  by (simp add: minInt32_def min_def)

lemma clamp_inside: "l \<le> h \<Longrightarrow> l \<le> clamp v l h \<and> clamp v l h \<le> h"
  by (simp add: clamp_def)

lemma clamp_id: "l \<le> v \<Longrightarrow> v \<le> h \<Longrightarrow> clamp v l h = v"
  by (simp add: clamp_def)

text \<open>A percentage of a count is rounded up to a whole number of replicas, never below zero.\<close>

lemma percent_of_bounds:
  assumes "1 \<le> current" "current \<le> 1024" "0 < p" "p \<le> 1000000"
  shows "0 \<le> percent_of wild current p" "percent_of wild current p \<le> current * p"
proof -
  define k where "k = current * p"
  have k: "0 < k" "k \<le> 1024000000" using assms mult_mono [of current 1024 p 1000000] by (simp_all add: k_def)
  have "f_of_int current = Fin (of_int current)" "f_of_int p = Fin (of_int p)"
    using assms by (auto intro!: f_of_int_small)
  moreover have "round64 (of_int k) = Fin (of_int k)" using k by (intro round64_int) simp
  ultimately have prod: "f_mul (f_of_int current) (f_of_int p) = Fin (of_int k)" by (simp add: k_def)
  obtain y where y: "round64 (of_int k / 100) = Fin y" "0 \<le> y" "y \<le> of_int k"
    using round64_between [of 0 "of_int k / 100" k] k by auto
  have c: "0 \<le> \<lceil>y\<rceil>" "\<lceil>y\<rceil> \<le> k" using y(2,3) by (simp_all add: ceiling_le_iff)
  then have "int_of 32 wild (Fin (of_int \<lceil>y\<rceil>)) = \<lceil>y\<rceil>" using k(2) by (intro int_of_32) linarith+
  then have "percent_of wild current p = \<lceil>y\<rceil>" by (simp add: percent_of_def prod y(1))
  then show "0 \<le> percent_of wild current p" "percent_of wild current p \<le> current * p" using c by (simp_all add: k_def)
qed

definition step_ok :: "StepPolicy option \<Rightarrow> bool" where
  "step_ok policy \<longleftrightarrow> (\<forall>p. policy = Some p \<longrightarrow> sp_Value p \<le> 1000000)"

lemma stepAmount_bounds:
  assumes "1 \<le> current" "current \<le> 1024" "sp_Value p \<le> 1000000"
  shows "0 \<le> stepAmount wild current p" "stepAmount wild current p \<le> 1024000000"
proof -
  have "0 \<le> percent_of wild current v \<and> percent_of wild current v \<le> 1024000000" if "0 < v" "v \<le> 1000000" for v
  proof -
    have "current * v \<le> 1024 * 1000000" using assms(1,2) that by (intro mult_mono) auto
    then show ?thesis using percent_of_bounds [OF assms(1,2) that, of wild] by simp
  qed
  then show "0 \<le> stepAmount wild current p" "stepAmount wild current p \<le> 1024000000"
    using assms(3) by (auto simp: stepAmount_def)
qed

lemma role_interval_bounds:
  assumes "1 \<le> sb_MinReplicas bound" "sb_MinReplicas bound \<le> sb_MaxReplicas bound" "sb_MaxReplicas bound \<le> 1024"
    "step_ok (sd_StepPolicy (ci_ScaleDown input))" "roleInterval wild input role bound history = (lo, hi)"
  defines "current \<equiv> clamp (rs_CurrentReplicas role) (sb_MinReplicas bound) (sb_MaxReplicas bound)"
  shows "sb_MinReplicas bound \<le> lo" "lo \<le> current" "current \<le> hi" "hi \<le> sb_MaxReplicas bound"
    "scale_down_guard input role \<or> decode_grace input role \<Longrightarrow> lo = current"
    "rs_HasPendingUnadmittedWorkload role \<Longrightarrow> hi = current"
    "sd_StepPolicy (ci_ScaleDown input) = None \<Longrightarrow> current - 1 \<le> lo"
    "hi \<le> max current (step_ceiling wild (ci_ScaleUp input) current)"
proof -
  define mn mx where "mn = sb_MinReplicas bound" and "mx = sb_MaxReplicas bound"
  have b: "1 \<le> mn" "mn \<le> mx" "mx \<le> 1024" using assms(1-3) by (simp_all add: mn_def mx_def)
  have cur: "mn \<le> current" "current \<le> mx" using clamp_inside [OF b(2)] by (simp_all add: current_def mn_def mx_def)
  define c0 where "c0 = clamp (step_ceiling wild (ci_ScaleUp input) current) current mx"
  define c1 where "c1 = (if rs_HasPendingUnadmittedWorkload role then minInt32 c0 current else c0)"
  define c2 where "c2 = (if 0 < su_StabilizationWindowSeconds (ci_ScaleUp input) \<and> rs_RawRecommendedReplicas role > current
      \<and> \<not> historySpans history (ci_Now input) (su_StabilizationWindowSeconds (ci_ScaleUp input) * second) then minInt32 c1 current else c1)"
  define window where "window = (if sd_StabilizationWindowSeconds (ci_ScaleDown input) * second \<le> 0
      then modelDeploymentScalerDefaultScaleDownWindow else sd_StabilizationWindowSeconds (ci_ScaleDown input) * second)"
  define s where "s = (case sd_StepPolicy (ci_ScaleDown input) of None \<Rightarrow> wrap32 (current - 1)
      | Some policy \<Rightarrow> wrap32 (current - stepAmount wild current policy))"
  define f0 where "f0 = maxInt32 s mn"
  define f1 where "f1 = (if \<not> historySpans history (ci_Now input) window then maxInt32 f0 current
      else case rollingMaximum history (ci_Now input) window of None \<Rightarrow> f0
        | Some m \<Rightarrow> if m \<ge> current then maxInt32 f0 current else maxInt32 f0 (minInt32 current m))"
  define f2 where "f2 = (if scale_down_guard input role then maxInt32 f1 current else f1)"
  define f3 where "f3 = (if decode_grace input role then maxInt32 f2 current else f2)"
  have pos: "(sb_MinReplicas bound \<le> 0) = False" "(sb_MaxReplicas bound < sb_MinReplicas bound) = False" using assms(1,2) by simp_all
  have "roleInterval wild input role bound history = (clamp f3 mn mx, clamp c2 mn mx)"
    unfolding f3_def f2_def f1_def f0_def s_def window_def c2_def c1_def c0_def current_def mn_def mx_def roleInterval_def Let_def pos if_False ..
  then have eq: "lo = clamp f3 mn mx" "hi = clamp c2 mn mx" using assms(5) by simp_all
  have s: "s \<le> current" "sd_StepPolicy (ci_ScaleDown input) = None \<Longrightarrow> s = current - 1"
  proof -
    show "s = current - 1" if "sd_StepPolicy (ci_ScaleDown input) = None"
      using that cur b by (auto simp: s_def int32_def intro!: wrap32_id)
    have "wrap32 (current - stepAmount wild current p) \<le> current" if "sp_Value p \<le> 1000000" for p
      using stepAmount_bounds [of current p wild] that cur b by (subst wrap32_id) (auto simp: int32_def)
    then show "s \<le> current"
      using \<open>sd_StepPolicy (ci_ScaleDown input) = None \<Longrightarrow> s = current - 1\<close> assms(4)
      by (cases "sd_StepPolicy (ci_ScaleDown input)") (auto simp: s_def step_ok_def)
  qed
  have f0: "mn \<le> f0" "f0 \<le> current" "s \<le> f0" using s(1) cur by (simp_all add: f0_def maxInt32_max)
  have f1: "f0 \<le> f1" "f1 \<le> current" using f0(2) by (auto simp: f1_def maxInt32_max minInt32_min split: option.split)
  have f2: "f1 \<le> f2" "f2 \<le> current" using f1(2) by (auto simp: f2_def maxInt32_max)
  have f3: "f2 \<le> f3" "f3 \<le> current" using f2(2) by (auto simp: f3_def maxInt32_max)
  have lo: "lo = f3" unfolding eq by (rule clamp_id) (use f0 f1 f2 f3 cur in linarith)+
  have c0: "current \<le> c0" "c0 \<le> mx" "c0 \<le> max current (step_ceiling wild (ci_ScaleUp input) current)"
    using clamp_inside [OF cur(2)] cur by (auto simp: c0_def clamp_def)
  have c1: "current \<le> c1" "c1 \<le> c0" using c0 by (auto simp: c1_def minInt32_min)
  have c2: "current \<le> c2" "c2 \<le> c1" using c1 by (auto simp: c2_def minInt32_min)
  have hi: "hi = c2" unfolding eq by (rule clamp_id) (use c0 c1 c2 cur in linarith)+
  show "sb_MinReplicas bound \<le> lo" "lo \<le> current" using lo f0 f1 f2 f3 by (simp_all add: mn_def)
  show "current \<le> hi" "hi \<le> sb_MaxReplicas bound" using hi c0 c1 c2 by (simp_all add: mx_def)
  show "hi \<le> max current (step_ceiling wild (ci_ScaleUp input) current)" using hi c0(3) c1(2) c2(2) by linarith
  show "lo = current" if "scale_down_guard input role \<or> decode_grace input role"
    using that f2 f3 by (auto simp: lo f3_def f2_def maxInt32_max split: if_splits)
  show "hi = current" if "rs_HasPendingUnadmittedWorkload role" using that c1 c2 c0 by (auto simp: hi c1_def minInt32_min)
  show "current - 1 \<le> lo" if "sd_StepPolicy (ci_ScaleDown input) = None" using s(2) [OF that] f0 f1 f2 f3 lo by simp
qed

section \<open>Coupled roles\<close>

definition edges :: "(string, string list) gomap \<Rightarrow> (string \<times> string) set" where
  "edges graph = {(a, b). b \<in> set (map_get graph a [])}"

definition visited :: "(string, string list) gomap \<Rightarrow> string set \<Rightarrow> string list \<Rightarrow> string set \<Rightarrow> string list \<Rightarrow> string set \<Rightarrow> bool" where
  "visited graph nodes names seen c seen' \<longleftrightarrow> seen' = seen \<union> set c \<and> distinct c \<and> set c \<inter> seen = {} \<and> set c \<subseteq> nodes
     \<and> set names \<subseteq> seen' \<and> edges graph `` set c \<subseteq> seen' \<and> set c \<subseteq> (edges graph)\<^sup>* `` set names"

lemma visited_step:
  assumes "visited graph nodes (map_get graph nx []) (insert nx seen) below seen1" "visited graph nodes rest seen1 others seen2"
    "nx \<in> nodes" "nx \<notin> seen"
  shows "visited graph nodes (nx # rest) seen ((nx # below) @ others) seen2"
proof -
  have "(edges graph)\<^sup>* `` set (map_get graph nx []) \<subseteq> (edges graph)\<^sup>* `` {nx}"
    by (auto simp: edges_def intro: converse_rtrancl_into_rtrancl)
  moreover have "set below \<subseteq> (edges graph)\<^sup>* `` set (map_get graph nx [])" using assms(1) by (simp add: visited_def)
  ultimately have reach: "set below \<subseteq> (edges graph)\<^sup>* `` {nx}" by (rule order_trans [rotated])
  have seen1: "seen1 = insert nx seen \<union> set below" and b: "distinct below" "set below \<inter> insert nx seen = {}" "set below \<subseteq> nodes"
      "edges graph `` set below \<subseteq> seen1" "set (map_get graph nx []) \<subseteq> seen1"
    using assms(1) unfolding visited_def by blast+
  have seen2: "seen2 = seen1 \<union> set others" and o: "distinct others" "set others \<inter> seen1 = {}" "set others \<subseteq> nodes"
      "set rest \<subseteq> seen2" "edges graph `` set others \<subseteq> seen2" "set others \<subseteq> (edges graph)\<^sup>* `` set rest"
    using assms(2) unfolding visited_def by blast+
  show ?thesis unfolding visited_def
  proof (intro conjI)
    show "seen2 = seen \<union> set ((nx # below) @ others)" unfolding seen1 seen2 by auto
    show "distinct ((nx # below) @ others)" using b(1,2) o(1,2) seen1 by auto
    show "set ((nx # below) @ others) \<inter> seen = {}" using b(2) o(2) seen1 assms(4) by auto
    show "set ((nx # below) @ others) \<subseteq> nodes" using assms(3) b(3) o(3) by simp
    show "set (nx # rest) \<subseteq> seen2" using o(4) seen1 seen2 by simp
    have "edges graph `` {nx} \<subseteq> seen1" using b(5) by (auto simp: edges_def)
    then show "edges graph `` set ((nx # below) @ others) \<subseteq> seen2" using b(4) o(5) seen2 by auto
    show "set ((nx # below) @ others) \<subseteq> (edges graph)\<^sup>* `` set (nx # rest)" using reach o(6) by auto
  qed
qed

text \<open>The search visits what is reachable and not seen, and returns.\<close>

lemma visit_unseen_returns:
  assumes "finite nodes" "edges graph `` nodes \<subseteq> nodes" "set names \<subseteq> nodes"
  shows "\<exists>c seen'. visit_unseen graph names seen = Some (c, seen') \<and> visited graph nodes names seen c seen'"
  using assms(3)
proof (induction "card (nodes - seen)" arbitrary: names seen rule: less_induct)
  case less
  note outer = less.hyps
  show ?case using less.prems
  proof (induction names)
    case Nil
    then show ?case by (simp add: visit_unseen.simps visited_def)
  next
    case (Cons nx rest)
    show ?case
    proof (cases "nx \<in> seen")
      case True
      obtain c seen' where "visit_unseen graph rest seen = Some (c, seen')" "visited graph nodes rest seen c seen'"
        using Cons by auto
      then show ?thesis using True by (subst visit_unseen.simps) (auto simp: visited_def)
    next
      case False
      have smaller: "card (nodes - s) < card (nodes - seen)" if "insert nx seen \<subseteq> s" for s
        using that False Cons.prems assms(1) by (intro psubset_card_mono) auto
      have "set (map_get graph nx []) \<subseteq> nodes" using assms(2) Cons.prems by (auto simp: edges_def)
      then obtain below seen1 where one: "visit_unseen graph (map_get graph nx []) (insert nx seen) = Some (below, seen1)"
          "visited graph nodes (map_get graph nx []) (insert nx seen) below seen1"
        using outer [OF smaller [OF subset_refl]] by blast
      have "insert nx seen \<subseteq> seen1" using one(2) by (auto simp: visited_def)
      from outer [OF smaller [OF this], of rest] obtain others seen2 where two: "visit_unseen graph rest seen1 = Some (others, seen2)"
          "visited graph nodes rest seen1 others seen2"
        using Cons.prems by auto
      have "visit_unseen graph (nx # rest) seen = Some ((nx # below) @ others, seen2)"
        using False one(1) two(1) by (subst visit_unseen.simps) simp
      moreover have "visited graph nodes (nx # rest) seen ((nx # below) @ others) seen2"
        using one(2) two(2) False Cons.prems by (intro visited_step) auto
      ultimately show ?thesis by blast
    qed
  qed
qed

lemma edges_sym: "(a, b) \<in> edges (ratioGraph ratios) \<Longrightarrow> (b, a) \<in> edges (ratioGraph ratios)"
  unfolding edges_def mem_Collect_eq prod.case ratioGraph_adjacent by blast

definition ratio_roles :: "ScalerRoleRatio list \<Rightarrow> string set" where
  "ratio_roles ratios = rr_NumeratorRole ` set ratios \<union> rr_DenominatorRole ` set ratios"

lemma edges_roles: "(a, b) \<in> edges (ratioGraph ratios) \<Longrightarrow> a \<in> ratio_roles ratios \<and> b \<in> ratio_roles ratios"
  unfolding edges_def mem_Collect_eq prod.case ratioGraph_adjacent ratio_roles_def by blast

text \<open>A component is the set of roles that ratios couple with its first one.\<close>

lemma connectedComponent_exact:
  assumes "edges (ratioGraph ratios) `` seen \<subseteq> seen" "start \<notin> seen"
  shows "\<exists>c. connectedComponent start (ratioGraph ratios) seen = Some (c, seen \<union> set c) \<and> distinct c
    \<and> set c = (edges (ratioGraph ratios))\<^sup>* `` {start} \<and> set c \<inter> seen = {}
    \<and> edges (ratioGraph ratios) `` (seen \<union> set c) \<subseteq> seen \<union> set c"
proof -
  let ?g = "ratioGraph ratios" and ?E = "edges (ratioGraph ratios)" and ?N = "insert start (ratio_roles ratios)"
  have "finite ?N" "?E `` ?N \<subseteq> ?N" "set (map_get ?g start []) \<subseteq> ?N"
    using edges_roles by (auto simp: ratio_roles_def edges_def)
  then obtain c seen' where c: "visit_unseen ?g (map_get ?g start []) (insert start seen) = Some (c, seen')"
      "visited ?g ?N (map_get ?g start []) (insert start seen) c seen'"
    using visit_unseen_returns by blast
  have "visited ?g ?N [] seen' [] seen'" by (simp add: visited_def)
  from visited_step [OF c(2) this] have v: "visited ?g ?N [start] seen (start # c) seen'" using assms(2) by simp
  have seen': "seen' = seen \<union> set (start # c)" and fresh: "set (start # c) \<inter> seen = {}"
    and closed: "?E `` set (start # c) \<subseteq> seen'" and reach: "set (start # c) \<subseteq> ?E\<^sup>* `` set [start]" and dist: "distinct (start # c)"
    using v unfolding visited_def by blast+
  have stay: "y \<in> set (start # c)" if "x \<in> set (start # c)" "(x, y) \<in> ?E" for x y
  proof -
    have "y \<in> seen'" using that closed by blast
    moreover have "y \<notin> seen" using that edges_sym [OF that(2)] assms(1) fresh by blast
    ultimately show ?thesis using seen' by blast
  qed
  have "x \<in> set (start # c)" if "(start, x) \<in> ?E\<^sup>*" for x
    using that
  proof (induction rule: rtrancl_induct)
    case (step y z)
    then show ?case using stay by blast
  qed simp
  then have "set (start # c) = ?E\<^sup>* `` {start}" using reach by auto
  moreover have "?E `` (seen \<union> set (start # c)) \<subseteq> seen \<union> set (start # c)" using assms(1) stay by blast
  ultimately show ?thesis
    using c(1) seen' fresh dist by (auto simp: connectedComponent_def)
qed

section \<open>Projection of a component\<close>

lemma put_all_get: "map_get (put_all names f m) name d = (if name \<in> set names then f name else map_get m name d)"
  unfolding put_all_def by (induction names arbitrary: m) (auto simp: map_get_put)

lemma put_all_map_of: "map_of (put_all names f m) name = (if name \<in> set names then Some (f name) else map_of m name)"
  unfolding put_all_def by (induction names arbitrary: m) (auto simp: map_of_put)

lemma put_all_keys: "fst ` set (put_all names f m) = set names \<union> fst ` set m"
  unfolding put_all_def by (induction names arbitrary: m) (auto simp: keys_put)

lemma ratio_kept_cong:
  assumes "map_get a (rr_NumeratorRole ratio) 0 = map_get b (rr_NumeratorRole ratio) 0"
    "map_get a (rr_DenominatorRole ratio) 0 = map_get b (rr_DenominatorRole ratio) 0"
  shows "ratio_kept approx a ratio = ratio_kept approx b ratio"
  using assms by (simp add: ratio_kept_def)

lemma satisfied_inside:
  assumes "ratiosSatisfied approx values ratios" "ratio \<in> set ratios"
  shows "rr_DenominatorRole ratio \<in> fst ` set values"
proof (rule ccontr)
  assume "rr_DenominatorRole ratio \<notin> fst ` set values"
  then have "map_of values (rr_DenominatorRole ratio) = None" by (simp add: map_of_eq_None_iff)
  then have "map_get values (rr_DenominatorRole ratio) 0 = 0" by (simp add: map_get_def)
  then have "\<not> ratio_kept approx values ratio" by (simp add: ratio_kept_def)
  then show False using assms by (simp add: ratiosSatisfied_def list_all_iff)
qed

text \<open>A set of roles that no ratio leaves, with intervals between 1 and 1024.\<close>

definition component_closed :: "ScalerRoleRatio list \<Rightarrow> string list \<Rightarrow> (string, ReplicaInterval) gomap \<Rightarrow> bool" where
  "component_closed ratios component intervals \<longleftrightarrow> component \<noteq> [] \<and> distinct component \<and> '''' \<notin> set component
     \<and> (\<forall>ratio \<in> set ratios. rr_NumeratorRole ratio \<in> set component \<longleftrightarrow> rr_DenominatorRole ratio \<in> set component)
     \<and> (\<forall>name \<in> set component. 1 \<le> ri_Floor (map_get intervals name zero_interval)
          \<and> ri_Ceil (map_get intervals name zero_interval) \<le> 1024)"

lemma component_problem:
  assumes "component_closed ratios component intervals"
    "\<And>name. name \<in> set component \<Longrightarrow> ri_Floor (map_get intervals name zero_interval) \<le> lo name \<and> hi name \<le> ri_Ceil (map_get intervals name zero_interval)"
  shows "problem_ok \<lparr>pr_ratios = ratios, pr_component = sort component, pr_low = put_all (sort component) lo [],
           pr_high = put_all (sort component) hi [], pr_desired = desired\<rparr>"
proof -
  have "1 \<le> lo name \<and> hi name \<le> 1024" if n: "name \<in> set component" for name
  proof -
    have "1 \<le> ri_Floor (map_get intervals name zero_interval)" "ri_Ceil (map_get intervals name zero_interval) \<le> 1024"
      using assms(1) n by (simp_all add: component_closed_def)
    then show ?thesis using assms(2) [OF n] by linarith
  qed
  moreover have "sort component \<noteq> []" using assms(1) by (metis component_closed_def set_empty set_sort)
  ultimately show ?thesis using assms(1) by (simp add: component_closed_def problem_ok_def put_all_get)
qed

lemma vector_values:
  assumes "vector_ok approx pr b" "name \<in> set (pr_component pr)"
  shows "low_of pr name \<le> map_get b name 0" "map_get b name 0 \<le> high_of pr name"
proof -
  have "name \<in> fst ` set b" using assms by (simp add: vector_ok_def)
  then obtain v where "map_of b name = Some v" by (metis map_of_eq_None_iff not_None_eq)
  then have "(name, v) \<in> set b" "map_get b name 0 = v" by (simp_all add: map_of_SomeD map_get_def)
  then show "low_of pr name \<le> map_get b name 0" "map_get b name 0 \<le> high_of pr name"
    using assms(1) by (auto simp: vector_ok_def counts_in_box_def)
qed

abbreviation current_of :: "(string, ScalerRoleState) gomap \<Rightarrow> string \<Rightarrow> int" where
  "current_of states name \<equiv> rs_CurrentReplicas (map_get states name zero_state)"

abbreviation replicas_of :: "ConstraintResult \<Rightarrow> string \<Rightarrow> int" where
  "replicas_of result name \<equiv> map_get (cr_Replicas result) name 0"

abbreviation interval_of :: "ConstraintResult \<Rightarrow> string \<Rightarrow> ReplicaInterval" where
  "interval_of result name \<equiv> map_get (cr_Intervals result) name zero_interval"

text \<open>Every role keeps its count, with a reason when a ratio lies outside the component.\<close>

definition all_held :: "ScalerRoleRatio list \<Rightarrow> string list \<Rightarrow> (string, ScalerRoleState) gomap \<Rightarrow> ConstraintResult \<Rightarrow> bool" where
  "all_held ratios component states result \<longleftrightarrow>
     (\<forall>name \<in> set component. replicas_of result name = current_of states name)
     \<and> ((\<exists>ratio \<in> set ratios. rr_DenominatorRole ratio \<notin> set component) \<longrightarrow>
          (\<forall>name \<in> set component. map_of (cr_Reasons result) name = Some reasonRatioConflict))"

text \<open>Every role lies in its interval, and every ratio is one of the component and kept.\<close>

definition all_moved :: "(Dec \<Rightarrow> f64) \<Rightarrow> ScalerRoleRatio list \<Rightarrow> string list \<Rightarrow> ConstraintResult \<Rightarrow> bool" where
  "all_moved approx ratios component result \<longleftrightarrow>
     (\<forall>name \<in> set component. ri_Floor (interval_of result name) \<le> replicas_of result name
        \<and> replicas_of result name \<le> ri_Ceil (interval_of result name))
     \<and> (\<forall>ratio \<in> set ratios. rr_NumeratorRole ratio \<in> set component \<and> rr_DenominatorRole ratio \<in> set component
        \<and> ratio_kept approx (cr_Replicas result) ratio)"

lemma projectComponent_outcome:
  assumes "component_closed ratios component (cr_Intervals result)"
    "result' = projectComponent approx wild ratios component states result"
  shows "cr_Intervals result' = cr_Intervals result" "cr_BlockingReason result' = cr_BlockingReason result"
    "name \<notin> set component \<Longrightarrow> replicas_of result' name = replicas_of result name \<and> map_of (cr_Reasons result') name = map_of (cr_Reasons result) name"
    "all_held ratios component states result' \<or> all_moved approx ratios component result'"
proof -
  let ?C = "sort component"
  define raw where "raw name = rs_RawRecommendedReplicas (map_get states name zero_state)" for name
  define up where "up \<longleftrightarrow> list_ex (\<lambda>name. raw name > current_of states name) ?C"
  define down where "down \<longleftrightarrow> list_ex (\<lambda>name. raw name < current_of states name) ?C"
  define lo where "lo name = (if up then maxInt32 (ri_Floor (interval_of result name)) (current_of states name)
      else ri_Floor (interval_of result name))" for name
  define hi where "hi name = (if up then ri_Ceil (interval_of result name)
      else minInt32 (ri_Ceil (interval_of result name)) (current_of states name))" for name
  define pr where "pr = \<lparr>pr_ratios = ratios, pr_component = ?C, pr_low = put_all ?C lo [], pr_high = put_all ?C hi [],
      pr_desired = put_all ?C (\<lambda>name. clamp (raw name) (lo name) (hi name)) []\<rparr>"
  define full where "full = pr\<lparr>pr_low := put_all ?C (\<lambda>name. ri_Floor (interval_of result name)) [],
      pr_high := put_all ?C (\<lambda>name. ri_Ceil (interval_of result name)) []\<rparr>"
  have unfolded: "result' = (if \<not> up \<and> \<not> down
      then let r = result\<lparr>cr_Replicas := put_all ?C (current_of states) (cr_Replicas result)\<rparr>
        in if \<not> ratiosSatisfied approx (put_all ?C (current_of states) []) ratios
           then r\<lparr>cr_Reasons := put_all ?C (\<lambda>_. reasonRatioConflict) (cr_Reasons r)\<rparr> else r
      else case searchComponent approx wild pr of
          None \<Rightarrow> result\<lparr>cr_Replicas := put_all ?C (current_of states) (cr_Replicas result),
             cr_Reasons := put_all ?C (\<lambda>_. if searchComponent approx wild full \<noteq> None then reasonPacingBounded else reasonRatioConflict) (cr_Reasons result)\<rparr>
        | Some best \<Rightarrow> result\<lparr>cr_Replicas := put_all ?C (\<lambda>name. map_get best name 0) (cr_Replicas result),
             cr_Reasons := put_all (filter (\<lambda>name. map_get best name 0 \<noteq> clamp (raw name) (lo name) (hi name)
                 \<or> map_get best name 0 = current_of states name \<and> clamp (raw name) (lo name) (hi name) \<noteq> current_of states name) ?C)
               (\<lambda>_. reasonPacingBounded) (cr_Reasons result)\<rparr>)"
    unfolding assms(2) projectComponent_def Let_def raw_def up_def down_def lo_def hi_def pr_def full_def by (simp only: SearchProblem.update_convs)
  have ok: "problem_ok pr" unfolding pr_def
    by (rule component_problem [OF assms(1)]) (simp add: lo_def hi_def maxInt32_max minInt32_min)
  have ok': "problem_ok full" unfolding full_def pr_def SearchProblem.update_convs
    by (rule component_problem [OF assms(1)]) simp
  have C: "pr_component pr = ?C" "pr_component full = ?C" "pr_ratios pr = ratios" "pr_ratios full = ratios" by (simp_all add: pr_def full_def)
  show "cr_Intervals result' = cr_Intervals result" "cr_BlockingReason result' = cr_BlockingReason result"
    "name \<notin> set component \<Longrightarrow> replicas_of result' name = replicas_of result name \<and> map_of (cr_Reasons result') name = map_of (cr_Reasons result) name"
    unfolding unfolded by (simp_all add: Let_def put_all_get put_all_map_of split: option.split)
  have none: "searchComponent approx wild q = None"
    if "problem_ok q" "pr_component q = ?C" "pr_ratios q = ratios" "ratio \<in> set ratios" "rr_DenominatorRole ratio \<notin> set component" for q ratio
  proof (cases "searchComponent approx wild q")
    case (Some b)
    then have "vector_ok approx q b" using searchComponent_sound that(1) by blast
    then show ?thesis using satisfied_inside [of approx b ratios ratio] that by (simp add: vector_ok_def)
  qed
  have unsat: "\<not> ratiosSatisfied approx (put_all ?C f []) ratios"
    if "ratio \<in> set ratios" "rr_DenominatorRole ratio \<notin> set component" for ratio f
  proof -
    have "fst ` set (put_all ?C f []) = set component" by (simp add: put_all_keys)
    then show ?thesis using satisfied_inside that by blast
  qed
  show "all_held ratios component states result' \<or> all_moved approx ratios component result'"
  proof (cases "(\<not> up \<and> \<not> down) \<or> searchComponent approx wild pr = None")
    case True
    then have "replicas_of result' name = current_of states name" if "name \<in> set component" for name
      using that by (auto simp: unfolded Let_def put_all_get)
    moreover have "map_of (cr_Reasons result') name = Some reasonRatioConflict"
      if r: "ratio \<in> set ratios" "rr_DenominatorRole ratio \<notin> set component" and n: "name \<in> set component" for ratio name
      using n True none [OF ok C(1,3) r] none [OF ok' C(2,4) r] unsat [OF r]
      by (auto simp: unfolded Let_def put_all_map_of)
    ultimately have "all_held ratios component states result'" unfolding all_held_def by blast
    then show ?thesis ..
  next
    case False
    then obtain b where b: "searchComponent approx wild pr = Some b" by auto
    then have v: "vector_ok approx pr b" using searchComponent_sound ok by blast
    have val: "replicas_of result' name = map_get b name 0" if "name \<in> set component" for name
    proof -
      have cond: "(\<not> up \<and> \<not> down) = False" using False by simp
      show ?thesis using that unfolding unfolded cond b if_False option.case by (simp add: put_all_get)
    qed
    have "interval_of result' name = interval_of result name" for name by (simp add: unfolded Let_def split: option.split)
    moreover have "ri_Floor (interval_of result name) \<le> map_get b name 0 \<and> map_get b name 0 \<le> ri_Ceil (interval_of result name)"
      if "name \<in> set component" for name
      using vector_values [OF v, of name] that
      by (simp add: pr_def put_all_get lo_def hi_def maxInt32_max minInt32_min split: if_splits)
    moreover have "rr_NumeratorRole ratio \<in> set component \<and> rr_DenominatorRole ratio \<in> set component
        \<and> ratio_kept approx (cr_Replicas result') ratio" if r: "ratio \<in> set ratios" for ratio
    proof -
      have sat: "ratiosSatisfied approx b ratios" "fst ` set b = set component" using v by (simp_all add: vector_ok_def C)
      have inside: "rr_DenominatorRole ratio \<in> set component" "rr_NumeratorRole ratio \<in> set component"
        using satisfied_inside [OF sat(1) r] sat(2) assms(1) r by (auto simp: component_closed_def)
      have "ratio_kept approx b ratio" using sat(1) r by (simp add: ratiosSatisfied_def list_all_iff)
      then show ?thesis using inside val ratio_kept_cong [of "cr_Replicas result'" ratio b approx] by simp
    qed
    ultimately have "all_moved approx ratios component result'" using val by (simp add: all_moved_def)
    then show ?thesis ..
  qed
qed

section \<open>All components\<close>

text \<open>The outcome for a ratio: both roles are held, or the ratio is kept. Held roles carry the reason for
  it when some ratio belongs to another component.\<close>

definition ratio_settled :: "(Dec \<Rightarrow> f64) \<Rightarrow> ScalerRoleRatio list \<Rightarrow> (string, ScalerRoleState) gomap \<Rightarrow> ConstraintResult \<Rightarrow> ScalerRoleRatio \<Rightarrow> bool" where
  "ratio_settled approx ratios states result ratio \<longleftrightarrow>
     (replicas_of result (rr_NumeratorRole ratio) = current_of states (rr_NumeratorRole ratio)
      \<and> replicas_of result (rr_DenominatorRole ratio) = current_of states (rr_DenominatorRole ratio)
      \<and> ((\<exists>other \<in> set ratios. (rr_NumeratorRole ratio, rr_NumeratorRole other) \<notin> (edges (ratioGraph ratios))\<^sup>*)
           \<longrightarrow> map_of (cr_Reasons result) (rr_NumeratorRole ratio) = Some reasonRatioConflict))
     \<or> (ratio_kept approx (cr_Replicas result) ratio
      \<and> (\<forall>other \<in> set ratios. (rr_NumeratorRole ratio, rr_NumeratorRole other) \<in> (edges (ratioGraph ratios))\<^sup>*))"

definition settled :: "(Dec \<Rightarrow> f64) \<Rightarrow> ScalerRoleRatio list \<Rightarrow> (string, ScalerRoleState) gomap \<Rightarrow> string set \<Rightarrow> ConstraintResult \<Rightarrow> bool" where
  "settled approx ratios states seen result \<longleftrightarrow>
     (\<forall>name \<in> seen. replicas_of result name = current_of states name
        \<or> ri_Floor (interval_of result name) \<le> replicas_of result name \<and> replicas_of result name \<le> ri_Ceil (interval_of result name))
     \<and> (\<forall>name \<in> seen - ratio_roles ratios. replicas_of result name
          = clamp (rs_RawRecommendedReplicas (map_get states name zero_state)) (ri_Floor (interval_of result name)) (ri_Ceil (interval_of result name)))
     \<and> (\<forall>ratio \<in> set ratios. rr_NumeratorRole ratio \<in> seen \<longrightarrow> ratio_settled approx ratios states result ratio)"

lemma ratio_edge: "ratio \<in> set ratios \<Longrightarrow> (rr_NumeratorRole ratio, rr_DenominatorRole ratio) \<in> edges (ratioGraph ratios)"
  unfolding edges_def mem_Collect_eq prod.case ratioGraph_adjacent by blast

lemma settled_keep:
  assumes "settled approx ratios states seen result" "edges (ratioGraph ratios) `` seen \<subseteq> seen"
    "\<And>name. name \<in> seen \<Longrightarrow> replicas_of result' name = replicas_of result name \<and> map_of (cr_Reasons result') name = map_of (cr_Reasons result) name"
    "cr_Intervals result' = cr_Intervals result"
  shows "settled approx ratios states seen result'"
proof -
  have "ratio_settled approx ratios states result' ratio"
    if r: "ratio \<in> set ratios" "rr_NumeratorRole ratio \<in> seen" for ratio
  proof -
    have d: "rr_DenominatorRole ratio \<in> seen" using ratio_edge [OF r(1)] r(2) assms(2) by blast
    have "ratio_settled approx ratios states result ratio" using assms(1) r by (simp add: settled_def)
    then show ?thesis
      using assms(3) [OF r(2)] assms(3) [OF d] ratio_kept_cong [of "cr_Replicas result'" ratio "cr_Replicas result" approx]
      unfolding ratio_settled_def by simp
  qed
  then show ?thesis using assms(1,3,4) unfolding settled_def by simp
qed

lemma settled_union: "settled approx ratios states (a \<union> b) result
    \<longleftrightarrow> settled approx ratios states a result \<and> settled approx ratios states b result"
  unfolding settled_def by blast

lemma project_settled:
  assumes "component_closed ratios c (cr_Intervals result)" "set c = (edges (ratioGraph ratios))\<^sup>* `` {start}" "set c \<subseteq> ratio_roles ratios"
    "result' = projectComponent approx wild ratios c states result"
  shows "settled approx ratios states (set c) result'"
proof -
  let ?E = "edges (ratioGraph ratios)"
  have sym: "sym (?E\<^sup>*)" using edges_sym by (intro sym_rtrancl) (auto simp: sym_def)
  have joined: "(a, b) \<in> ?E\<^sup>*" if "a \<in> set c" "b \<in> set c" for a b
    using that assms(2) symD [OF sym] by (auto intro: rtrancl_trans)
  have leaves: "rr_DenominatorRole other \<notin> set c"
    if "a \<in> set c" "other \<in> set ratios" "(a, rr_NumeratorRole other) \<notin> ?E\<^sup>*" for a other
  proof
    assume "rr_DenominatorRole other \<in> set c"
    then have "(a, rr_DenominatorRole other) \<in> ?E\<^sup>*" using joined that(1) by blast
    moreover have "(rr_DenominatorRole other, rr_NumeratorRole other) \<in> ?E" using ratio_edge [OF that(2)] edges_sym by blast
    ultimately show False using that(3) by (meson rtrancl.rtrancl_into_rtrancl)
  qed
  have settle: "ratio_settled approx ratios states result' ratio" if r: "ratio \<in> set ratios" "rr_NumeratorRole ratio \<in> set c" for ratio
  proof -
    have d: "rr_DenominatorRole ratio \<in> set c" using r assms(1) by (simp add: component_closed_def)
    show ?thesis
      using projectComponent_outcome(4) [OF assms(1,4)]
    proof
      assume "all_held ratios c states result'"
      then show ?thesis using r d leaves [OF r(2)] unfolding all_held_def ratio_settled_def by blast
    next
      assume "all_moved approx ratios c result'"
      then show ?thesis using r(1) joined [OF r(2)] unfolding all_moved_def ratio_settled_def by blast
    qed
  qed
  have "replicas_of result' name = current_of states name
        \<or> ri_Floor (interval_of result' name) \<le> replicas_of result' name \<and> replicas_of result' name \<le> ri_Ceil (interval_of result' name)"
    if "name \<in> set c" for name
    using projectComponent_outcome(4) [OF assms(1,4)] that unfolding all_held_def all_moved_def by blast
  then show ?thesis using settle assms(3) unfolding settled_def by blast
qed

definition intervals_ok :: "string set \<Rightarrow> (string, ReplicaInterval) gomap \<Rightarrow> bool" where
  "intervals_ok names intervals \<longleftrightarrow> '''' \<notin> names
     \<and> (\<forall>name \<in> names. 1 \<le> ri_Floor (map_get intervals name zero_interval)
          \<and> ri_Floor (map_get intervals name zero_interval) \<le> ri_Ceil (map_get intervals name zero_interval)
          \<and> ri_Ceil (map_get intervals name zero_interval) \<le> 1024)"

lemma project_roles_settled:
  assumes "\<forall>ratio \<in> set ratios. rr_NumeratorRole ratio \<noteq> rr_DenominatorRole ratio" "ratio_roles ratios \<subseteq> all"
  shows "set names \<subseteq> all \<Longrightarrow> edges (ratioGraph ratios) `` seen \<subseteq> seen \<Longrightarrow> settled approx ratios states seen result
    \<Longrightarrow> intervals_ok all (cr_Intervals result)
    \<Longrightarrow> \<exists>result'. project_roles approx wild ratios states names seen result = Some result'
          \<and> settled approx ratios states (seen \<union> set names) result'
          \<and> cr_Intervals result' = cr_Intervals result \<and> cr_BlockingReason result' = cr_BlockingReason result"
proof (induction names arbitrary: seen result)
  case Nil
  then show ?case by simp
next
  case (Cons name names)
  let ?E = "edges (ratioGraph ratios)"
  show ?case
  proof (cases "name \<in> seen")
    case True
    then show ?thesis using Cons.IH [OF _ Cons.prems(2-4)] Cons.prems(1) by (auto simp: insert_absorb)
  next
    case False
    obtain c where c: "connectedComponent name (ratioGraph ratios) seen = Some (c, seen \<union> set c)" "distinct c"
        "set c = ?E\<^sup>* `` {name}" "set c \<inter> seen = {}" "?E `` (seen \<union> set c) \<subseteq> seen \<union> set c"
      using connectedComponent_exact [OF Cons.prems(2) False] by blast
    have name: "name \<in> set c" using c(3) by blast
    define r where "r = (if length c = 1 \<and> map_get (ratioGraph ratios) name [] = []
        then let interval = map_get (cr_Intervals result) name zero_interval;
               target = clamp (rs_RawRecommendedReplicas (map_get states name zero_state)) (ri_Floor interval) (ri_Ceil interval)
             in result\<lparr>cr_Replicas := map_put name target (cr_Replicas result)\<rparr>
        else projectComponent approx wild ratios c states result)"
    have "settled approx ratios states (seen \<union> set c) r \<and> cr_Intervals r = cr_Intervals result \<and> cr_BlockingReason r = cr_BlockingReason result"
    proof (cases "map_get (ratioGraph ratios) name [] = []")
      case True
      then have none: "?E `` {name} = {}" by (auto simp: edges_def)
      have "x = name" if "(name, x) \<in> ?E\<^sup>*" for x using that none by (auto elim: converse_rtranclE)
      then have c1: "set c = {name}" using c(3) by auto
      then have "length c = 1" using c(2) by (metis distinct_card card.empty card.insert empty_iff finite.emptyI One_nat_def)
      then have r: "r = result\<lparr>cr_Replicas := map_put name (clamp (rs_RawRecommendedReplicas (map_get states name zero_state))
          (ri_Floor (interval_of result name)) (ri_Ceil (interval_of result name))) (cr_Replicas result)\<rparr>"
        using True by (simp add: r_def Let_def)
      have free: "name \<notin> rr_NumeratorRole ` set ratios" using ratio_edge none by fastforce
      have ok: "ri_Floor (interval_of result name) \<le> ri_Ceil (interval_of result name)"
        using Cons.prems(1,4) by (simp add: intervals_ok_def)
      have "settled approx ratios states seen r"
        using False by (intro settled_keep [OF Cons.prems(3,2)]) (auto simp: r map_get_put)
      moreover have "settled approx ratios states {name} r"
        using free clamp_inside [OF ok] by (auto simp: settled_def r map_get_put)
      ultimately show ?thesis unfolding c1 settled_union by (simp add: r)
    next
      case coupled: False
      then obtain b where b: "(name, b) \<in> ?E" by (auto simp: edges_def) (metis list.set_intros(1) neq_Nil_conv)
      have roles: "set c \<subseteq> ratio_roles ratios"
      proof
        fix x assume "x \<in> set c"
        then have "(name, x) \<in> ?E\<^sup>*" using c(3) by blast
        then show "x \<in> ratio_roles ratios" using edges_roles b by (cases rule: rtranclE) blast+
      qed
      have r: "r = projectComponent approx wild ratios c states result" using coupled by (simp add: r_def)
      have closed: "component_closed ratios c (cr_Intervals result)"
        unfolding component_closed_def
      proof (intro conjI ballI)
        show "c \<noteq> []" using name by auto
        show "distinct c" by (rule c(2))
        show "'''' \<notin> set c" using roles assms(2) Cons.prems(4) by (auto simp: intervals_ok_def)
        show "rr_NumeratorRole ratio \<in> set c \<longleftrightarrow> rr_DenominatorRole ratio \<in> set c" if "ratio \<in> set ratios" for ratio
          using ratio_edge [OF that] edges_sym [OF ratio_edge [OF that]] c(3) by (auto intro: rtrancl_into_rtrancl)
        show "1 \<le> ri_Floor (map_get (cr_Intervals result) x zero_interval)" "ri_Ceil (map_get (cr_Intervals result) x zero_interval) \<le> 1024"
          if "x \<in> set c" for x using that roles assms(2) Cons.prems(4) by (auto simp: intervals_ok_def)
      qed
      note out = projectComponent_outcome [OF closed r]
      have "settled approx ratios states seen r"
      proof (rule settled_keep [OF Cons.prems(3,2)])
        show "replicas_of r x = replicas_of result x \<and> map_of (cr_Reasons r) x = map_of (cr_Reasons result) x" if "x \<in> seen" for x
          using that c(4) by (intro out(3)) blast
      qed (rule out(1))
      moreover have "settled approx ratios states (set c) r" by (rule project_settled [OF closed c(3) roles r])
      ultimately show ?thesis using out(1,2) unfolding settled_union by simp
    qed
    note r = this
    have "intervals_ok all (cr_Intervals r)" using r Cons.prems(4) by simp
    from Cons.IH [OF _ c(5) conjunct1 [OF r] this] obtain result' where
      "project_roles approx wild ratios states names (seen \<union> set c) r = Some result'"
      "settled approx ratios states ((seen \<union> set c) \<union> set names) result'"
      "cr_Intervals result' = cr_Intervals r" "cr_BlockingReason result' = cr_BlockingReason r"
      using Cons.prems(1) by auto
    moreover have "project_roles approx wild ratios states (name # names) seen result
        = project_roles approx wild ratios states names (seen \<union> set c) r"
      using False c(1) by (simp add: r_def)
    moreover have "settled approx ratios states (seen \<union> set (name # names)) result'"
      if "settled approx ratios states ((seen \<union> set c) \<union> set names) result'" for result'
    proof -
      have eq: "(seen \<union> set c) \<union> set names = (seen \<union> set (name # names)) \<union> set c" using name by auto
      show ?thesis using that unfolding eq by (rule settled_union [THEN iffD1, THEN conjunct1])
    qed
    ultimately show ?thesis using r by simp
  qed
qed

section \<open>The solver\<close>

lemma fold_put_lookup:
  assumes "distinct (map k xs)" "x \<in> set xs"
  shows "map_of (fold (\<lambda>x. map_put (k x) x) xs m) (k x) = Some x"
  using assms
proof (induction xs arbitrary: m)
  case (Cons y ys)
  have other: "map_of (fold (\<lambda>x. map_put (k x) x) zs m) key = map_of m key" if "key \<notin> k ` set zs" for zs m key
    using that by (induction zs arbitrary: m) (auto simp: map_of_put)
  show ?case
  proof (cases "x = y")
    case True
    then show ?thesis using other [of "k y" ys] Cons.prems(1) by (simp add: map_of_put)
  next
    case False
    then show ?thesis using Cons by simp
  qed
qed simp

text \<open>The input passed its own validation, and its roles are those of the scaler.\<close>

definition solver_input_ok :: "ConstraintInput \<Rightarrow> bool" where
  "solver_input_ok input \<longleftrightarrow> rules_valid (ci_Rules input) \<and> distinct (map rs_Name (ci_Roles input)) \<and> '''' \<notin> rs_Name ` set (ci_Roles input)
     \<and> (\<forall>role \<in> set (ci_Roles input). rs_Name role \<in> sb_Name ` set (sc_Roles (ci_Rules input)))
     \<and> ratio_roles (sc_Ratios (ci_Rules input)) \<subseteq> rs_Name ` set (ci_Roles input)
     \<and> step_ok (sd_StepPolicy (ci_ScaleDown input)) \<and> ci_Now input \<noteq> 0"

definition history_of :: "ConstraintInput \<Rightarrow> ScalerRoleState \<Rightarrow> StabilizationSample list" where
  "history_of input role = pruneStabilizationHistory
     (rs_StabilizationHistory role @ [\<lparr>ss_Timestamp = ci_Now input, ss_Replicas = rs_RawRecommendedReplicas role\<rparr>])
     (ci_Now input) (largestStabilizationWindow (ci_ScaleUp input) (ci_ScaleDown input))"

definition found_interval :: "(f64 \<Rightarrow> int) \<Rightarrow> ConstraintInput \<Rightarrow> ScalerRoleState \<Rightarrow> ScalerRoleBounds \<Rightarrow> ReplicaInterval" where
  "found_interval wild input role bound = (case roleInterval wild input role bound (history_of input role) of
     (lo, hi) \<Rightarrow> \<lparr>ri_Floor = lo, ri_Ceil = hi\<rparr>)"

lemma collect_role_bound:
  assumes "map_of bounds (rs_Name role) = Some bound"
  shows "collect_role wild input bounds role result = result\<lparr>
     cr_Replicas := map_put (rs_Name role) (rs_CurrentReplicas role) (cr_Replicas result),
     cr_StabilizationHistory := map_put (rs_Name role) (history_of input role) (cr_StabilizationHistory result),
     cr_Intervals := map_put (rs_Name role) (found_interval wild input role bound) (cr_Intervals result)\<rparr>"
  using assms by (simp add: collect_role_def Let_def history_of_def found_interval_def case_prod_beta)

lemma collected:
  assumes "\<And>role. role \<in> set roles \<Longrightarrow> map_of bounds (rs_Name role) = Some (bound_of role)" "distinct (map rs_Name roles)"
  shows "cr_BlockingReason (fold (collect_role wild input bounds) roles result) = cr_BlockingReason result"
    "role \<in> set roles \<Longrightarrow> interval_of (fold (collect_role wild input bounds) roles result) (rs_Name role)
       = found_interval wild input role (bound_of role)"
proof -
  have other: "cr_BlockingReason (fold (collect_role wild input bounds) rs st) = cr_BlockingReason st
      \<and> (name \<notin> rs_Name ` set rs \<longrightarrow> interval_of (fold (collect_role wild input bounds) rs st) name = interval_of st name)"
    if "set rs \<subseteq> set roles" for rs st name
    using that by (induction rs arbitrary: st) (auto simp: collect_role_bound [OF assms(1)] map_get_put)
  show "cr_BlockingReason (fold (collect_role wild input bounds) roles result) = cr_BlockingReason result" using other by blast
  have "interval_of (fold (collect_role wild input bounds) rs st) (rs_Name role) = found_interval wild input role (bound_of role)"
    if "set rs \<subseteq> set roles" "distinct (map rs_Name rs)" "role \<in> set rs" for rs st
    using that
  proof (induction rs arbitrary: st)
    case (Cons r rs)
    show ?case
    proof (cases "role = r")
      case True
      then show ?thesis using other [of rs _ "rs_Name r"] Cons.prems by (simp add: collect_role_bound [OF assms(1)] map_get_put)
    next
      case False
      then show ?thesis using Cons by simp
    qed
  qed simp
  then show "interval_of (fold (collect_role wild input bounds) roles result) (rs_Name role) = found_interval wild input role (bound_of role)"
    if "role \<in> set roles" using that assms(2) by blast
qed

lemma first_conflict_None:
  "(\<And>role. role \<in> set roles \<Longrightarrow> ri_Floor (map_get intervals (rs_Name role) zero_interval) \<le> ri_Ceil (map_get intervals (rs_Name role) zero_interval))
    \<Longrightarrow> first_conflict intervals roles names = None"
  by (induction roles arbitrary: names) (auto simp: Let_def not_less)

text \<open>The explanation changes no count, and no reason of a conflict.\<close>

lemma explain_keeps:
  "cr_Replicas (explain roles result) = cr_Replicas result" "cr_Intervals (explain roles result) = cr_Intervals result"
  "cr_BlockingReason result = '''' \<Longrightarrow> cr_BlockingReason (explain roles result) \<noteq> reasonBoundsConflict"
  "map_of (cr_Reasons result) name = Some reasonRatioConflict \<Longrightarrow> cr_BlockingReason result = ''''
    \<Longrightarrow> map_of (cr_Reasons (explain roles result)) name = Some reasonRatioConflict"
proof -
  let ?pick = "find (\<lambda>(name, reason). reason = reasonRatioConflict \<or> reason = reasonPacingBounded) (cr_Reasons result)"
  define mark where "mark = (\<lambda>(role :: ScalerRoleState) result. if rs_RawRecommendedReplicas role \<noteq> rs_CurrentReplicas role
                \<and> map_get (cr_Replicas result) (rs_Name role) 0 = rs_CurrentReplicas role
             then result\<lparr>cr_BlockingReason := reasonPacingBounded,
                         cr_Reasons := map_put (rs_Name role) reasonPacingBounded (cr_Reasons result)\<rparr>
             else result :: ConstraintResult)"
  have marked: "cr_Replicas (fold mark roles r) = cr_Replicas r \<and> cr_Intervals (fold mark roles r) = cr_Intervals r
      \<and> (cr_BlockingReason r \<noteq> reasonBoundsConflict \<longrightarrow> cr_BlockingReason (fold mark roles r) \<noteq> reasonBoundsConflict)" for r
    by (induction roles arbitrary: r) (auto simp: mark_def reasonPacingBounded_def reasonBoundsConflict_def)
  have reasons: "reason \<noteq> '''' \<and> reason \<noteq> reasonBoundsConflict" if "?pick = Some (n, reason)" for n reason
    using that by (auto simp: find_Some_iff reasonRatioConflict_def reasonPacingBounded_def reasonBoundsConflict_def)
  have unfolded: "explain roles result = (if cr_BlockingReason result \<noteq> '''' then result
      else case ?pick of None \<Rightarrow> fold mark roles result | Some (n, reason) \<Rightarrow> result\<lparr>cr_BlockingReason := reason\<rparr>)"
  proof (cases ?pick)
    case None
    then show ?thesis by (simp add: explain_def mark_def [symmetric])
  next
    case (Some p)
    then show ?thesis using reasons by (cases p) (simp add: explain_def)
  qed
  show "cr_Replicas (explain roles result) = cr_Replicas result" "cr_Intervals (explain roles result) = cr_Intervals result"
    using marked by (simp_all add: unfolded split: option.split)
  show "cr_BlockingReason (explain roles result) \<noteq> reasonBoundsConflict" if e: "cr_BlockingReason result = ''''"
    using e marked [of result] reasons by (auto simp: unfolded reasonBoundsConflict_def split: option.split)
  show "map_of (cr_Reasons (explain roles result)) name = Some reasonRatioConflict"
    if r: "map_of (cr_Reasons result) name = Some reasonRatioConflict" and e: "cr_BlockingReason result = ''''"
  proof (cases ?pick)
    case None
    then show ?thesis using map_of_SomeD [OF r] by (auto simp: find_None_iff)
  next
    case (Some p)
    then show ?thesis using e r by (cases p) (simp add: unfolded)
  qed
qed

lemma solve_settled:
  assumes "solver_input_ok input"
  defines "states \<equiv> fold (\<lambda>role. map_put (rs_Name role) role) (ci_Roles input) []"
  obtains mid where "SolveModelDeploymentScalerConstraints approx wild clock input = Some (explain (ci_Roles input) mid)"
    "settled approx (sc_Ratios (ci_Rules input)) states (rs_Name ` set (ci_Roles input)) mid" "cr_BlockingReason mid = ''''"
    "\<And>role. role \<in> set (ci_Roles input) \<Longrightarrow> map_get states (rs_Name role) zero_state = role"
    "\<And>role bound. role \<in> set (ci_Roles input) \<Longrightarrow> bound \<in> set (sc_Roles (ci_Rules input)) \<Longrightarrow> sb_Name bound = rs_Name role
       \<Longrightarrow> interval_of mid (rs_Name role) = found_interval wild input role bound"
proof -
  let ?rules = "ci_Rules input" and ?roles = "ci_Roles input"
  have ok: "rules_valid ?rules" "distinct (map rs_Name ?roles)" "'''' \<notin> rs_Name ` set ?roles"
      "\<And>role. role \<in> set ?roles \<Longrightarrow> rs_Name role \<in> sb_Name ` set (sc_Roles ?rules)"
      "ratio_roles (sc_Ratios ?rules) \<subseteq> rs_Name ` set ?roles" "step_ok (sd_StepPolicy (ci_ScaleDown input))" "ci_Now input \<noteq> 0"
    using assms(1) by (auto simp: solver_input_ok_def)
  define bounds where "bounds = fold (\<lambda>bound. map_put (sb_Name bound) bound) (sc_Roles ?rules) []"
  define first where "first = fold (collect_role wild input bounds) ?roles
     \<lparr>cr_Replicas = [], cr_Reasons = [], cr_Intervals = [], cr_StabilizationHistory = [], cr_BlockingReason = ''''\<rparr>"
  have bound: "map_of bounds (sb_Name b) = Some b" if "b \<in> set (sc_Roles ?rules)" for b
    unfolding bounds_def using rules_validD(1) [OF ok(1)] that by (rule fold_put_lookup)
  have state: "map_get states (rs_Name role) zero_state = role" if "role \<in> set ?roles" for role
    using fold_put_lookup [OF ok(2) that, of "[]"] by (simp add: states_def map_get_def)
  have has: "map_of bounds (rs_Name role) = Some (the (map_of bounds (rs_Name role)))" if "role \<in> set ?roles" for role
    using ok(4) [OF that] bound by force
  have at: "interval_of first (rs_Name role) = found_interval wild input role b"
    if "role \<in> set ?roles" "b \<in> set (sc_Roles ?rules)" "sb_Name b = rs_Name role" for role b
    using collected(2) [OF has ok(2) that(1), of wild input] bound [OF that(2)] that(3) by (simp add: first_def)
  have range: "1 \<le> ri_Floor (interval_of first (rs_Name role)) \<and> ri_Floor (interval_of first (rs_Name role)) \<le> ri_Ceil (interval_of first (rs_Name role))
      \<and> ri_Ceil (interval_of first (rs_Name role)) \<le> 1024" if role: "role \<in> set ?roles" for role
  proof -
    obtain b where b: "b \<in> set (sc_Roles ?rules)" "sb_Name b = rs_Name role" using ok(4) [OF role] by force
    note v = rules_validD(2) [OF ok(1) b(1)]
    obtain lo hi where e: "roleInterval wild input role b (history_of input role) = (lo, hi)" by (cases "roleInterval wild input role b (history_of input role)")
    show ?thesis
      using role_interval_bounds(1-4) [OF _ _ _ ok(6) e] v at [OF role b] by (simp add: found_interval_def e)
  qed
  have blocking: "cr_BlockingReason first = ''''" unfolding first_def using collected(1) [OF has ok(2)] by simp
  have iv: "intervals_ok (rs_Name ` set ?roles) (cr_Intervals first)" using range ok(3) by (auto simp: intervals_ok_def)
  have differ: "\<forall>ratio \<in> set (sc_Ratios ?rules). rr_NumeratorRole ratio \<noteq> rr_DenominatorRole ratio"
    using rules_validD(3) [OF ok(1)] by blast
  have "settled approx (sc_Ratios ?rules) states {} first" by (simp add: settled_def)
  then obtain mid where mid: "project_roles approx wild (sc_Ratios ?rules) states (sort (map rs_Name ?roles)) {} first = Some mid"
      "settled approx (sc_Ratios ?rules) states ({} \<union> set (sort (map rs_Name ?roles))) mid"
      "cr_Intervals mid = cr_Intervals first" "cr_BlockingReason mid = cr_BlockingReason first"
    using project_roles_settled [OF differ ok(5), of "sort (map rs_Name ?roles)" "{}" approx states first wild] iv by auto
  have "first_conflict (cr_Intervals first) ?roles [] = None" using range by (intro first_conflict_None) blast
  then have "SolveModelDeploymentScalerConstraints approx wild clock input = Some (explain ?roles mid)"
    using ok(7) blocking mid(1)
    by (simp add: SolveModelDeploymentScalerConstraints_def Let_def bounds_def [symmetric] first_def [symmetric] states_def [symmetric] reasonBoundsConflict_def)
  moreover have "settled approx (sc_Ratios ?rules) states (rs_Name ` set ?roles) mid" using mid(2) by simp
  ultimately show thesis using that state at blocking mid(3,4) by simp
qed

text \<open>Two coupled roles and a free one; two coupled pairs; and a scaler whose step cap is the largest count.\<close>

definition state_of :: "string \<Rightarrow> int \<Rightarrow> int \<Rightarrow> ScalerRoleState" where
  "state_of name current raw = \<lparr>rs_Name = name, rs_Kind = ''Prefill'', rs_CurrentReplicas = current, rs_RawRecommendedReplicas = raw,
     rs_HoldScaleDown = False, rs_CompleteCoverage = True, rs_HasPendingUnadmittedWorkload = False,
     rs_LastScaleUpTime = 0, rs_StabilizationHistory = []\<rparr>"

definition at_least_one :: "string \<Rightarrow> string \<Rightarrow> ScalerRoleRatio" where
  "at_least_one num den = \<lparr>rr_NumeratorRole = num, rr_DenominatorRole = den, rr_Target = None,
     rr_Min = Some \<lparr>dec_Unscaled = 1, dec_Scale = 0\<rparr>, rr_Max = None\<rparr>"

definition up_to_eight :: "string \<Rightarrow> ScalerRoleBounds" where
  "up_to_eight name = \<lparr>sb_Name = name, sb_MinReplicas = 1, sb_MaxReplicas = 8\<rparr>"

definition input_of :: "ScalerRoleRatio list \<Rightarrow> StepPolicy option \<Rightarrow> ScalerRoleState list \<Rightarrow> ConstraintInput" where
  "input_of ratios cap roles = \<lparr>ci_Rules = \<lparr>sc_Roles = map (\<lambda>role. up_to_eight (rs_Name role)) roles, sc_Ratios = ratios\<rparr>,
     ci_ScaleUp = \<lparr>su_StabilizationWindowSeconds = 0, su_MaxStepReplicas = 0, su_MaxStepPercent = 0, su_StepPolicy = cap\<rparr>,
     ci_ScaleDown = \<lparr>sd_StabilizationWindowSeconds = 300, sd_DecodePostScaleUpGraceSeconds = 0, sd_StepPolicy = None\<rparr>,
     ci_Roles = roles, ci_HasActiveRetirement = False, ci_InAbortCooldown = False, ci_CooldownUntil = 0, ci_Now = 1000\<rparr>"

definition three_roles :: ConstraintInput where
  "three_roles = input_of [at_least_one ''a'' ''b''] None [state_of ''a'' 2 5, state_of ''b'' 2 3, state_of ''c'' 2 9]"

definition two_pairs :: ConstraintInput where
  "two_pairs = input_of [at_least_one ''a'' ''b'', at_least_one ''c'' ''d''] None
     [state_of ''a'' 2 4, state_of ''b'' 2 4, state_of ''c'' 2 4, state_of ''d'' 2 4]"

definition huge_cap :: ConstraintInput where
  "huge_cap = input_of [] (Some \<lparr>sp_Type = ''Pods'', sp_Value = 2147483647\<rparr>) [state_of ''a'' 2 8]"

lemmas sample_defs = input_of_def state_of_def at_least_one_def up_to_eight_def

lemma sample_rules_valid: "rules_valid (ci_Rules three_roles)" "rules_valid (ci_Rules two_pairs)"
  unfolding rules_valid_def by (intro conjI; code_simp)+

lemma samples_ok: "solver_input_ok three_roles" "solver_input_ok two_pairs"
  using sample_rules_valid unfolding solver_input_ok_def
  by (simp_all add: three_roles_def two_pairs_def sample_defs ratio_roles_def step_ok_def)



text \<open>C39: Two independent groups of ratios hold each other for ever. When two ratios of a valid scaler couple
  different groups of roles, every role a ratio names keeps its current count, whatever is recommended,
  and is reported with a conflict of ratios: the check of a group's vector also asks for the ratios of
  the other group, whose roles have no count in that vector.
\<close>

theorem separate_ratio_groups_never_move:
  assumes "solver_input_ok input" "r1 \<in> set (sc_Ratios (ci_Rules input))" "r2 \<in> set (sc_Ratios (ci_Rules input))"
    "(rr_NumeratorRole r1, rr_NumeratorRole r2) \<notin> (edges (ratioGraph (sc_Ratios (ci_Rules input))))\<^sup>*"
  shows "\<exists>res. SolveModelDeploymentScalerConstraints approx wild clock input = Some res
    \<and> (\<forall>role \<in> set (ci_Roles input). rs_Name role \<in> ratio_roles (sc_Ratios (ci_Rules input)) \<longrightarrow>
         replicas_of res (rs_Name role) = rs_CurrentReplicas role)
    \<and> (\<forall>ratio \<in> set (sc_Ratios (ci_Rules input)). map_of (cr_Reasons res) (rr_NumeratorRole ratio) = Some reasonRatioConflict)"
proof -
  let ?states = "fold (\<lambda>role. map_put (rs_Name role) role) (ci_Roles input) []" and ?ratios = "sc_Ratios (ci_Rules input)"
  let ?E = "edges (ratioGraph ?ratios)"
  obtain mid where mid: "SolveModelDeploymentScalerConstraints approx wild clock input = Some (explain (ci_Roles input) mid)"
    "settled approx ?ratios ?states (rs_Name ` set (ci_Roles input)) mid" "cr_BlockingReason mid = ''''"
    and state: "\<And>role. role \<in> set (ci_Roles input) \<Longrightarrow> map_get ?states (rs_Name role) zero_state = role"
    and "\<And>role bound. role \<in> set (ci_Roles input) \<Longrightarrow> bound \<in> set (sc_Roles (ci_Rules input)) \<Longrightarrow> sb_Name bound = rs_Name role
       \<Longrightarrow> interval_of mid (rs_Name role) = found_interval wild input role bound"
    by (rule solve_settled [OF assms(1), where approx = approx and wild = wild and clock = clock]) (rule that)
  have sym: "sym (?E\<^sup>*)" using edges_sym by (intro sym_rtrancl) (auto simp: sym_def)
  have held: "replicas_of mid (rr_NumeratorRole ratio) = current_of ?states (rr_NumeratorRole ratio)
      \<and> replicas_of mid (rr_DenominatorRole ratio) = current_of ?states (rr_DenominatorRole ratio)
      \<and> map_of (cr_Reasons mid) (rr_NumeratorRole ratio) = Some reasonRatioConflict" if r: "ratio \<in> set ?ratios" for ratio
  proof -
    have "\<exists>other \<in> set ?ratios. (rr_NumeratorRole ratio, rr_NumeratorRole other) \<notin> ?E\<^sup>*"
      using assms(2-4) symD [OF sym] by (meson rtrancl_trans)
    moreover have "rr_NumeratorRole ratio \<in> rs_Name ` set (ci_Roles input)"
      using assms(1) r by (auto simp: solver_input_ok_def ratio_roles_def)
    then have "ratio_settled approx ?ratios ?states mid ratio" using mid(2) r unfolding settled_def by blast
    ultimately show ?thesis unfolding ratio_settled_def by blast
  qed
  have "replicas_of mid (rs_Name role) = rs_CurrentReplicas role"
    if "role \<in> set (ci_Roles input)" "rs_Name role \<in> ratio_roles ?ratios" for role
  proof -
    have "replicas_of mid (rs_Name role) = current_of ?states (rs_Name role)"
      using that(2) held unfolding ratio_roles_def by fastforce
    then show ?thesis by (simp add: state [OF that(1)])
  qed
  moreover have "map_of (cr_Reasons (explain (ci_Roles input) mid)) (rr_NumeratorRole ratio) = Some reasonRatioConflict"
    if "ratio \<in> set ?ratios" for ratio
    using held [OF that] explain_keeps(4) [OF _ mid(3)] by blast
  ultimately show ?thesis unfolding mid(1) by (simp add: explain_keeps(1))
qed

lemma two_pairs_apart:
  "(''a'', ''c'') \<notin> (edges (ratioGraph (sc_Ratios (ci_Rules two_pairs))))\<^sup>*"
proof
  let ?E = "edges (ratioGraph (sc_Ratios (ci_Rules two_pairs)))"
  assume "(''a'', ''c'') \<in> ?E\<^sup>*"
  moreover have "?E `` {''a'', ''b''} \<subseteq> {''a'', ''b''}"
    unfolding edges_def ratioGraph_adjacent by (auto simp: two_pairs_def sample_defs)
  then have "?E\<^sup>* `` {''a'', ''b''} = {''a'', ''b''}" by (rule Image_closed_trancl)
  ultimately have "''c'' \<in> {''a'', ''b''}" by (metis ImageI insertI1)
  then show False by simp
qed

theorem separate_ratio_groups_never_move_witness:
  "validateModelDeploymentScalerRatioFeasibility (ci_Rules two_pairs) = Some []
   \<and> (\<exists>res. SolveModelDeploymentScalerConstraints whole_float (\<lambda>_. 0) 5 two_pairs = Some res
     \<and> replicas_of res ''a'' = 2 \<and> replicas_of res ''b'' = 2 \<and> replicas_of res ''c'' = 2 \<and> replicas_of res ''d'' = 2
     \<and> map_of (cr_Reasons res) ''a'' = Some reasonRatioConflict)"
proof
  show "validateModelDeploymentScalerRatioFeasibility (ci_Rules two_pairs) = Some []" by code_simp
  have m: "at_least_one ''a'' ''b'' \<in> set (sc_Ratios (ci_Rules two_pairs))" "at_least_one ''c'' ''d'' \<in> set (sc_Ratios (ci_Rules two_pairs))"
    by (simp_all add: two_pairs_def input_of_def)
  have "(rr_NumeratorRole (at_least_one ''a'' ''b''), rr_NumeratorRole (at_least_one ''c'' ''d''))
      \<notin> (edges (ratioGraph (sc_Ratios (ci_Rules two_pairs))))\<^sup>*" using two_pairs_apart by (simp add: at_least_one_def)
  note held = separate_ratio_groups_never_move [OF samples_ok(2) m this, of whole_float "\<lambda>_. 0" 5]
  show "\<exists>res. SolveModelDeploymentScalerConstraints whole_float (\<lambda>_. 0) 5 two_pairs = Some res
     \<and> replicas_of res ''a'' = 2 \<and> replicas_of res ''b'' = 2 \<and> replicas_of res ''c'' = 2 \<and> replicas_of res ''d'' = 2
     \<and> map_of (cr_Reasons res) ''a'' = Some reasonRatioConflict"
    by (rule ex_forward [OF held]) (simp add: two_pairs_def sample_defs ratio_roles_def)
qed

lemma wrap32_over:
  assumes "2147483647 < x" "x < 6442450944"
  shows "wrap32 x = x - 4294967296"
proof -
  have "(x + 2147483648) mod 4294967296 = (x - 2147483648) mod 4294967296"
    using minus_mod_self2 [of "x + 2147483648" 4294967296] by simp
  also have "\<dots> = x - 2147483648" using assms by (intro mod_pos_pos_trivial) simp_all
  finally show ?thesis by (simp add: wrap32_def)
qed

text \<open>C40: A very large step cap stops a role from growing. A cap in replicas whose sum with the current count
  passes the largest 32-bit integer wraps to a negative ceiling, so the interval of the role ends at its
  current count; the validation of a step policy has no upper limit.
\<close>

theorem huge_step_cap_blocks_growth:
  assumes "1 \<le> sb_MinReplicas bound" "sb_MinReplicas bound \<le> sb_MaxReplicas bound" "sb_MaxReplicas bound \<le> 1024"
    "step_ok (sd_StepPolicy (ci_ScaleDown input))" "su_StepPolicy (ci_ScaleUp input) = Some \<lparr>sp_Type = ''Pods'', sp_Value = cap\<rparr>"
    "cap \<le> 2147483647" "2147483647 < clamp (rs_CurrentReplicas role) (sb_MinReplicas bound) (sb_MaxReplicas bound) + cap"
  shows "snd (roleInterval wild input role bound history) = clamp (rs_CurrentReplicas role) (sb_MinReplicas bound) (sb_MaxReplicas bound)"
proof -
  let ?now = "clamp (rs_CurrentReplicas role) (sb_MinReplicas bound) (sb_MaxReplicas bound)"
  obtain lo hi where e: "roleInterval wild input role bound history = (lo, hi)" by (cases "roleInterval wild input role bound history")
  have now: "1 \<le> ?now" "?now \<le> 1024" using clamp_inside [OF assms(2)] assms(1,3) by (auto intro: order_trans)
  have "wrap32 (?now + cap) = ?now + cap - 4294967296" using now(2) assms(6,7) by (intro wrap32_over) simp_all
  then have "step_ceiling wild (ci_ScaleUp input) ?now \<le> ?now"
    using assms(5-7) now by (simp add: step_ceiling_def stepAmount_def)
  then show ?thesis using role_interval_bounds(3,8) [OF assms(1-4) e] by (simp add: e)
qed

theorem huge_step_cap_blocks_growth_witness:
  "snd (roleInterval (\<lambda>_. 0) huge_cap (state_of ''a'' 2 8) (up_to_eight ''a'') []) = 2"
  using huge_step_cap_blocks_growth [of "up_to_eight ''a''" huge_cap 2147483647 "state_of ''a'' 2 8" "\<lambda>_. 0" "[]"]
  by (simp add: huge_cap_def sample_defs step_ok_def clamp_def)

end
