(* ===== verification/Spec2Isabelle.thy ===== *)
theory Spec2Isabelle
  imports Allocate_Outcomes Ring_Concurrency Constraint_Solver
begin

text \<open>
  A verification development of the GPUStack operator, a Kubernetes operator that hands the
  accelerators of a cluster out to workloads.

  \<^bold>\<open>The program.\<close> On every node a device manager publishes a \<open>Devices\<close> object: the inventory of
  accelerator cards in its specification, and in its status a ledger of what is taken. A device
  plugin (\<open>src/pkg/deviceplugin\<close>) offers the cards to kubelet as lists of device identifiers, one
  list per way of sharing a card (whole, sliced, shared, partitioned). When kubelet calls
  \<open>Allocate\<close> with some identifiers, the plugin finds out which pending container the call is for,
  decides which cards and which part of them it gets, reserves them in memory, actuates the vendor
  driver, and records the allocation as an annotation of the Pod. The record is the only durable
  trace: the reconciler of the same process rebuilds the ledger from the records of all Pods,
  prunes its in-memory tables, and retries the writes that are owed. The operator's controllers
  (\<open>src/pkg/worker\<close>) read the ledger for admission and scale the model deployments that use the cards.

  \<^bold>\<open>The theories, bottom up.\<close>
  \<^item> \<open>Prelude\<close>: fixed-width integers, Go's maps as association lists in one iteration order, string
    operations, shared list lemmas.
  \<^item> \<open>Device_Types\<close>, \<open>Device_Placement\<close>: the data model of \<open>src/api/worker/v1alpha1/devices.go\<close> and
    \<open>src/pkg/device\<close>; the choice of intervals for hardware partitions
    (\<open>physical_placement.go\<close>), the group totals (\<open>sliced.go\<close>), the distance of two cards on the bus
    (\<open>topology_distance.go\<close>). Selection is sound and complete, remaining counts are the legal
    intervals disjoint from the taken ones.
  \<^item> \<open>Resource_Names\<close>, \<open>Resource_Tokens\<close>: the resource names and labels of \<open>src/pkg/nodefeature\<close> and
    the device identifiers of \<open>src/pkg/deviceplugin/resource.go\<close>, with their round trips.
  \<^item> \<open>Kube_Objects\<close>: the parts of Pods and nodes the plugin reads.
  \<^item> \<open>Allocation_Ledger\<close>, \<open>Ledger_Rebuild\<close>, \<open>Ledger_Validation\<close>: allocation records and the rebuild of
    the ledger from them (\<open>controller.go\<close>, \<open>terminated.go\<close>, \<open>allocation_validation.go\<close>). The locale
    \<open>card_store\<close> is the interface of the charging loop to the ledger. The strict rebuild charges every
    claim exactly once, agrees with the best-effort one where both succeed, and rejects what the
    validation rejects.
  \<^item> \<open>Allocation_Charge\<close>: what one allocation charges (\<open>server.go\<close>) and the comparison with
    kubelet's own record (\<open>kubelet_allocations.go\<close>).
  \<^item> \<open>Reservations\<close>: the in-memory state of the reconciler with every operation on it, the annotation
    writes, the reconcile pass, and their interleaving as a step relation.
  \<^item> \<open>Candidate_Search\<close>: which pending container a call is for. \<open>Sliced_Room\<close>: how much of a card is
    left for a slice.
  \<^item> \<open>Workload_Allocate\<close>: the whole \<open>Allocate\<close> call. \<open>Allocate_Safety\<close>, \<open>Partition_Decision\<close> and
    \<open>Allocate_Outcomes\<close> hold its properties: a card never serves two modes at once, slices never
    exceed a card, a partition lies beside all others, a success is recorded, a failure leaves
    nothing behind or a write that is retried.
  \<^item> \<open>Ring_Buffer\<close>, \<open>Ring_Window\<close>, \<open>Ring_Concurrency\<close>: the ring containers of
    \<open>src/pkg/utils/datax/ring.go\<close>. The locale \<open>window\<close> is what callers rely on; \<open>call_simulation\<close>
    carries a simulation over sequences of calls. Both are interpreted on the rings.
  \<^item> \<open>Ratio_Feasibility\<close>, \<open>Ratio_Search\<close>, \<open>Ratio_Components\<close>: the admission checks of a scaler on its roles
    and ratios (\<open>src/pkg/worker/webhooks/worker/model_deployment_scaler.go\<close>). The union-find that groups
    coupled roles returns, and the budgeted search with interval tightening refuses a scaler only if no
    replica counts satisfy it, as long as no bound leaves 64 bits.
  \<^item> \<open>Float64\<close>: Go's \<open>float64\<close> with rounding to nearest; rounding is monotone and keeps small integers.
    \<open>Scaler_Constraints\<close>, \<open>Constraint_Search\<close>: the constraint solver of the scaler
    (\<open>src/pkg/worker/controllers/worker/model_deployment_scaler_constraints.go\<close>) and its search for the replica
    counts of coupled roles, which returns the closest vector that keeps every ratio. \<open>Constraint_Solver\<close>:
    the solver as a whole. It returns, its intervals respect the bounds and every guard, and coupled
    roles move together or not at all; two limits of the code are proved, separate groups of ratios
    that hold each other and a step cap that wraps.

  \<^bold>\<open>Conventions.\<close> A struct is a record with prefixed fields, a pointer an option, an error a value of a
  sum type; Go's signed integers are \<^typ>\<open>int\<close> with \<open>wrap32\<close> and \<open>wrap64\<close> where they can overflow, the
  ring's counters are 64-bit words. State is passed explicitly; an operation under a mutex is one
  step. What lies outside the sources (JSON decoding and encoding, the answers of the API server and
  of kubelet, vendor responders) is an argument of the definitions that use it, and what a theorem
  needs of it is a hypothesis of the theorem. Loops are structural recursion or have a termination
  proof; the retry loops of the rings are partial functions, and the theorems show that they return.
  No fuel is used; the search of the solver has the budget of the code, and the theorem on it says when the
  budget is enough.

  \<^bold>\<open>Not modelled.\<close> Generated code (clients, deep copies, OpenAPI, CRDs), the vendored API types under
  \<open>src/staging\<close>, the bindings to vendor libraries and the detectors on top of them (calls into drivers),
  the gRPC transport and registration of the device plugin, the web servers and gateways, and the model
  downloads are I/O or generated. The RDMA plugin, the recommendation algorithms and the planner of the
  scaler, and the other controllers and webhooks of the operator (elastic operations, rollouts, retirement,
  rendering of workloads) have logic of their own that is not covered; the solver takes the
  recommendation of the algorithms as its input.
\<close>

end
